(* ===== verification/Prelude.thy ===== *)
theory Prelude
  imports Main "HOL-Library.AList" "HOL-Library.List_Lexorder" "HOL-Library.Char_ord"
    "HOL-Library.Product_Lexorder"
begin

section \<open>Prelude: shared types, errors, integers and list lemmas\<close>

text \<open>
  What every component theory of the microhook development shares: Go error values with
  the sentinels that \<open>errors.Is\<close> looks for, 64-bit integers with the wrap-around written
  out, times and durations in nanoseconds, Go maps as association lists, and the generic
  lemmas on lists and association lists the component proofs use. Go strings and byte
  slices are both \<open>string\<close> (a list of bytes): Go's strings are byte sequences too.
\<close>

type_synonym bytes = string

subsection \<open>Errors\<close>

text \<open>
  The text of an error is kept as the list of pieces its format string builds it from:
  literal text, a string printed with \<open>%q\<close>, an integer printed with \<open>%d\<close> and a duration
  printed with \<open>%s\<close>. An error value also carries the sentinels it wraps, which is all that
  \<open>errors.Is\<close> can observe of it in this program.
\<close>

datatype frag = Txt string | Quoted string | Num int | Dur int

type_synonym message = "frag list"

datatype sentinel =
    ErrActionNotFound | ErrActionDisabled | ErrActionConflict | ErrInvalidMode
  | ErrRunNotFound | ErrInvalidRetention | ErrInvalidRunState
  | ErrMissingBearerToken | ErrInvalidBearerToken | ErrForbiddenAction
  | ErrInvalidToken | ErrRequestBodyTooLarge | ErrNoRows | ErrServerClosed

fun sentinel_text :: "sentinel \<Rightarrow> string" where
  "sentinel_text ErrActionNotFound = ''action not found''"
| "sentinel_text ErrActionDisabled = ''action disabled''"
| "sentinel_text ErrActionConflict = ''action already running''"
| "sentinel_text ErrInvalidMode = ''invalid invoke mode''"
| "sentinel_text ErrRunNotFound = ''run not found''"
| "sentinel_text ErrInvalidRetention = ''invalid retention policy''"
| "sentinel_text ErrInvalidRunState = ''invalid run state''"
| "sentinel_text ErrMissingBearerToken = ''missing bearer token''"
| "sentinel_text ErrInvalidBearerToken = ''invalid bearer token''"
| "sentinel_text ErrForbiddenAction = ''forbidden action''"
| "sentinel_text ErrInvalidToken = ''invalid Microhook token''"
| "sentinel_text ErrRequestBodyTooLarge = ''request body too large''"
| "sentinel_text ErrNoRows = ''sql: no rows in result set''"
| "sentinel_text ErrServerClosed = ''http: Server closed''"

datatype go_error = GoError (error_text: message) (error_chain: "sentinel list")

definition errorf :: "message \<Rightarrow> go_error" where
  "errorf m = GoError m []"

definition errors_new :: "string \<Rightarrow> go_error" where
  "errors_new s = GoError [Txt s] []"

definition sentinel_error :: "sentinel \<Rightarrow> go_error" where
  "sentinel_error s = GoError [Txt (sentinel_text s)] [s]"

text \<open>\<open>fmt.Errorf\<close> with one \<open>%w\<close>: text before it, the wrapped error, text after it.\<close>

definition wrap_error :: "message \<Rightarrow> go_error \<Rightarrow> message \<Rightarrow> go_error" where
  "wrap_error pre e post = GoError (pre @ error_text e @ post) (error_chain e)"

definition errors_is :: "go_error \<Rightarrow> sentinel \<Rightarrow> bool" where
  "errors_is e s = (s \<in> set (error_chain e))"

text \<open>\<open>errors.Join\<close> of two possibly nil errors.\<close>

fun errors_join :: "go_error option \<Rightarrow> go_error option \<Rightarrow> go_error option" where
  "errors_join None e = e"
| "errors_join e None = e"
| "errors_join (Some e1) (Some e2) =
     Some (GoError (error_text e1 @ [Txt ''\<newline>''] @ error_text e2)
                   (error_chain e1 @ error_chain e2))"

lemma errors_is_wrap [simp]: "errors_is (wrap_error pre e post) s = errors_is e s"
  by (simp add: errors_is_def wrap_error_def)

lemma errors_is_sentinel [simp]: "errors_is (sentinel_error t) s \<longleftrightarrow> s = t"
  by (auto simp: errors_is_def sentinel_error_def)

lemma errors_is_errorf [simp]: "\<not> errors_is (errorf m) s"
  by (simp add: errors_is_def errorf_def)

lemma errors_is_new [simp]: "\<not> errors_is (errors_new m) s"
  by (simp add: errors_is_def errors_new_def)

subsection \<open>64-bit integers, times and durations\<close>

text \<open>
  Go's \<open>int\<close>, \<open>int64\<close> and \<open>time.Duration\<close> are 64-bit two's complement; arithmetic on them
  wraps. A \<open>time.Time\<close> is the exact number of nanoseconds since the Unix epoch, which
  Go keeps in a wider representation; \<open>UnixNano\<close> is the point where it is cut to 64 bits.
  \<open>zero_time\<close> is January 1 of year 1, the zero \<open>time.Time\<close>.
\<close>

type_synonym time = int
type_synonym duration = int

definition wrap64 :: "int \<Rightarrow> int" where
  "wrap64 x = (x + 2 ^ 63) mod 2 ^ 64 - 2 ^ 63"

definition int64_range :: "int \<Rightarrow> bool" where
  "int64_range x \<longleftrightarrow> - (2 ^ 63) \<le> x \<and> x < 2 ^ 63"

definition zero_time :: time where
  "zero_time = - 62135596800 * 1000000000"

definition unix_nano :: "time \<Rightarrow> int" where
  "unix_nano t = wrap64 t"

definition time_unix_nano :: "int \<Rightarrow> time" where
  "time_unix_nano n = n"

lemma wrap64_id: "int64_range x \<Longrightarrow> wrap64 x = x"
  by (simp add: wrap64_def int64_range_def)

lemma wrap64_range: "int64_range (wrap64 x)"
proof -
  have "0 \<le> (x + 2 ^ 63) mod 2 ^ 64" and "(x + 2 ^ 63) mod 2 ^ 64 < (2 ^ 64 :: int)"
    by simp_all
  then show ?thesis by (simp add: wrap64_def int64_range_def)
qed

lemma unix_nano_roundtrip: "int64_range t \<Longrightarrow> time_unix_nano (unix_nano t) = t"
  by (simp add: time_unix_nano_def unix_nano_def wrap64_id)

lemma int64_not_zero_time: "int64_range t \<Longrightarrow> t \<noteq> zero_time"
  by (simp add: int64_range_def zero_time_def)

subsection \<open>Go maps with string keys\<close>

text \<open>
  A Go map that the program ranges over is an association list with distinct keys; the
  order of the list is the order in which one \<open>range\<close> loop happens to visit it. Assignment
  is \<open>AList.update\<close>, \<open>maps.Copy(dst, src)\<close> is \<open>gomap_copy dst src\<close>.
\<close>

type_synonym 'v gomap = "(string \<times> 'v) list"

definition gomap_wf :: "'v gomap \<Rightarrow> bool" where
  "gomap_wf m = distinct (map fst m)"

fun gomap_copy :: "'v gomap \<Rightarrow> 'v gomap \<Rightarrow> 'v gomap" where
  "gomap_copy dst [] = dst"
| "gomap_copy dst ((k, v) # src) = gomap_copy (AList.update k v dst) src"

lemma gomap_copy_wf: "gomap_wf dst \<Longrightarrow> gomap_wf (gomap_copy dst src)"
  by (induction dst src rule: gomap_copy.induct)
    (simp_all add: gomap_wf_def distinct_update)

lemma gomap_copy_lookup:
  "gomap_wf src \<Longrightarrow> map_of (gomap_copy dst src) = map_of dst ++ map_of src"
proof (induction dst src rule: gomap_copy.induct)
  case (1 dst)
  then show ?case by simp
next
  case (2 dst k v src)
  then have wf: "gomap_wf src" and k: "k \<notin> fst ` set src"
    by (simp_all add: gomap_wf_def)
  have "map_of (gomap_copy (AList.update k v dst) src) = (map_of dst)(k \<mapsto> v) ++ map_of src"
    using "2.IH" [OF wf] by (simp only: update_conv')
  also have "\<dots> = map_of dst ++ (map_of src)(k \<mapsto> v)"
    using k by (simp only: map_add_upd map_add_upd_left dom_map_of_conv_image_fst simp_thms)
  finally show ?case by (simp only: gomap_copy.simps map_of.simps fst_conv snd_conv)
qed

lemma gomap_copy_empty: "gomap_wf src \<Longrightarrow> gomap_copy [] src = src"
proof -
  have aux: "gomap_copy dst src = dst @ src" if "distinct (map fst (dst @ src))"
    for dst src :: "'a gomap"
    using that
  proof (induction dst src rule: gomap_copy.induct)
    case (1 dst)
    then show ?case by simp
  next
    case (2 dst k v src)
    have "AList.update k v dst = dst @ [(k, v)]"
      using "2.prems" by (induction dst) auto
    with "2" show ?case by auto
  qed
  assume "gomap_wf src"
  then show "gomap_copy [] src = src" using aux [of "[]" src] by (simp add: gomap_wf_def)
qed

lemma gomap_update_wf: "gomap_wf m \<Longrightarrow> gomap_wf (AList.update k v m)"
  by (simp add: gomap_wf_def distinct_update)

subsection \<open>Lists\<close>

lemma sorted_keys_unique:
  assumes "distinct (map fst m1)" and "distinct (map fst m2)" and "map_of m1 = map_of m2"
  shows "sort (map fst m1) = sort (map fst (m2 :: (string \<times> 'v) list))"
proof -
  have "set (map fst m1) = set (map fst m2)"
    using assms(3) by (metis dom_map_of_conv_image_fst list.set_map)
  with assms(1,2) show ?thesis
    by (metis sorted_list_of_set_sort_remdups distinct_remdups_id)
qed

lemma distinct_map_filter_fst:
  "distinct (map f xs) \<Longrightarrow> distinct (map f (filter P xs))"
  by (induction xs) auto

lemma find_Some_first:
  assumes "List.find P xs = Some x"
  shows "\<exists>ys zs. xs = ys @ x # zs \<and> P x \<and> (\<forall>y \<in> set ys. \<not> P y)"
  using assms
proof (induction xs)
  case Nil
  then show ?case by simp
next
  case (Cons a xs)
  show ?case
  proof (cases "P a")
    case True
    with Cons.prems show ?thesis by fastforce
  next
    case False
    with Cons obtain ys zs where "xs = ys @ x # zs" "P x" "\<forall>y \<in> set ys. \<not> P y" by auto
    with False have "a # xs = (a # ys) @ x # zs \<and> P x \<and> (\<forall>y \<in> set (a # ys). \<not> P y)" by simp
    then show ?thesis by blast
  qed
qed

lemma find_first_Some:
  "P x \<Longrightarrow> (\<forall>y \<in> set ys. \<not> P y) \<Longrightarrow> List.find P (ys @ x # zs) = Some x"
  by (induction ys) auto

lemma find_SomeD: "List.find P xs = Some x \<Longrightarrow> x \<in> set xs \<and> P x"
  using find_Some_first by fastforce

lemma find_unique:
  "x \<in> set xs \<Longrightarrow> P x \<Longrightarrow> (\<And>y. y \<in> set xs \<Longrightarrow> P y \<Longrightarrow> y = x) \<Longrightarrow> List.find P xs = Some x"
proof (induction xs)
  case Nil
  then show ?case by simp
next
  case (Cons a xs)
  show ?case
  proof (cases "P a")
    case True
    with Cons.prems(3) [of a] show ?thesis by simp
  next
    case False
    with Cons.prems(1,2) have "x \<in> set xs" by auto
    then have "List.find P xs = Some x"
      using Cons.prems(2,3) by (intro Cons.IH) simp_all
    with False show ?thesis by simp
  qed
qed

end
