(* ===== verification/Go_Strings.thy ===== *)
theory Go_Strings
  imports Prelude
begin

section \<open>The parts of Go's strings and strconv packages the program uses\<close>

text \<open>
  \<open>strings.TrimSpace\<close>, \<open>strings.Fields\<close>, \<open>strings.HasPrefix\<close>, \<open>strings.TrimPrefix\<close>,
  \<open>strings.EqualFold\<close>, \<open>strings.IndexByte\<close>, \<open>strings.Contains\<close> and \<open>strings.Join\<close> on byte
  strings, and \<open>strconv.FormatInt\<close> and \<open>strconv.ParseInt\<close> in base 10 with 64 bits. White
  space is what \<open>unicode.IsSpace\<close> accepts, in its UTF-8 encoding: the six ASCII characters,
  U+0085 and U+00A0 (two bytes), U+1680, U+2000 to U+200A, U+2028, U+2029, U+202F, U+205F and
  U+3000 (three bytes). No proper part of a valid encoding is one of these, and bytes that
  are not valid UTF-8 are not white space, so scanning bytes is scanning runes.
\<close>

abbreviation byte_of :: "char \<Rightarrow> nat" where
  "byte_of c \<equiv> of_char c"

definition ascii_space :: "char \<Rightarrow> bool" where
  "ascii_space c \<longleftrightarrow> (9 \<le> byte_of c \<and> byte_of c \<le> 13) \<or> byte_of c = 32"

definition is_space2 :: "char \<Rightarrow> char \<Rightarrow> bool" where
  "is_space2 a b \<longleftrightarrow> byte_of a = 194 \<and> (byte_of b = 133 \<or> byte_of b = 160)"

definition is_space3 :: "char \<Rightarrow> char \<Rightarrow> char \<Rightarrow> bool" where
  "is_space3 a b c \<longleftrightarrow>
     (byte_of a = 225 \<and> byte_of b = 154 \<and> byte_of c = 128) \<or>
     (byte_of a = 226 \<and> byte_of b = 128 \<and>
        (128 \<le> byte_of c \<and> byte_of c \<le> 138 \<or> byte_of c = 168 \<or> byte_of c = 169 \<or>
         byte_of c = 175)) \<or>
     (byte_of a = 226 \<and> byte_of b = 129 \<and> byte_of c = 159) \<or>
     (byte_of a = 227 \<and> byte_of b = 128 \<and> byte_of c = 128)"

text \<open>The number of bytes of the white space a string starts with; 0 when it starts with none.\<close>

fun space_len :: "string \<Rightarrow> nat" where
  "space_len (a # s) =
     (if ascii_space a then 1
      else case s of
        [] \<Rightarrow> 0
      | b # t \<Rightarrow> if is_space2 a b then 2
          else (case t of [] \<Rightarrow> 0 | c # _ \<Rightarrow> if is_space3 a b c then 3 else 0))"
| "space_len [] = 0"

text \<open>The same at the end of a string, which is given in reverse.\<close>

fun space_len_rev :: "string \<Rightarrow> nat" where
  "space_len_rev (a # s) =
     (if ascii_space a then 1
      else case s of
        [] \<Rightarrow> 0
      | b # t \<Rightarrow> if is_space2 b a then 2
          else (case t of [] \<Rightarrow> 0 | c # _ \<Rightarrow> if is_space3 c b a then 3 else 0))"
| "space_len_rev [] = 0"

lemma space_len_le: "space_len s \<le> length s"
  by (cases s) (auto split: list.splits)

lemma space_len_rev_le: "space_len_rev s \<le> length s"
  by (cases s) (auto split: list.splits)

lemma space_len_drop_less [termination_simp]:
  "space_len s \<noteq> 0 \<Longrightarrow> length (drop (space_len s) s) < length s"
  using space_len_le [of s] by simp

lemma space_len_rev_drop_less [termination_simp]:
  "space_len_rev s \<noteq> 0 \<Longrightarrow> length (drop (space_len_rev s) s) < length s"
  using space_len_rev_le [of s] by simp

function trim_left :: "string \<Rightarrow> string" where
  "trim_left s = (if space_len s = 0 then s else trim_left (drop (space_len s) s))"
  by pat_completeness auto
termination
  by (relation "measure length") (rule wf_measure, unfold in_measure, erule space_len_drop_less)

function trim_rev :: "string \<Rightarrow> string" where
  "trim_rev s = (if space_len_rev s = 0 then s else trim_rev (drop (space_len_rev s) s))"
  by pat_completeness auto
termination
  by (relation "measure length") (rule wf_measure, unfold in_measure, erule space_len_rev_drop_less)

declare trim_left.simps [simp del] trim_rev.simps [simp del]

definition trim_space :: "string \<Rightarrow> string" where
  "trim_space s = rev (trim_rev (rev (trim_left s)))"


subsection \<open>TrimSpace\<close>

text \<open>A string has trimmed edges when it neither starts nor ends with white space.\<close>

definition trimmed :: "string \<Rightarrow> bool" where
  "trimmed s \<longleftrightarrow> space_len s = 0 \<and> space_len_rev (rev s) = 0"

lemma space_len_prefix: "space_len (s @ t) = 0 \<Longrightarrow> space_len s = 0"
  by (cases s) (auto split: list.splits if_splits)

lemma trim_left_starts: "space_len (trim_left s) = 0"
  by (induction s rule: trim_left.induct) (subst trim_left.simps, simp)

lemma trim_rev_starts: "space_len_rev (trim_rev s) = 0"
  by (induction s rule: trim_rev.induct) (subst trim_rev.simps, simp)

lemma trim_rev_suffix: "\<exists>ys. s = ys @ trim_rev s"
proof (induction s rule: trim_rev.induct)
  case (1 s)
  show ?case
  proof (cases "space_len_rev s = 0")
    case True
    then show ?thesis by (subst trim_rev.simps) simp
  next
    case False
    with "1.IH" obtain ys where "drop (space_len_rev s) s = ys @ trim_rev (drop (space_len_rev s) s)"
      by blast
    then have "s = (take (space_len_rev s) s @ ys) @ trim_rev (drop (space_len_rev s) s)"
      by (metis append_assoc append_take_drop_id)
    moreover have "trim_rev s = trim_rev (drop (space_len_rev s) s)"
      using False by (subst trim_rev.simps) simp
    ultimately show ?thesis by metis
  qed
qed

lemma trim_left_id: "space_len s = 0 \<Longrightarrow> trim_left s = s"
  by (simp add: trim_left.simps)

lemma trim_rev_id: "space_len_rev s = 0 \<Longrightarrow> trim_rev s = s"
  by (simp add: trim_rev.simps)

lemma trim_space_trimmed: "trimmed (trim_space s)"
proof -
  obtain ys where "rev (trim_left s) = ys @ trim_rev (rev (trim_left s))"
    using trim_rev_suffix by blast
  then have "trim_left s = trim_space s @ rev ys"
    by (metis rev_append rev_rev_ident trim_space_def)
  then have "space_len (trim_space s) = 0"
    using trim_left_starts space_len_prefix by metis
  then show ?thesis
    by (simp add: trimmed_def trim_space_def trim_rev_starts)
qed

lemma trim_space_id [simp]: "trimmed s \<Longrightarrow> trim_space s = s"
  by (simp add: trimmed_def trim_space_def trim_left_id trim_rev_id)

lemma trim_space_idem [simp]: "trim_space (trim_space s) = trim_space s"
  by (simp add: trim_space_trimmed)

lemma trim_space_Nil [simp]: "trim_space [] = []"
  by (simp add: trimmed_def)

lemma trim_space_eq_iff: "trim_space s = s \<longleftrightarrow> trimmed s"
  using trim_space_trimmed [of s] by auto

lemma length_trim_space: "length (trim_space s) \<le> length s"
proof -
  have "length (trim_left s) \<le> length s" for s
  proof (induction s rule: trim_left.induct)
    case (1 s)
    then show ?case by (subst trim_left.simps) (auto intro: le_trans)
  qed
  moreover have "length (trim_rev r) \<le> length r" for r
    using trim_rev_suffix [of r] by (metis length_append le_add2)
  ultimately show ?thesis
    unfolding trim_space_def by (metis length_rev le_trans)
qed

subsection \<open>Fields\<close>

text \<open>
  \<open>strings.Fields\<close>: the words of a string, cut at runs of white space. The first argument
  holds the word being collected.
\<close>

function fields_from :: "string \<Rightarrow> string \<Rightarrow> string list" where
  "fields_from w [] = (if w = [] then [] else [w])"
| "fields_from w (c # s) =
     (if space_len (c # s) = 0 then fields_from (w @ [c]) s
      else (if w = [] then [] else [w]) @ fields_from [] (drop (space_len (c # s)) (c # s)))"
  by pat_completeness auto
termination
  by (relation "measure (\<lambda>(w, s). length s)")
    (rule wf_measure, unfold in_measure split, simp, erule space_len_drop_less)

definition strings_fields :: "string \<Rightarrow> string list" where
  "strings_fields s = fields_from [] s"

text \<open>A string with no white space anywhere in it, whatever follows it.\<close>

definition graphic :: "string \<Rightarrow> bool" where
  "graphic s \<longleftrightarrow> (\<forall>c \<in> set s. 33 \<le> byte_of c \<and> byte_of c \<le> 126)"

lemma graphic_space_len [simp]: "graphic (c # s) \<Longrightarrow> space_len (c # t) = 0"
  by (auto simp: graphic_def ascii_space_def is_space2_def is_space3_def split: list.splits)

lemma graphic_space_len_rev [simp]: "graphic (c # s) \<Longrightarrow> space_len_rev (c # t) = 0"
  by (auto simp: graphic_def ascii_space_def is_space2_def is_space3_def split: list.splits)

lemma graphic_Cons: "graphic (c # s) \<Longrightarrow> graphic s"
  by (simp add: graphic_def)

lemma graphic_trimmed: "graphic s \<Longrightarrow> trimmed s"
proof -
  assume g: "graphic s"
  then have "graphic (rev s)" by (simp add: graphic_def)
  with g show ?thesis
    by (cases s; cases "rev s") (auto simp: trimmed_def simp del: space_len.simps(1) space_len_rev.simps(1))
qed

lemma fields_from_graphic: "graphic t \<Longrightarrow> fields_from w (t @ s) = fields_from (w @ t) s"
proof (induction t arbitrary: w)
  case Nil
  then show ?case by simp
next
  case (Cons c t)
  then have "fields_from w (c # (t @ s)) = fields_from (w @ [c]) (t @ s)"
    by (subst fields_from.simps(2)) (simp del: space_len.simps)
  with Cons show ?case by (simp add: graphic_Cons)
qed

lemma fields_space: "ascii_space c \<Longrightarrow> fields_from w (c # s) = (if w = [] then [] else [w]) @ fields_from [] s"
  by simp

lemma fields_two_words:
  assumes "graphic a" "graphic b" "a \<noteq> []" "b \<noteq> []"
  shows "strings_fields (a @ '' '' @ b) = [a, b]"
proof -
  have sp: "ascii_space (CHR '' '')" by (simp add: ascii_space_def)
  have "strings_fields (a @ '' '' @ b) = fields_from a (CHR '' '' # b)"
    using assms(1) by (simp add: strings_fields_def fields_from_graphic)
  also have "\<dots> = a # fields_from [] (b @ [])"
    using assms(3) sp by (simp only: fields_space append_Nil2) simp
  also have "\<dots> = [a, b]"
    using assms(2,4) by (simp only: fields_from_graphic) simp
  finally show ?thesis .
qed


subsection \<open>Prefixes, searching and joining\<close>

fun has_prefix :: "string \<Rightarrow> string \<Rightarrow> bool" where
  "has_prefix s [] = True"
| "has_prefix [] (p # ps) = False"
| "has_prefix (c # s) (p # ps) = (c = p \<and> has_prefix s ps)"

definition trim_prefix :: "string \<Rightarrow> string \<Rightarrow> string" where
  "trim_prefix s p = (if has_prefix s p then drop (length p) s else s)"

lemma has_prefix_append: "has_prefix s p \<longleftrightarrow> (\<exists>t. s = p @ t)"
  by (induction s p rule: has_prefix.induct) auto

lemma trim_prefix_append [simp]: "trim_prefix (p @ t) p = t"
  by (auto simp: trim_prefix_def has_prefix_append)

definition contains_byte :: "string \<Rightarrow> char \<Rightarrow> bool" where
  "contains_byte s c = (c \<in> set s)"

definition nul :: char where
  "nul = CHR 0x00"

fun strings_join :: "string list \<Rightarrow> string \<Rightarrow> string" where
  "strings_join [] sep = []"
| "strings_join [x] sep = x"
| "strings_join (x # y # xs) sep = x @ sep @ strings_join (y # xs) sep"

text \<open>
  \<open>strings.EqualFold(s, t)\<close> for a second argument made of ASCII letters other than k and s
  (the two that have a non-ASCII case variant): equality up to ASCII case.
\<close>

definition ascii_lower :: "char \<Rightarrow> char" where
  "ascii_lower c = (if 65 \<le> byte_of c \<and> byte_of c \<le> 90 then char_of (byte_of c + 32) else c)"

definition equal_fold :: "string \<Rightarrow> string \<Rightarrow> bool" where
  "equal_fold s t = (map ascii_lower s = map ascii_lower t)"

lemma equal_fold_refl [simp]: "equal_fold s s"
  by (simp add: equal_fold_def)

subsection \<open>Decimal integers\<close>

definition digit_char :: "nat \<Rightarrow> char" where
  "digit_char d = char_of (48 + d)"

fun decimal :: "nat \<Rightarrow> string" where
  "decimal n = (if n < 10 then [digit_char n] else decimal (n div 10) @ [digit_char (n mod 10)])"

declare decimal.simps [simp del]

definition hex_digit :: "nat \<Rightarrow> char" where
  "hex_digit d = (if d < 10 then char_of (48 + d) else char_of (87 + d))"

definition format_int :: "int \<Rightarrow> string" where
  "format_int n = (if n < 0 then CHR ''-'' # decimal (nat (- n)) else decimal (nat n))"

definition is_digit :: "char \<Rightarrow> bool" where
  "is_digit c \<longleftrightarrow> 48 \<le> byte_of c \<and> byte_of c \<le> 57"

text \<open>The value of a string of digits, and None when a byte is not a digit.\<close>

fun parse_digits :: "nat \<Rightarrow> string \<Rightarrow> nat option" where
  "parse_digits acc [] = Some acc"
| "parse_digits acc (c # s) =
     (if is_digit c then parse_digits (10 * acc + (byte_of c - 48)) s else None)"

text \<open>
  \<open>strconv.ParseInt(s, 10, 64)\<close>: an optional sign and at least one digit; a value outside the
  64-bit range is an error.
\<close>

definition parse_int :: "string \<Rightarrow> int option" where
  "parse_int s =
     (let neg = has_prefix s ''-'';
          body = (if neg \<or> has_prefix s ''+'' then tl s else s)
      in if body = [] then None
         else case parse_digits 0 body of
             None \<Rightarrow> None
           | Some n \<Rightarrow>
               let v = (if neg then - int n else int n)
               in if int64_range v then Some v else None)"

lemma byte_of_digit_char: "d < 10 \<Longrightarrow> byte_of (digit_char d) = 48 + d"
  by (simp add: digit_char_def)

lemma parse_digits_append:
  "parse_digits acc (s @ t) =
     (case parse_digits acc s of None \<Rightarrow> None | Some n \<Rightarrow> parse_digits n t)"
  by (induction acc s rule: parse_digits.induct) auto

lemma parse_digits_decimal: "parse_digits 0 (decimal n) = Some n"
proof (induction n rule: decimal.induct)
  case (1 n)
  show ?case
  proof (cases "n < 10")
    case True
    then show ?thesis
      by (subst decimal.simps) (simp add: is_digit_def byte_of_digit_char)
  next
    case False
    with "1.IH" show ?thesis
      by (subst decimal.simps) (simp add: parse_digits_append is_digit_def byte_of_digit_char)
  qed
qed

lemma decimal_not_Nil [simp]: "decimal n \<noteq> []"
  by (subst decimal.simps) simp

lemma decimal_digits: "c \<in> set (decimal n) \<Longrightarrow> is_digit c"
proof (induction n rule: decimal.induct)
  case (1 n)
  from "1.prems" "1.IH" show ?case
    by (subst (asm) decimal.simps) (auto simp: is_digit_def byte_of_digit_char split: if_splits)
qed

lemma decimal_no_sign: "\<not> has_prefix (decimal n) ''-''" "\<not> has_prefix (decimal n) ''+''"
proof -
  obtain c s where d: "decimal n = c # s" by (cases "decimal n") auto
  then have "is_digit c" using decimal_digits [of c n] by simp
  then show "\<not> has_prefix (decimal n) ''-''" "\<not> has_prefix (decimal n) ''+''"
    by (auto simp: d is_digit_def)
qed

lemma parse_format_int: "int64_range n \<Longrightarrow> parse_int (format_int n) = Some n"
  by (auto simp: parse_int_def format_int_def parse_digits_decimal decimal_no_sign Let_def)

lemma format_int_inject: "int64_range m \<Longrightarrow> int64_range n \<Longrightarrow> format_int m = format_int n \<Longrightarrow> m = n"
  using parse_format_int by (metis option.inject)

end
