(* ===== verification/Sha256_Vectors.thy ===== *)
theory Sha256_Vectors
  imports Sha256
begin

section \<open>A published test vector of SHA-256\<close>

text \<open>
  The model of \<open>sha256.Sum256\<close> evaluated by the kernel on the FIPS 180-4 example message
  \<open>abc\<close>. This fixes the constants and the byte orders of the model.
\<close>

lemma sha256_abc:
  "(map of_char (sha256 ''abc'') :: int list) =
     [186, 120, 22, 191, 143, 1, 207, 234, 65, 65, 64, 222, 93, 174, 34, 35,
      176, 3, 97, 163, 150, 23, 122, 156, 180, 16, 255, 97, 242, 0, 21, 173]"
  by code_simp

end
