(* ===== verification/Sql_Tables.thy ===== *)
theory Sql_Tables
  imports Go_Strings
begin

section \<open>The database tables and the generated queries\<close>

text \<open>
  \<open>internal/storage/sqlc\<close> and the SQL it embeds (\<open>internal/storage/sql\<close>): the rows of the three
  tables, the view that joins runs with their snapshots, and one function on the tables per
  statement, with SQLite's meaning of the primary keys, of \<open>ON DELETE CASCADE\<close> (the
  connection turns foreign keys on), of \<open>ORDER BY\<close> with the binary collation and of
  \<open>LIMIT -1 OFFSET n\<close>. NULL is None, and the empty list for the BLOB column, which the code
  only ever fills with nil or with a non-empty value. An error of a statement is the text the
  driver reports.
\<close>

record run_row =
  rr_id :: string
  rr_action_name :: string
  rr_status :: string
  rr_exit_code :: "int option"
  rr_created_at :: int
  rr_started_at :: "int option"
  rr_finished_at :: "int option"
  rr_timed_out :: int
  rr_request_metadata :: bytes
  rr_stdout_tail :: string
  rr_stderr_tail :: string
  rr_error_summary :: string

record snapshot_row =
  sr_run_id :: string
  sr_description :: string
  sr_mode :: string
  sr_command_json :: bytes
  sr_shell_command :: string
  sr_cwd :: string
  sr_timeout_ns :: int
  sr_env_json :: bytes
  sr_concurrency_policy :: string
  sr_max_output_bytes :: int
  sr_enabled :: int

text \<open>A record of the view \<open>microhook_run_records\<close>: a run and its snapshot.\<close>

type_synonym run_record = "run_row \<times> snapshot_row"

record tables =
  db_runs :: "run_row list"
  db_snapshots :: "snapshot_row list"
  db_metadata :: "string gomap"

definition empty_tables :: tables where
  "empty_tables = \<lparr>db_runs = [], db_snapshots = [], db_metadata = []\<rparr>"

subsection \<open>Parameters of the statements\<close>

record q_create_run_params =
  qc_id :: string
  qc_action_name :: string
  qc_status :: string
  qc_created_at :: int
  qc_started_at :: "int option"
  qc_timed_out :: int
  qc_request_metadata :: bytes
  qc_stdout_tail :: string
  qc_stderr_tail :: string
  qc_error_summary :: string

record q_update_run_params =
  qu_status :: string
  qu_exit_code :: "int option"
  qu_started_at :: "int option"
  qu_finished_at :: "int option"
  qu_timed_out :: int
  qu_stdout_tail :: string
  qu_stderr_tail :: string
  qu_error_summary :: string
  qu_id :: string

subsection \<open>Statements\<close>

definition inserted_row :: "q_create_run_params \<Rightarrow> run_row" where
  "inserted_row p =
     \<lparr>rr_id = qc_id p, rr_action_name = qc_action_name p, rr_status = qc_status p,
      rr_exit_code = None, rr_created_at = qc_created_at p,
      rr_started_at = qc_started_at p, rr_finished_at = None,
      rr_timed_out = qc_timed_out p, rr_request_metadata = qc_request_metadata p,
      rr_stdout_tail = qc_stdout_tail p, rr_stderr_tail = qc_stderr_tail p,
      rr_error_summary = qc_error_summary p\<rparr>"

definition q_create_run :: "q_create_run_params \<Rightarrow> tables \<Rightarrow> string + tables" where
  "q_create_run p t =
     (if qc_id p \<in> rr_id ` set (db_runs t)
      then Inl ''UNIQUE constraint failed: microhook_runs.id''
      else Inr (t\<lparr>db_runs := db_runs t @ [inserted_row p]\<rparr>))"

definition q_create_action_snapshot :: "snapshot_row \<Rightarrow> tables \<Rightarrow> string + tables" where
  "q_create_action_snapshot s t =
     (if sr_run_id s \<in> sr_run_id ` set (db_snapshots t)
      then Inl ''UNIQUE constraint failed: microhook_action_snapshots.run_id''
      else if sr_run_id s \<notin> rr_id ` set (db_runs t)
      then Inl ''FOREIGN KEY constraint failed''
      else Inr (t\<lparr>db_snapshots := db_snapshots t @ [s]\<rparr>))"

definition update_row :: "q_update_run_params \<Rightarrow> run_row \<Rightarrow> run_row" where
  "update_row p r =
     (if rr_id r = qu_id p
      then r\<lparr>rr_status := qu_status p, rr_exit_code := qu_exit_code p,
             rr_started_at := qu_started_at p, rr_finished_at := qu_finished_at p,
             rr_timed_out := qu_timed_out p, rr_stdout_tail := qu_stdout_tail p,
             rr_stderr_tail := qu_stderr_tail p, rr_error_summary := qu_error_summary p\<rparr>
      else r)"

text \<open>\<open>UPDATE\<close> and \<open>DELETE\<close> return the number of rows affected with the new tables.\<close>

definition q_update_run :: "q_update_run_params \<Rightarrow> tables \<Rightarrow> nat \<times> tables" where
  "q_update_run p t =
     (length (filter (\<lambda>r. rr_id r = qu_id p) (db_runs t)),
      t\<lparr>db_runs := map (update_row p) (db_runs t)\<rparr>)"

definition run_records :: "tables \<Rightarrow> run_record list" where
  "run_records t = [(r, s). r \<leftarrow> db_runs t, s \<leftarrow> db_snapshots t, sr_run_id s = rr_id r]"

definition q_get_run :: "string \<Rightarrow> tables \<Rightarrow> run_record option" where
  "q_get_run run_id t = List.find (\<lambda>rec. rr_id (fst rec) = run_id) (run_records t)"

definition newest_first :: "run_record list \<Rightarrow> run_record list" where
  "newest_first recs = rev (sort_key (\<lambda>rec. (rr_created_at (fst rec), rr_id (fst rec))) recs)"

definition q_list_runs :: "tables \<Rightarrow> run_record list" where
  "q_list_runs t = newest_first (run_records t)"

definition q_list_runs_by_action_name :: "string \<Rightarrow> tables \<Rightarrow> run_record list" where
  "q_list_runs_by_action_name name t =
     newest_first (filter (\<lambda>rec. rr_action_name (fst rec) = name) (run_records t))"

definition q_list_runs_by_status :: "string \<Rightarrow> tables \<Rightarrow> run_record list" where
  "q_list_runs_by_status status t =
     newest_first (filter (\<lambda>rec. rr_status (fst rec) = status) (run_records t))"

definition q_list_runs_by_action_name_and_status ::
    "string \<Rightarrow> string \<Rightarrow> tables \<Rightarrow> run_record list" where
  "q_list_runs_by_action_name_and_status name status t =
     newest_first (filter (\<lambda>rec. rr_action_name (fst rec) = name \<and> rr_status (fst rec) = status)
       (run_records t))"

text \<open>Deleting runs by id, with the cascade to their snapshots.\<close>

definition delete_runs :: "string list \<Rightarrow> tables \<Rightarrow> nat \<times> tables" where
  "delete_runs ids t =
     (length (filter (\<lambda>r. rr_id r \<in> set ids) (db_runs t)),
      t\<lparr>db_runs := filter (\<lambda>r. rr_id r \<notin> set ids) (db_runs t),
        db_snapshots := filter (\<lambda>s. sr_run_id s \<notin> set ids) (db_snapshots t)\<rparr>)"

definition q_delete_runs_older_than :: "string \<Rightarrow> int \<Rightarrow> tables \<Rightarrow> nat \<times> tables" where
  "q_delete_runs_older_than excluded_status created_before t =
     delete_runs
       (map rr_id (filter (\<lambda>r. rr_status r \<noteq> excluded_status \<and> rr_created_at r < created_before)
         (db_runs t))) t"

text \<open>The runs in the order of the \<open>OFFSET\<close> query: newest first, ties by id.\<close>

definition prunable_newest_first :: "string \<Rightarrow> tables \<Rightarrow> run_row list" where
  "prunable_newest_first excluded_status t =
     rev (sort_key (\<lambda>r. (rr_created_at r, rr_id r))
       (filter (\<lambda>r. rr_status r \<noteq> excluded_status) (db_runs t)))"

definition q_delete_runs_overflow :: "string \<Rightarrow> int \<Rightarrow> tables \<Rightarrow> nat \<times> tables" where
  "q_delete_runs_overflow excluded_status max_runs t =
     delete_runs (map rr_id (drop (nat max_runs) (prunable_newest_first excluded_status t))) t"

definition q_set_metadata :: "string \<Rightarrow> string \<Rightarrow> tables \<Rightarrow> tables" where
  "q_set_metadata key val t = t\<lparr>db_metadata := AList.update key val (db_metadata t)\<rparr>"

definition q_get_metadata :: "string \<Rightarrow> tables \<Rightarrow> string option" where
  "q_get_metadata key t = map_of (db_metadata t) key"

subsection \<open>The integrity of the tables\<close>

text \<open>
  What the schema's keys and the transactions that insert both rows keep: ids are unique in
  each table, and the runs and the snapshots have the same ids.
\<close>

definition tables_wf :: "tables \<Rightarrow> bool" where
  "tables_wf t \<longleftrightarrow>
     distinct (map rr_id (db_runs t)) \<and> distinct (map sr_run_id (db_snapshots t))
     \<and> sr_run_id ` set (db_snapshots t) = rr_id ` set (db_runs t)"

definition find_run :: "string \<Rightarrow> tables \<Rightarrow> run_row option" where
  "find_run i t = List.find (\<lambda>r. rr_id r = i) (db_runs t)"

definition find_snapshot :: "string \<Rightarrow> tables \<Rightarrow> snapshot_row option" where
  "find_snapshot i t = List.find (\<lambda>s. sr_run_id s = i) (db_snapshots t)"

lemma find_key:
  "distinct (map f xs) \<Longrightarrow> List.find (\<lambda>x. f x = k) xs = Some x \<longleftrightarrow> x \<in> set xs \<and> f x = k"
  by (induction xs) auto

lemma find_key_None: "List.find (\<lambda>x. f x = k) xs = None \<longleftrightarrow> k \<notin> f ` set xs"
  by (auto simp: find_None_iff)

lemma find_append: "List.find P (xs @ ys) = (case List.find P xs of None \<Rightarrow> List.find P ys | r \<Rightarrow> r)"
  by (induction xs) auto

lemma filter_key:
  "distinct (map f xs) \<Longrightarrow>
     filter (\<lambda>x. f x = k) xs = (case List.find (\<lambda>x. f x = k) xs of None \<Rightarrow> [] | Some x \<Rightarrow> [x])"
proof (induction xs)
  case Nil
  then show ?case by simp
next
  case (Cons a xs)
  show ?case
  proof (cases "f a = k")
    case True
    with Cons.prems have "k \<notin> f ` set xs" by auto
    then have "filter (\<lambda>x. f x = k) xs = []" by (auto simp: filter_empty_conv)
    with True show ?thesis by simp
  next
    case False
    with Cons show ?thesis by simp
  qed
qed

text \<open>The record of an id is the pair of its two rows.\<close>

lemma q_get_run_find:
  assumes "tables_wf t"
  shows "q_get_run i t =
     (case find_run i t of
        None \<Rightarrow> None
      | Some r \<Rightarrow> (case find_snapshot i t of None \<Rightarrow> None | Some s \<Rightarrow> Some (r, s)))"
proof -
  have join: "List.find (\<lambda>rec. rr_id (fst rec) = i)
       (concat (map (\<lambda>r. concat (map (\<lambda>s. if sr_run_id s = rr_id r then [(r, s)] else []) ss)) rs))
     = (case List.find (\<lambda>r. rr_id r = i) rs of
          None \<Rightarrow> None
        | Some r \<Rightarrow> map_option (Pair r) (List.find (\<lambda>s. sr_run_id s = i) ss))"
    if "distinct (map rr_id rs)" "distinct (map sr_run_id ss)" for rs :: "run_row list" and ss
    using that(1)
  proof (induction rs)
    case Nil
    then show ?case by simp
  next
    case (Cons r rs)
    have here: "concat (map (\<lambda>s. if sr_run_id s = rr_id r then [(r, s)] else []) ss)
        = (case List.find (\<lambda>s. sr_run_id s = rr_id r) ss of None \<Rightarrow> [] | Some s \<Rightarrow> [(r, s)])"
    proof -
      have "concat (map (\<lambda>s. if sr_run_id s = rr_id r then [(r, s)] else []) ss)
          = map (Pair r) (filter (\<lambda>s. sr_run_id s = rr_id r) ss)"
        by (induction ss) auto
      then show ?thesis by (simp add: filter_key [OF that(2)] split: option.split)
    qed
    note IH = Cons.IH [OF distinct_tl [OF Cons.prems [unfolded list.map(2)], unfolded list.sel]]
    show ?case
    proof (cases "rr_id r = i")
      case True
      with Cons.prems have none: "List.find (\<lambda>r. rr_id r = i) rs = None"
        by (auto simp: find_key_None)
      show ?thesis
        unfolding list.map concat.simps find_append here IH none
        by (cases "List.find (\<lambda>s. sr_run_id s = rr_id r) ss") (simp_all add: True [symmetric])
    next
      case False
      show ?thesis
        unfolding list.map concat.simps find_append here IH
        by (cases "List.find (\<lambda>s. sr_run_id s = rr_id r) ss") (simp_all add: False)
    qed
  qed
  have "distinct (map rr_id (db_runs t))" "distinct (map sr_run_id (db_snapshots t))"
    using assms by (simp_all add: tables_wf_def)
  note * = join [OF this]
  show ?thesis
    unfolding q_get_run_def run_records_def * find_run_def find_snapshot_def
    by (simp split: option.split)
qed


text \<open>The statements keep the integrity, and change what a lookup finds as they should.\<close>

lemma find_map_key:
  "(\<And>x. f (g x) = f x) \<Longrightarrow>
     List.find (\<lambda>x. f x = k) (map g xs) = map_option g (List.find (\<lambda>x. f x = k) xs)"
  by (induction xs) simp_all

lemma find_filter_key:
  "List.find (\<lambda>x. f x = k) (filter (\<lambda>x. f x \<notin> K) xs) =
     (if k \<in> K then None else List.find (\<lambda>x. f x = k) xs)"
  by (induction xs) auto

lemma find_run_snapshot_iff:
  assumes "tables_wf t"
  shows "find_run i t = None \<longleftrightarrow> find_snapshot i t = None"
  using assms by (simp add: find_run_def find_snapshot_def find_key_None tables_wf_def)

lemma q_get_run_None: "tables_wf t \<Longrightarrow> q_get_run i t = None \<longleftrightarrow> i \<notin> rr_id ` set (db_runs t)"
  using find_run_snapshot_iff [of t i]
  by (auto simp: q_get_run_find find_run_def find_key_None split: option.split)

definition insert_record :: "run_row \<Rightarrow> snapshot_row \<Rightarrow> tables \<Rightarrow> tables" where
  "insert_record r s t =
     t\<lparr>db_runs := db_runs t @ [r], db_snapshots := db_snapshots t @ [s]\<rparr>"

lemma insert_record_wf:
  assumes "tables_wf t" "rr_id r \<notin> rr_id ` set (db_runs t)" "sr_run_id s = rr_id r"
  shows "tables_wf (insert_record r s t)"
  using assms by (auto simp: tables_wf_def insert_record_def)

lemma q_get_run_insert:
  assumes "tables_wf t" "rr_id r \<notin> rr_id ` set (db_runs t)" "sr_run_id s = rr_id r"
  shows "q_get_run i (insert_record r s t) = (if i = rr_id r then Some (r, s) else q_get_run i t)"
proof -
  note wf = insert_record_wf [OF assms]
  have fr: "find_run i (insert_record r s t) =
      (case find_run i t of None \<Rightarrow> if rr_id r = i then Some r else None | x \<Rightarrow> x)"
    by (simp add: find_run_def insert_record_def find_append split: option.split)
  have fs: "find_snapshot i (insert_record r s t) =
      (case find_snapshot i t of None \<Rightarrow> if rr_id r = i then Some s else None | x \<Rightarrow> x)"
    using assms(3) by (simp add: find_snapshot_def insert_record_def find_append split: option.split)
  have "find_run (rr_id r) t = None"
    using assms(2) by (simp add: find_run_def find_key_None)
  moreover have "find_snapshot (rr_id r) t = None"
    using calculation find_run_snapshot_iff [OF assms(1)] by blast
  ultimately show ?thesis
    unfolding q_get_run_find [OF wf] q_get_run_find [OF assms(1)] fr fs
    using find_run_snapshot_iff [OF assms(1), of i]
    by (cases "find_run i t"; cases "find_snapshot i t") auto
qed

lemma update_row_id [simp]: "rr_id (update_row p r) = rr_id r"
  by (simp add: update_row_def)

lemma q_update_run_wf: "tables_wf t \<Longrightarrow> tables_wf (snd (q_update_run p t))"
  by (simp add: tables_wf_def q_update_run_def image_image comp_def)

lemma q_get_run_update:
  assumes "tables_wf t"
  shows "q_get_run i (snd (q_update_run p t)) =
    map_option (\<lambda>(r, s). (update_row p r, s)) (q_get_run i t)"
proof -
  have fr: "find_run i (snd (q_update_run p t)) = map_option (update_row p) (find_run i t)"
    by (simp add: find_run_def q_update_run_def find_map_key)
  have fs: "find_snapshot i (snd (q_update_run p t)) = find_snapshot i t"
    by (simp add: find_snapshot_def q_update_run_def)
  show ?thesis
    unfolding q_get_run_find [OF q_update_run_wf [OF assms]] q_get_run_find [OF assms] fr fs
    by (simp split: option.split)
qed

lemma q_update_run_affected:
  assumes "tables_wf t"
  shows "fst (q_update_run p t) = (if q_get_run (qu_id p) t = None then 0 else 1)"
proof -
  have d: "distinct (map rr_id (db_runs t))" using assms by (simp add: tables_wf_def)
  show ?thesis
    using q_get_run_None [OF assms, of "qu_id p"] find_key_None [of rr_id "qu_id p" "db_runs t"]
    by (cases "List.find (\<lambda>x. rr_id x = qu_id p) (db_runs t)")
      (simp_all add: q_update_run_def filter_key [OF d])
qed

lemma image_filter_key: "f ` {x \<in> S. f x \<notin> K} = f ` S - K"
  by auto

lemma delete_runs_wf: "tables_wf t \<Longrightarrow> tables_wf (snd (delete_runs ids t))"
  by (simp add: tables_wf_def delete_runs_def distinct_map_filter_fst image_filter_key)

lemma q_get_run_delete:
  assumes "tables_wf t"
  shows "q_get_run i (snd (delete_runs ids t)) = (if i \<in> set ids then None else q_get_run i t)"
proof -
  have fr: "find_run i (snd (delete_runs ids t)) = (if i \<in> set ids then None else find_run i t)"
    by (simp add: find_run_def delete_runs_def find_filter_key)
  have fs: "find_snapshot i (snd (delete_runs ids t)) =
      (if i \<in> set ids then None else find_snapshot i t)"
    by (simp add: find_snapshot_def delete_runs_def find_filter_key)
  show ?thesis
    unfolding q_get_run_find [OF delete_runs_wf [OF assms]] q_get_run_find [OF assms] fr fs
    by simp
qed

text \<open>The view lists every run once, with its own snapshot.\<close>

lemma run_records_iff:
  assumes "tables_wf t"
  shows "rec \<in> set (run_records t) \<longleftrightarrow> q_get_run (rr_id (fst rec)) t = Some rec"
proof
  assume "rec \<in> set (run_records t)"
  then obtain r s where "rec = (r, s)" "r \<in> set (db_runs t)" "s \<in> set (db_snapshots t)"
      "sr_run_id s = rr_id r"
    by (auto simp: run_records_def split: if_splits)
  moreover from this assms have "find_run (rr_id r) t = Some r"
      and "find_snapshot (rr_id r) t = Some s"
    by (simp_all add: find_run_def find_snapshot_def tables_wf_def find_key)
  ultimately show "q_get_run (rr_id (fst rec)) t = Some rec"
    using assms by (simp add: q_get_run_find)
next
  assume "q_get_run (rr_id (fst rec)) t = Some rec"
  then show "rec \<in> set (run_records t)"
    unfolding q_get_run_def by (blast dest: find_SomeD)
qed

lemma q_get_run_id: "q_get_run i t = Some rec \<Longrightarrow> rr_id (fst rec) = i"
  unfolding q_get_run_def by (blast dest: find_SomeD)

lemma run_records_runs:
  assumes "tables_wf t"
  shows "map fst (run_records t) = db_runs t"
proof -
  have aux: "map fst (concat (map (\<lambda>r. concat (map (\<lambda>s. if sr_run_id s = rr_id r then [(r, s)] else [])
      (db_snapshots t))) rs)) = rs" if "rr_id ` set rs \<subseteq> sr_run_id ` set (db_snapshots t)" for rs
    using that
  proof (induction rs)
    case Nil
    then show ?case by simp
  next
    case (Cons r rs)
    have joined: "concat (map (\<lambda>s. if sr_run_id s = rr_id r then [(r, s)] else []) ss)
          = map (Pair r) (filter (\<lambda>s. sr_run_id s = rr_id r) ss)" for ss
      by (induction ss) auto
    have "distinct (map sr_run_id (db_snapshots t))"
      using assms by (simp add: tables_wf_def)
    moreover have "List.find (\<lambda>s. sr_run_id s = rr_id r) (db_snapshots t) \<noteq> None"
      using Cons.prems by (simp add: find_key_None)
    ultimately have "map fst (concat (map (\<lambda>s. if sr_run_id s = rr_id r then [(r, s)] else [])
        (db_snapshots t))) = [r]"
      unfolding joined by (auto simp: filter_key)
    with Cons show ?case by simp
  qed
  show ?thesis unfolding run_records_def by (rule aux) (use assms in \<open>auto simp: tables_wf_def\<close>)
qed

lemma set_newest_first [simp]: "set (newest_first recs) = set recs"
  by (simp add: newest_first_def)

lemma newest_first_sorted:
  "sorted_wrt (\<lambda>a b. (rr_created_at (fst b), rr_id (fst b)) \<le> (rr_created_at (fst a), rr_id (fst a)))
     (newest_first recs)"
proof -
  let ?k = "\<lambda>rec :: run_record. (rr_created_at (fst rec), rr_id (fst rec))"
  have "sorted (map ?k (sort_key ?k recs))" by (rule sorted_sort_key)
  then have "sorted_wrt (\<lambda>a b. ?k a \<le> ?k b) (sort_key ?k recs)"
    by (simp only: sorted_map)
  then show ?thesis by (simp add: newest_first_def sorted_wrt_rev)
qed

end
