(* ===== verification/Json_Scan.thy ===== *)
theory Json_Scan
  imports Go_Strings
begin

section \<open>encoding/json: scanning\<close>

text \<open>
  The scanner of Go's \<open>encoding/json\<close>, the state machine behind \<open>json.Valid\<close>,
  \<open>json.Unmarshal\<close> and \<open>Decoder.Decode\<close>: a state, a stack of the objects and arrays that
  are open, and one step per byte. Nesting deeper than 10000 levels is an error, as in the
  library. \<open>read_value\<close> is the loop of \<open>Decoder.readValue\<close>, which cuts one value off the front
  of a stream; \<open>json_valid\<close> is \<open>json.Valid\<close>.
\<close>

datatype scan_state =
    BeginValue | BeginValueOrEmpty | BeginString | BeginStringOrEmpty | EndValue | EndTop
  | InString | InStringEsc | InStringHex nat | Neg | Int0 | Int1 | Dot | Dot0 | Exp | ExpSign | Exp0
  | Literal string

datatype parse_ctx = ObjectKey | ObjectValue | ArrayValue

datatype scan_result = Cont scan_state "parse_ctx list" | EndBefore | ScanError

definition max_nesting_depth :: nat where
  "max_nesting_depth = 10000"

definition json_space :: "char \<Rightarrow> bool" where
  "json_space c \<longleftrightarrow> c = CHR '' '' \<or> c = CHR 0x09 \<or> c = CHR 0x0D \<or> c = CHR 0x0A"

definition is_digit19 :: "char \<Rightarrow> bool" where
  "is_digit19 c \<longleftrightarrow> 49 \<le> byte_of c \<and> byte_of c \<le> 57"

definition hex_val :: "char \<Rightarrow> nat option" where
  "hex_val c =
     (let b = byte_of c in
      if 48 \<le> b \<and> b \<le> 57 then Some (b - 48)
      else if 97 \<le> b \<and> b \<le> 102 then Some (b - 87)
      else if 65 \<le> b \<and> b \<le> 70 then Some (b - 55) else None)"

definition push_ctx :: "scan_state \<Rightarrow> parse_ctx \<Rightarrow> parse_ctx list \<Rightarrow> scan_result" where
  "push_ctx st ctx stk =
     (if Suc (length stk) \<le> max_nesting_depth then Cont st (ctx # stk) else ScanError)"

fun pop_ctx :: "parse_ctx list \<Rightarrow> scan_result" where
  "pop_ctx [] = ScanError"
| "pop_ctx [ctx] = Cont EndTop []"
| "pop_ctx (ctx # ctx' # stk) = Cont EndValue (ctx' # stk)"

fun end_value :: "parse_ctx list \<Rightarrow> char \<Rightarrow> scan_result" where
  "end_value [] c = EndBefore"
| "end_value (ctx # stk) c =
     (if json_space c then Cont EndValue (ctx # stk)
      else case ctx of
          ObjectKey \<Rightarrow>
            if c = CHR '':'' then Cont BeginValue (ObjectValue # stk) else ScanError
        | ObjectValue \<Rightarrow>
            if c = CHR '','' then Cont BeginString (ObjectKey # stk)
            else if c = CHR ''}'' then pop_ctx (ctx # stk) else ScanError
        | ArrayValue \<Rightarrow>
            if c = CHR '','' then Cont BeginValue (ArrayValue # stk)
            else if c = CHR '']'' then pop_ctx (ctx # stk) else ScanError)"

definition begin_value :: "scan_state \<Rightarrow> parse_ctx list \<Rightarrow> char \<Rightarrow> scan_result" where
  "begin_value st stk c =
     (if json_space c then Cont st stk
      else if c = CHR ''{'' then push_ctx BeginStringOrEmpty ObjectKey stk
      else if c = CHR ''['' then push_ctx BeginValueOrEmpty ArrayValue stk
      else if c = CHR 0x22 then Cont InString stk
      else if c = CHR ''-'' then Cont Neg stk
      else if c = CHR ''0'' then Cont Int0 stk
      else if is_digit19 c then Cont Int1 stk
      else if c = CHR ''t'' then Cont (Literal ''rue'') stk
      else if c = CHR ''f'' then Cont (Literal ''alse'') stk
      else if c = CHR ''n'' then Cont (Literal ''ull'') stk
      else ScanError)"

definition begin_string :: "scan_state \<Rightarrow> parse_ctx list \<Rightarrow> char \<Rightarrow> scan_result" where
  "begin_string st stk c =
     (if json_space c then Cont st stk
      else if c = CHR 0x22 then Cont InString stk else ScanError)"

definition state_int0 :: "parse_ctx list \<Rightarrow> char \<Rightarrow> scan_result" where
  "state_int0 stk c =
     (if c = CHR ''.'' then Cont Dot stk
      else if c = CHR ''e'' \<or> c = CHR ''E'' then Cont Exp stk else end_value stk c)"

fun scan_step :: "scan_state \<Rightarrow> parse_ctx list \<Rightarrow> char \<Rightarrow> scan_result" where
  "scan_step BeginValue stk c = begin_value BeginValue stk c"
| "scan_step BeginValueOrEmpty stk c =
     (if c = CHR '']'' then end_value stk c else begin_value BeginValueOrEmpty stk c)"
| "scan_step BeginString stk c = begin_string BeginString stk c"
| "scan_step BeginStringOrEmpty stk c =
     (if c = CHR ''}'' then end_value (ObjectValue # tl stk) c
      else begin_string BeginStringOrEmpty stk c)"
| "scan_step EndValue stk c = end_value stk c"
| "scan_step EndTop stk c = (if json_space c then Cont EndTop stk else ScanError)"
| "scan_step InString stk c =
     (if c = CHR 0x22 then Cont EndValue stk
      else if c = CHR 0x5C then Cont InStringEsc stk
      else if byte_of c < 32 then ScanError else Cont InString stk)"
| "scan_step InStringEsc stk c =
     (if c \<in> set [CHR ''b'', CHR ''f'', CHR ''n'', CHR ''r'', CHR ''t'', CHR 0x5C, CHR ''/'', CHR 0x22]
      then Cont InString stk
      else if c = CHR ''u'' then Cont (InStringHex 3) stk else ScanError)"
| "scan_step (InStringHex n) stk c =
     (if hex_val c = None then ScanError
      else case n of 0 \<Rightarrow> Cont InString stk | Suc m \<Rightarrow> Cont (InStringHex m) stk)"
| "scan_step Neg stk c =
     (if c = CHR ''0'' then Cont Int0 stk else if is_digit19 c then Cont Int1 stk else ScanError)"
| "scan_step Int1 stk c = (if is_digit c then Cont Int1 stk else state_int0 stk c)"
| "scan_step Int0 stk c = state_int0 stk c"
| "scan_step Dot stk c = (if is_digit c then Cont Dot0 stk else ScanError)"
| "scan_step Dot0 stk c =
     (if is_digit c then Cont Dot0 stk
      else if c = CHR ''e'' \<or> c = CHR ''E'' then Cont Exp stk else end_value stk c)"
| "scan_step Exp stk c =
     (if c = CHR ''+'' \<or> c = CHR ''-'' then Cont ExpSign stk
      else if is_digit c then Cont Exp0 stk else ScanError)"
| "scan_step ExpSign stk c = (if is_digit c then Cont Exp0 stk else ScanError)"
| "scan_step Exp0 stk c = (if is_digit c then Cont Exp0 stk else end_value stk c)"
| "scan_step (Literal s) stk c =
     (case s of
        [] \<Rightarrow> end_value stk c
      | d # ds \<Rightarrow> if c = d then Cont (if ds = [] then EndValue else Literal ds) stk else ScanError)"

text \<open>Whether the end of the input completes the value: the step on a space ends it.\<close>

definition eof_complete :: "scan_state \<Rightarrow> parse_ctx list \<Rightarrow> bool" where
  "eof_complete st stk \<longleftrightarrow> st = EndTop \<or> scan_step st stk (CHR '' '') = EndBefore"

fun scan_all :: "scan_state \<Rightarrow> parse_ctx list \<Rightarrow> string \<Rightarrow> bool" where
  "scan_all st stk [] = eof_complete st stk"
| "scan_all st stk (c # s) =
     (case scan_step st stk c of
        Cont st' stk' \<Rightarrow> scan_all st' stk' s
      | EndBefore \<Rightarrow> list_all json_space (c # s)
      | ScanError \<Rightarrow> False)"

definition json_valid :: "bytes \<Rightarrow> bool" where
  "json_valid s = scan_all BeginValue [] s"

text \<open>
  One value off the front of a stream: the bytes of the value with the white space before
  it, and the bytes after it; \<open>ReadMore\<close> when the stream ends first, saying whether its end
  completes the value.
\<close>

datatype read_result = ReadDone bytes bytes | ReadMore bool | ReadError

fun read_value :: "scan_state \<Rightarrow> parse_ctx list \<Rightarrow> bytes \<Rightarrow> read_result" where
  "read_value st stk [] = ReadMore (eof_complete st stk)"
| "read_value st stk (c # s) =
     (case scan_step st stk c of
        Cont st' stk' \<Rightarrow>
          (if st' = EndTop then ReadDone [c] s
           else case read_value st' stk' s of
               ReadDone raw rest \<Rightarrow> ReadDone (c # raw) rest
             | r \<Rightarrow> r)
      | EndBefore \<Rightarrow> ReadDone [] (c # s)
      | ScanError \<Rightarrow> ReadError)"

lemma read_value_append:
  "read_value st stk s = ReadDone raw rest \<Longrightarrow> s = raw @ rest"
  by (induction st stk s arbitrary: raw rest rule: read_value.induct)
    (auto split: scan_result.splits if_splits read_result.splits)

lemma end_value_not_EndBefore: "stk \<noteq> [] \<Longrightarrow> end_value stk c \<noteq> EndBefore"
  by (cases stk; cases "tl stk") (auto split: parse_ctx.splits)

lemma begin_value_not_EndBefore: "begin_value st stk c \<noteq> EndBefore"
  by (simp add: begin_value_def push_ctx_def)

lemma read_value_begin_nonempty:
  "read_value BeginValue stk s = ReadDone raw rest \<Longrightarrow> raw \<noteq> []"
  by (cases s) (auto simp: begin_value_not_EndBefore split: scan_result.splits if_splits
      read_result.splits)

lemma read_value_begin_shorter:
  "read_value BeginValue stk s = ReadDone raw rest \<Longrightarrow> length rest < length s"
  using read_value_append [of BeginValue stk s raw rest]
    read_value_begin_nonempty [of stk s raw rest] by simp

fun skip_json_space :: "string \<Rightarrow> string" where
  "skip_json_space [] = []"
| "skip_json_space (c # s) = (if json_space c then skip_json_space s else c # s)"

lemma length_skip_json_space: "length (skip_json_space s) \<le> length s"
  by (induction s) auto

lemma skip_json_space_all: "list_all json_space s \<longleftrightarrow> skip_json_space s = []"
  by (induction s) auto

end
