(* ===== verification/Json.thy ===== *)
theory Json
  imports Json_Scan
begin

section \<open>encoding/json: strings, string lists and string maps\<close>

text \<open>
  What the program marshals and unmarshals: the argv list and the environment map of an
  action snapshot (\<open>json.Marshal\<close> with HTML escaping, \<open>json.Unmarshal\<close>), and the string fields
  of requests. Strings are cut into runes as \<open>utf8.DecodeRune\<close> does; a byte that starts no
  valid rune is replaced by U+FFFD in both directions.
\<close>

subsection \<open>UTF-8\<close>

definition cont_byte :: "nat \<Rightarrow> nat \<Rightarrow> char \<Rightarrow> bool" where
  "cont_byte lo hi c \<longleftrightarrow> lo \<le> byte_of c \<and> byte_of c \<le> hi"

text \<open>
  The number of bytes of a rune by its first byte (0 for a byte that starts none), the range
  of the second byte, and the length of the valid rune a string starts with.
\<close>

definition rune_need :: "char \<Rightarrow> nat" where
  "rune_need a =
     (let x = byte_of a in
      if x < 128 then 1 else if x < 194 then 0 else if x < 224 then 2
      else if x < 240 then 3 else if x < 245 then 4 else 0)"

definition second_lo :: "char \<Rightarrow> nat" where
  "second_lo a = (if byte_of a = 224 then 160 else if byte_of a = 240 then 144 else 128)"

definition second_hi :: "char \<Rightarrow> nat" where
  "second_hi a = (if byte_of a = 237 then 159 else if byte_of a = 244 then 143 else 191)"

fun conts_ok :: "char \<Rightarrow> string \<Rightarrow> bool" where
  "conts_ok a [] = True"
| "conts_ok a (b # cs) =
     (cont_byte (second_lo a) (second_hi a) b \<and> list_all (cont_byte 128 191) cs)"

fun rune_len :: "string \<Rightarrow> nat" where
  "rune_len [] = 0"
| "rune_len (a # s) =
     (let n = rune_need a in
      if n = 0 \<or> Suc (length s) < n \<or> \<not> conts_ok a (take (n - 1) s) then 0 else n)"

lemma rune_len_le: "rune_len s \<le> length s"
  by (cases s) (auto simp: Let_def)

lemma rune_len_Cons_take:
  assumes "rune_len (a # s) = Suc n"
  shows "rune_len (a # take n s @ t) = Suc n" and "n \<le> length s"
  using assms by (auto simp: Let_def split: if_splits)

function valid_utf8 :: "string \<Rightarrow> bool" where
  "valid_utf8 [] = True"
| "valid_utf8 (c # s) =
     (rune_len (c # s) \<noteq> 0 \<and> valid_utf8 (drop (rune_len (c # s) - 1) s))"
  by pat_completeness auto
termination
  by (relation "measure length") auto

text \<open>The string with every byte that starts no valid rune replaced by U+FFFD.\<close>

definition replacement_rune :: string where
  "replacement_rune = [CHR 0xEF, CHR 0xBF, CHR 0xBD]"

function fix_utf8 :: "string \<Rightarrow> string" where
  "fix_utf8 [] = []"
| "fix_utf8 (c # s) =
     (let n = rune_len (c # s) in
      if n = 0 then replacement_rune @ fix_utf8 s
      else take n (c # s) @ fix_utf8 (drop (n - 1) s))"
  by pat_completeness auto
termination
  by (relation "measure length") auto

text \<open>\<open>utf8.AppendRune\<close>: surrogates and values past U+10FFFF become U+FFFD.\<close>

definition encode_rune :: "nat \<Rightarrow> string" where
  "encode_rune n =
     (if n < 128 then [char_of n]
      else if n < 2048 then [char_of (192 + n div 64), char_of (128 + n mod 64)]
      else if (55296 \<le> n \<and> n < 57344) \<or> 1114112 \<le> n then replacement_rune
      else if n < 65536 then
        [char_of (224 + n div 4096), char_of (128 + n div 64 mod 64), char_of (128 + n mod 64)]
      else [char_of (240 + n div 262144), char_of (128 + n div 4096 mod 64),
            char_of (128 + n div 64 mod 64), char_of (128 + n mod 64)])"

subsection \<open>Encoding strings\<close>

definition html_safe :: "char \<Rightarrow> bool" where
  "html_safe c \<longleftrightarrow>
     32 \<le> byte_of c \<and> c \<notin> set [CHR 0x22, CHR 0x5C, CHR ''&'', CHR ''<'', CHR ''>'']"

text \<open>The escape of one ASCII byte, and the loop of \<open>appendString\<close> with \<open>escapeHTML\<close>.\<close>

definition escape_ascii :: "char \<Rightarrow> string" where
  "escape_ascii c =
     (if html_safe c then [c]
      else CHR 0x5C #
        (if c = CHR 0x5C \<or> c = CHR 0x22 then [c]
         else if c = CHR 0x08 then ''b''
         else if c = CHR 0x0C then ''f''
         else if c = CHR 0x0A then ''n''
         else if c = CHR 0x0D then ''r''
         else if c = CHR 0x09 then ''t''
         else ''u00'' @ [hex_digit (byte_of c div 16), hex_digit (byte_of c mod 16)]))"

definition line_separator :: "string \<Rightarrow> bool" where
  "line_separator r \<longleftrightarrow>
     r = [CHR 0xE2, CHR 0x80, CHR 0xA8] \<or> r = [CHR 0xE2, CHR 0x80, CHR 0xA9]"

function json_escape :: "string \<Rightarrow> string" where
  "json_escape [] = []"
| "json_escape (c # s) =
     (if byte_of c < 128 then escape_ascii c @ json_escape s
      else let n = rune_len (c # s); r = take n (c # s) in
        if n = 0 then CHR 0x5C # ''ufffd'' @ json_escape s
        else (if line_separator r
              then CHR 0x5C # ''u202'' @ [hex_digit (byte_of (last r) mod 16)]
              else r) @ json_escape (drop (n - 1) s))"
  by pat_completeness auto
termination
  by (relation "measure length") auto

definition json_quote :: "string \<Rightarrow> string" where
  "json_quote s = CHR 0x22 # json_escape s @ [CHR 0x22]"

subsection \<open>Decoding strings\<close>

fun hex4 :: "string \<Rightarrow> nat option" where
  "hex4 (a # b # c # d # s) =
     (case (hex_val a, hex_val b, hex_val c, hex_val d) of
        (Some w, Some x, Some y, Some z) \<Rightarrow> Some (w * 4096 + x * 256 + y * 16 + z)
      | _ \<Rightarrow> None)"
| "hex4 _ = None"

text \<open>\<open>getu4\<close>: the value of a \<open>\\uXXXX\<close> escape at the front of a string.\<close>

definition getu4 :: "string \<Rightarrow> nat option" where
  "getu4 s = (if has_prefix s [CHR 0x5C, CHR ''u''] then hex4 (drop 2 s) else None)"

text \<open>\<open>utf16.DecodeRune\<close> on a surrogate pair.\<close>

definition surrogate_pair :: "nat \<Rightarrow> nat option \<Rightarrow> nat option" where
  "surrogate_pair r1 r2 =
     (case r2 of
        Some y \<Rightarrow>
          if 55296 \<le> r1 \<and> r1 < 56320 \<and> 56320 \<le> y \<and> y < 57344
          then Some ((r1 - 55296) * 1024 + (y - 56320) + 65536) else None
      | None \<Rightarrow> None)"

definition simple_escape :: "char \<Rightarrow> char option" where
  "simple_escape c =
     (if c = CHR 0x22 \<or> c = CHR 0x5C \<or> c = CHR ''/'' then Some c
      else if c = CHR ''b'' then Some (CHR 0x08)
      else if c = CHR ''f'' then Some (CHR 0x0C)
      else if c = CHR ''n'' then Some (CHR 0x0A)
      else if c = CHR ''r'' then Some (CHR 0x0D)
      else if c = CHR ''t'' then Some (CHR 0x09) else None)"

text \<open>\<open>unquoteBytes\<close> on the bytes between the quotes.\<close>

function json_unescape :: "string \<Rightarrow> string option" where
  "json_unescape [] = Some []"
| "json_unescape (c # s) =
     (if c = CHR 0x5C then
        (case s of
           [] \<Rightarrow> None
         | e # t \<Rightarrow>
             if e = CHR ''u'' then
               (case getu4 (c # s) of
                  None \<Rightarrow> None
                | Some r \<Rightarrow>
                    if 55296 \<le> r \<and> r < 57344 then
                      (case surrogate_pair r (getu4 (drop 5 s)) of
                         Some p \<Rightarrow> map_option (\<lambda>u. encode_rune p @ u) (json_unescape (drop 11 s))
                       | None \<Rightarrow>
                           map_option (\<lambda>u. replacement_rune @ u) (json_unescape (drop 5 s)))
                    else map_option (\<lambda>u. encode_rune r @ u) (json_unescape (drop 5 s)))
             else (case simple_escape e of
                     None \<Rightarrow> None
                   | Some d \<Rightarrow> map_option (\<lambda>u. d # u) (json_unescape t)))
      else if c = CHR 0x22 \<or> byte_of c < 32 then None
      else if byte_of c < 128 then map_option (\<lambda>u. c # u) (json_unescape s)
      else let n = rune_len (c # s) in
        if n = 0 then map_option (\<lambda>u. replacement_rune @ u) (json_unescape s)
        else map_option (\<lambda>u. take n (c # s) @ u) (json_unescape (drop (n - 1) s)))"
  by pat_completeness auto
termination
  by (relation "measure length") auto

text \<open>A quoted literal, without white space around it.\<close>

definition json_unquote :: "string \<Rightarrow> string option" where
  "json_unquote raw =
     (case raw of
        c # s \<Rightarrow>
          if c = CHR 0x22 \<and> s \<noteq> [] \<and> last s = CHR 0x22 then json_unescape (butlast s) else None
      | [] \<Rightarrow> None)"

subsection \<open>Marshalling lists and maps of strings\<close>

text \<open>
  \<open>json.Marshal\<close> of a \<open>[]string\<close> and of a \<open>map[string]string\<close>, which it prints in the order of
  its sorted keys. Both are non-nil where the program marshals them, so neither prints \<open>null\<close>.
\<close>

definition marshal_strings :: "string list \<Rightarrow> bytes" where
  "marshal_strings xs = ''['' @ strings_join (map json_quote xs) '','' @ '']''"

definition marshal_member :: "string \<Rightarrow> string \<Rightarrow> string" where
  "marshal_member k v = json_quote k @ '':'' @ json_quote v"

definition marshal_string_map :: "string gomap \<Rightarrow> bytes" where
  "marshal_string_map m =
     ''{'' @ strings_join
        (map (\<lambda>k. marshal_member k (case map_of m k of Some v \<Rightarrow> v | None \<Rightarrow> []))
          (sort (map fst m))) '','' @ ''}''"

subsection \<open>Unmarshalling lists and maps of strings\<close>

text \<open>
  \<open>json.Unmarshal\<close> first checks the whole input with the scanner, then decodes it. The text of
  the library's errors is not modelled, only that there is one.
\<close>

definition json_syntax_error :: go_error where
  "json_syntax_error = errors_new ''json: invalid input''"

definition json_type_error :: go_error where
  "json_type_error = errors_new ''json: cannot unmarshal value''"

text \<open>The elements of an array, from the byte after its bracket.\<close>

function array_items :: "string \<Rightarrow> bytes list" where
  "array_items s =
     (case read_value BeginValue [] (skip_json_space s) of
        ReadDone raw rest \<Rightarrow>
          (case skip_json_space rest of
             c # r \<Rightarrow> if c = CHR '','' then raw # array_items r else [raw]
           | [] \<Rightarrow> [raw])
      | _ \<Rightarrow> [])"
  by pat_completeness auto
termination
proof (relation "measure length", rule wf_measure)
  fix s raw rest c r
  assume rv: "read_value BeginValue [] (skip_json_space s) = ReadDone raw rest"
    and sk: "skip_json_space rest = c # r"
  have "length rest < length (skip_json_space s)" by (rule read_value_begin_shorter [OF rv])
  then show "(r, s) \<in> measure length"
    using length_skip_json_space [of s] length_skip_json_space [of rest] sk by simp
qed

declare array_items.simps [simp del]

text \<open>The members of an object, from the byte after its brace: key literals and values.\<close>

function object_items :: "string \<Rightarrow> (bytes \<times> bytes) list" where
  "object_items s =
     (case read_value BeginValue [] (skip_json_space s) of
        ReadDone key rest \<Rightarrow>
          (case skip_json_space rest of
             c # r \<Rightarrow>
               if c = CHR '':'' then
                 (case read_value BeginValue [] (skip_json_space r) of
                    ReadDone raw rest' \<Rightarrow>
                      (case skip_json_space rest' of
                         d # r' \<Rightarrow>
                           if d = CHR '','' then (key, raw) # object_items r' else [(key, raw)]
                       | [] \<Rightarrow> [(key, raw)])
                  | _ \<Rightarrow> [])
               else []
           | [] \<Rightarrow> [])
      | _ \<Rightarrow> [])"
  by pat_completeness auto
termination
proof (relation "measure length", rule wf_measure)
  fix s key rest c r raw rest' d r'
  assume 1: "read_value BeginValue [] (skip_json_space s) = ReadDone key rest"
    and 2: "skip_json_space rest = c # r"
    and 3: "read_value BeginValue [] (skip_json_space r) = ReadDone raw rest'"
    and 4: "skip_json_space rest' = d # r'"
  show "(r', s) \<in> measure length"
    using read_value_begin_shorter [OF 1] read_value_begin_shorter [OF 3]
      length_skip_json_space [of s] length_skip_json_space [of rest]
      length_skip_json_space [of r] length_skip_json_space [of rest'] 2 4 by simp
qed

declare object_items.simps [simp del]

text \<open>A string element or member: \<open>null\<close> leaves the zero value, other kinds are an error.\<close>

definition decode_string :: "bytes \<Rightarrow> go_error + string" where
  "decode_string raw =
     (if raw = ''null'' then Inr []
      else case json_unquote raw of Some s \<Rightarrow> Inr s | None \<Rightarrow> Inl json_type_error)"

fun decode_strings :: "bytes list \<Rightarrow> go_error + string list" where
  "decode_strings [] = Inr []"
| "decode_strings (raw # raws) =
     (case (decode_string raw, decode_strings raws) of
        (Inr x, Inr xs) \<Rightarrow> Inr (x # xs)
      | (Inl e, _) \<Rightarrow> Inl e
      | (_, Inl e) \<Rightarrow> Inl e)"

definition unmarshal_strings :: "bytes \<Rightarrow> go_error + string list" where
  "unmarshal_strings data =
     (if \<not> json_valid data then Inl json_syntax_error
      else case skip_json_space data of
          c # r \<Rightarrow>
            if c = CHR ''['' then decode_strings (array_items r)
            else if c = CHR ''n'' then Inr [] else Inl json_type_error
        | [] \<Rightarrow> Inl json_syntax_error)"

fun decode_members :: "string gomap \<Rightarrow> (bytes \<times> bytes) list \<Rightarrow> go_error + string gomap" where
  "decode_members m [] = Inr m"
| "decode_members m ((key, raw) # kvs) =
     (case (json_unquote key, decode_string raw) of
        (Some k, Inr v) \<Rightarrow> decode_members (AList.update k v m) kvs
      | _ \<Rightarrow> Inl json_type_error)"

definition unmarshal_string_map :: "bytes \<Rightarrow> go_error + string gomap" where
  "unmarshal_string_map data =
     (if \<not> json_valid data then Inl json_syntax_error
      else case skip_json_space data of
          c # r \<Rightarrow>
            if c = CHR ''{'' then decode_members [] (object_items r)
            else if c = CHR ''n'' then Inr [] else Inl json_type_error
        | [] \<Rightarrow> Inl json_syntax_error)"

end
