(* ===== verification/Json_Roundtrip.thy ===== *)
theory Json_Roundtrip
  imports Json
begin

section \<open>What is marshalled is valid and decodes to the same value\<close>

text \<open>
  Running the scanner over a piece of text that neither ends the value nor fails; the lemmas
  follow the scanner through the output of the encoder, whatever string is encoded. The round
  trips hold for strings that are valid UTF-8, since the encoder replaces other bytes.
\<close>

fun run_scan :: "scan_state \<Rightarrow> parse_ctx list \<Rightarrow> string \<Rightarrow> (scan_state \<times> parse_ctx list) option" where
  "run_scan st stk [] = Some (st, stk)"
| "run_scan st stk (c # s) =
     (case scan_step st stk c of
        Cont st' stk' \<Rightarrow> if st' = EndTop then None else run_scan st' stk' s
      | _ \<Rightarrow> None)"

definition read_prepend :: "bytes \<Rightarrow> read_result \<Rightarrow> read_result" where
  "read_prepend p r = (case r of ReadDone raw rest \<Rightarrow> ReadDone (p @ raw) rest | x \<Rightarrow> x)"

lemma read_prepend_simps [simp]:
  "read_prepend p (ReadDone raw rest) = ReadDone (p @ raw) rest"
  "read_prepend p (ReadMore b) = ReadMore b" "read_prepend p ReadError = ReadError"
  "read_prepend [] r = r" "read_prepend p (read_prepend q r) = read_prepend (p @ q) r"
  by (simp_all add: read_prepend_def split: read_result.splits)

lemma run_scan_append:
  "run_scan st stk (s @ t) =
     (case run_scan st stk s of None \<Rightarrow> None | Some (st', stk') \<Rightarrow> run_scan st' stk' t)"
  by (induction st stk s rule: run_scan.induct) (auto split: scan_result.splits)

lemma scan_all_run:
  "run_scan st stk s = Some (st', stk') \<Longrightarrow> scan_all st stk (s @ t) = scan_all st' stk' t"
  by (induction st stk s rule: run_scan.induct) (auto split: scan_result.splits if_splits)

lemma read_value_run:
  "run_scan st stk s = Some (st', stk') \<Longrightarrow>
     read_value st stk (s @ t) = read_prepend s (read_value st' stk' t)"
proof (induction st stk s rule: run_scan.induct)
  case (1 st stk)
  then show ?case by simp
next
  case (2 st stk c s)
  then show ?case
    by (auto simp: read_prepend_def split: scan_result.splits if_splits read_result.splits)
qed

subsection \<open>The scanner on quoted strings\<close>

lemma hex_val_digit: "d < 16 \<Longrightarrow> hex_val (hex_digit d) = Some d"
  by (cases "d < 10") (simp_all add: hex_val_def hex_digit_def Let_def)

lemma hex_val_zero [simp]: "hex_val (CHR ''0'') = Some 0"
  by (simp add: hex_val_def)

lemma byte_hex_digits: "byte_of c div 16 < 16" "byte_of c mod 16 < 16"
  using of_char_mod_256 [of c] by (simp_all add: less_mult_imp_div_less)

lemma run_scan_hex4:
  "hex_val a \<noteq> None \<Longrightarrow> hex_val b \<noteq> None \<Longrightarrow> hex_val c \<noteq> None \<Longrightarrow> hex_val d \<noteq> None \<Longrightarrow>
     run_scan InString stk (CHR 0x5C # CHR ''u'' # [a, b, c, d]) = Some (InString, stk)"
  by (simp add: numeral_3_eq_3)

lemma run_scan_simple_escape:
  "simple_escape e \<noteq> None \<Longrightarrow> run_scan InString stk [CHR 0x5C, e] = Some (InString, stk)"
  by (auto simp: simple_escape_def split: if_splits)

lemma run_scan_safe: "html_safe c \<Longrightarrow> run_scan InString stk [c] = Some (InString, stk)"
  by (auto simp: html_safe_def)

text \<open>The three shapes of the escape of an ASCII byte.\<close>

lemma escape_ascii_cases:
  obtains (safe) "html_safe c" "escape_ascii c = [c]"
  | (simple) e where "escape_ascii c = [CHR 0x5C, e]" "simple_escape e = Some c"
  | (hex) "escape_ascii c = CHR 0x5C # CHR ''u'' # [CHR ''0'', CHR ''0'', hex_digit (byte_of c div 16),
      hex_digit (byte_of c mod 16)]"
proof -
  consider "html_safe c" | "\<not> html_safe c" "c = CHR 0x5C \<or> c = CHR 0x22" | "c = CHR 0x08"
    | "c = CHR 0x0C" | "c = CHR 0x0A" | "c = CHR 0x0D" | "c = CHR 0x09"
    | "\<not> html_safe c" "c \<noteq> CHR 0x5C" "c \<noteq> CHR 0x22" "c \<noteq> CHR 0x08" "c \<noteq> CHR 0x0C"
      "c \<noteq> CHR 0x0A" "c \<noteq> CHR 0x0D" "c \<noteq> CHR 0x09"
    by blast
  then show thesis
  proof cases
    case 1
    then show thesis by (intro safe) (simp_all add: escape_ascii_def)
  next
    case 2
    then show thesis by (intro simple [of c]) (auto simp: escape_ascii_def simple_escape_def)
  next
    case 3
    then show thesis
      by (intro simple [of "CHR ''b''"]) (simp_all add: escape_ascii_def simple_escape_def html_safe_def)
  next
    case 4
    then show thesis
      by (intro simple [of "CHR ''f''"]) (simp_all add: escape_ascii_def simple_escape_def html_safe_def)
  next
    case 5
    then show thesis
      by (intro simple [of "CHR ''n''"]) (simp_all add: escape_ascii_def simple_escape_def html_safe_def)
  next
    case 6
    then show thesis
      by (intro simple [of "CHR ''r''"]) (simp_all add: escape_ascii_def simple_escape_def html_safe_def)
  next
    case 7
    then show thesis
      by (intro simple [of "CHR ''t''"]) (simp_all add: escape_ascii_def simple_escape_def html_safe_def)
  next
    case 8
    then show thesis by (intro hex) (simp add: escape_ascii_def)
  qed
qed

lemma run_scan_escape_ascii: "run_scan InString stk (escape_ascii c) = Some (InString, stk)"
proof (cases c rule: escape_ascii_cases)
  case safe
  then show ?thesis by (simp only: run_scan_safe)
next
  case (simple e)
  then show ?thesis using run_scan_simple_escape [of e] by simp
next
  case hex
  then show ?thesis
    by (simp only: hex) (rule run_scan_hex4, simp_all add: hex_val_digit byte_hex_digits)
qed

lemma run_scan_high:
  "list_all (\<lambda>c. 128 \<le> byte_of c) s \<Longrightarrow> run_scan InString stk s = Some (InString, stk)"
  by (induction s) auto

lemma rune_bytes_high:
  assumes "rune_len (c # s) = n" and "128 \<le> byte_of c"
  shows "list_all (\<lambda>c. 128 \<le> byte_of c) (take n (c # s))"
proof (cases n)
  case 0
  then show ?thesis by simp
next
  case (Suc m)
  with assms(1) have ok: "conts_ok c (take m s)" by (auto simp: Let_def split: if_splits)
  have "list_all (\<lambda>c. 128 \<le> byte_of c) (take m s)"
  proof (cases "take m s")
    case Nil
    then show ?thesis by (simp only: list.pred_inject)
  next
    case (Cons b cs)
    with ok have "cont_byte (second_lo c) (second_hi c) b" "list_all (cont_byte 128 191) cs"
      by simp_all
    then show ?thesis
      by (auto simp: Cons cont_byte_def second_lo_def list_all_iff split: if_splits)
  qed
  with Suc assms(2) show ?thesis by simp
qed

lemma rune_len_first: "rune_len (c # s) \<noteq> 0 \<Longrightarrow> \<exists>m. rune_len (c # s) = Suc m"
  by (cases "rune_len (c # s)") auto

lemma run_scan_escape: "run_scan InString stk (json_escape s) = Some (InString, stk)"
proof (induction s rule: json_escape.induct)
  case 1
  then show ?case by simp
next
  case (2 c s)
  let ?n = "rune_len (c # s)"
  consider "byte_of c < 128" | "128 \<le> byte_of c" "?n = 0"
    | "128 \<le> byte_of c" "?n \<noteq> 0" by linarith
  then show ?case
  proof cases
    case 1
    then show ?thesis using "2.IH"(1) by (simp add: run_scan_append run_scan_escape_ascii)
  next
    case 2
    have "run_scan InString stk (CHR 0x5C # CHR ''u'' # ''fffd'') = Some (InString, stk)"
      by (rule run_scan_hex4) (simp_all add: hex_val_def)
    then have "run_scan InString stk ((CHR 0x5C # ''ufffd'') @ json_escape s)
        = run_scan InString stk (json_escape s)"
      by (subst run_scan_append) (simp del: run_scan.simps append_Cons)
    moreover have "json_escape (c # s) = (CHR 0x5C # ''ufffd'') @ json_escape s"
      using 2 by (simp del: rune_len.simps)
    ultimately show ?thesis using "2.IH"(2) 2 by (simp del: run_scan.simps rune_len.simps)
  next
    case 3
    let ?r = "take ?n (c # s)"
    let ?p = "if line_separator ?r then CHR 0x5C # ''u202'' @ [hex_digit (byte_of (last ?r) mod 16)] else ?r"
    have "run_scan InString stk (CHR 0x5C # CHR ''u'' # [CHR ''2'', CHR ''0'', CHR ''2'',
        hex_digit (byte_of (last ?r) mod 16)]) = Some (InString, stk)"
      by (rule run_scan_hex4) (simp_all add: hex_val_digit, simp_all add: hex_val_def)
    then have "run_scan InString stk ?p = Some (InString, stk)"
      using run_scan_high [OF rune_bytes_high [OF refl 3(1)]] by (simp del: run_scan.simps rune_len.simps)
    moreover have "json_escape (c # s) = ?p @ json_escape (drop (?n - 1) s)"
      using 3 by (simp add: Let_def del: rune_len.simps)
    ultimately show ?thesis
      using "2.IH"(3) [OF _ refl refl] 3 by (simp add: run_scan_append del: rune_len.simps)
  qed
qed

lemma run_scan_quote:
  "st = BeginValue \<or> st = BeginValueOrEmpty \<or> st = BeginString \<or> st = BeginStringOrEmpty \<Longrightarrow>
     run_scan st stk (json_quote s) = Some (EndValue, stk)"
  by (auto simp: json_quote_def run_scan_append run_scan_escape begin_value_def begin_string_def
      json_space_def)

subsection \<open>Marshalled values are valid JSON\<close>

lemma strings_join_Cons: "xs \<noteq> [] \<Longrightarrow> strings_join (x # xs) sep = x @ sep @ strings_join xs sep"
  by (cases xs) auto

lemma scan_array_tail:
  "st = BeginValue \<or> st = BeginValueOrEmpty \<Longrightarrow> xs \<noteq> [] \<Longrightarrow>
     run_scan st (ArrayValue # stk) (strings_join (map json_quote xs) '','') =
       Some (EndValue, ArrayValue # stk)"
proof (induction xs arbitrary: st)
  case Nil
  then show ?case by simp
next
  case (Cons x xs)
  show ?case
  proof (cases xs)
    case Nil
    with Cons.prems show ?thesis by (auto simp: run_scan_quote)
  next
    case (Cons y ys)
    then have "run_scan st (ArrayValue # stk) (strings_join (map json_quote (x # xs)) '','')
        = run_scan EndValue (ArrayValue # stk) (CHR '','' # strings_join (map json_quote xs) '','')"
      using Cons.prems by (auto simp: run_scan_append run_scan_quote)
    also have "\<dots> = run_scan BeginValue (ArrayValue # stk) (strings_join (map json_quote xs) '','')"
      by (simp add: json_space_def)
    also have "\<dots> = Some (EndValue, ArrayValue # stk)"
      using Cons by (intro Cons.IH) simp_all
    finally show ?thesis .
  qed
qed

lemma json_valid_marshal_strings: "json_valid (marshal_strings xs)"
proof (cases "xs = []")
  case True
  then show ?thesis
    by (simp add: json_valid_def marshal_strings_def begin_value_def push_ctx_def json_space_def
        max_nesting_depth_def eof_complete_def)
next
  case False
  have opened: "run_scan BeginValue [] ''['' = Some (BeginValueOrEmpty, [ArrayValue])"
    by (simp add: begin_value_def push_ctx_def json_space_def max_nesting_depth_def)
  have "scan_all EndValue [ArrayValue] '']''"
    by (simp add: json_space_def eof_complete_def)
  then show ?thesis
    using scan_array_tail [of BeginValueOrEmpty xs "[]"] False
    by (simp only: json_valid_def marshal_strings_def scan_all_run [OF opened] simp_thms
        scan_all_run [of BeginValueOrEmpty "[ArrayValue]" _ EndValue "[ArrayValue]"] HOL.True_implies_equals)
qed

subsection \<open>Decoding what was encoded\<close>

lemma char_of_byte [simp]: "char_of (byte_of c) = c"
  by simp

lemma append_single: "(@) [c] = (#) c"
  by (simp add: fun_eq_iff)

lemma unescape_ascii:
  assumes "byte_of c < 128"
  shows "json_unescape (escape_ascii c @ r) = map_option (\<lambda>u. c # u) (json_unescape r)"
proof (cases c rule: escape_ascii_cases)
  case safe
  with assms show ?thesis by (auto simp: html_safe_def)
next
  case (simple e)
  then have "e \<noteq> CHR ''u''" by (auto simp: simple_escape_def)
  with simple show ?thesis by simp
next
  case hex
  let ?h = "hex_digit (byte_of c div 16)" and ?l = "hex_digit (byte_of c mod 16)"
  have "getu4 (CHR 0x5C # CHR ''u'' # [CHR ''0'', CHR ''0'', ?h, ?l] @ r) = Some (byte_of c)"
    by (simp add: getu4_def hex_val_digit byte_hex_digits)
  with hex assms show ?thesis
    by (simp add: encode_rune_def append_single)
qed

lemma unescape_line_separator:
  assumes "line_separator p"
  shows "json_unescape (CHR 0x5C # ''u202'' @ hex_digit (byte_of (last p) mod 16) # r)
    = map_option (\<lambda>u. p @ u) (json_unescape r)"
proof -
  let ?d = "byte_of (last p) mod 16"
  have hex: "hex_val (CHR ''2'') = Some 2" by (simp add: hex_val_def)
  have "getu4 (CHR 0x5C # CHR ''u'' # [CHR ''2'', CHR ''0'', CHR ''2'', hex_digit ?d] @ r)
      = Some (8224 + ?d)"
    by (simp add: getu4_def hex_val_digit byte_hex_digits hex)
  moreover have "?d = 8 \<or> ?d = 9" using assms by (auto simp: line_separator_def)
  moreover from this have "encode_rune (8224 + ?d) = p"
    using assms by (auto simp: encode_rune_def line_separator_def char_of_eq_iff take_bit_eq_mod)
  ultimately show ?thesis by auto
qed

lemma unescape_rune:
  assumes "rune_len (c # s) = Suc m" and "128 \<le> byte_of c"
  shows "json_unescape (c # take m s @ r) = map_option (\<lambda>u. (c # take m s) @ u) (json_unescape r)"
proof -
  have "rune_len (c # take m s @ r) = Suc m" and "m \<le> length s"
    by (rule rune_len_Cons_take [OF assms(1)])+
  then have "c \<noteq> CHR 0x5C" "c \<noteq> CHR 0x22" "\<not> byte_of c < 32" "\<not> byte_of c < 128"
    "take (Suc m) (c # take m s @ r) = c # take m s" "drop m (take m s @ r) = r"
    using assms(2) by auto
  with \<open>rune_len (c # take m s @ r) = Suc m\<close> show ?thesis
    by (simp only: json_unescape.simps Let_def if_False diff_Suc_1 nat.distinct simp_thms)
qed

lemma fix_utf8_valid: "valid_utf8 s \<Longrightarrow> fix_utf8 s = s"
proof (induction s rule: valid_utf8.induct)
  case 1
  then show ?case by simp
next
  case (2 c s)
  obtain m where m: "rune_len (c # s) = Suc m"
    using "2.prems" rune_len_first [of c s] by (auto simp del: rune_len.simps)
  with "2" have "fix_utf8 (drop m s) = drop m s" by (simp del: rune_len.simps)
  with m show ?case by (simp del: rune_len.simps)
qed

lemma unescape_replacement:
  "json_unescape ((CHR 0x5C # ''ufffd'') @ r) = map_option (\<lambda>u. replacement_rune @ u) (json_unescape r)"
proof -
  have "hex_val (CHR ''f'') = Some 15" "hex_val (CHR ''d'') = Some 13" by (simp_all add: hex_val_def)
  then have "getu4 (CHR 0x5C # CHR ''u'' # ''fffd'' @ r) = Some 65533"
    by (simp add: getu4_def)
  moreover have "encode_rune 65533 = replacement_rune"
    by (simp add: encode_rune_def replacement_rune_def char_of_eq_iff take_bit_eq_mod)
  ultimately show ?thesis by simp
qed

lemma unescape_escape: "json_unescape (json_escape s) = Some (fix_utf8 s)"
proof (induction s rule: json_escape.induct)
  case 1
  then show ?case by simp
next
  case (2 c s)
  consider (ascii) "byte_of c < 128" | (bad) "128 \<le> byte_of c" "rune_len (c # s) = 0"
    | (rune) m where "128 \<le> byte_of c" "rune_len (c # s) = Suc m"
    using rune_len_first [of c s] by fastforce
  then show ?case
  proof cases
    case ascii
    then have "rune_len (c # s) = 1" by (simp add: rune_need_def)
    with ascii "2.IH"(1) show ?thesis by (simp add: unescape_ascii Let_def)
  next
    case bad
    then have "json_escape (c # s) = (CHR 0x5C # ''ufffd'') @ json_escape s"
      "fix_utf8 (c # s) = replacement_rune @ fix_utf8 s"
      by (simp_all del: rune_len.simps)
    moreover have "json_unescape (json_escape s) = Some (fix_utf8 s)"
      using bad by (intro "2.IH"(2)) (simp_all del: rune_len.simps)
    ultimately show ?thesis by (simp only: unescape_replacement option.map)
  next
    case rune
    then have IH: "json_unescape (json_escape (drop m s)) = Some (fix_utf8 (drop m s))"
      using "2.IH"(3) [OF _ refl refl] by (simp del: rune_len.simps)
    let ?r = "c # take m s"
    have esc: "json_escape (c # s) =
        (if line_separator ?r then CHR 0x5C # ''u202'' @ [hex_digit (byte_of (last ?r) mod 16)]
         else ?r) @ json_escape (drop m s)"
      using rune by (simp add: Let_def del: rune_len.simps)
    have "json_unescape (json_escape (c # s)) = Some (?r @ fix_utf8 (drop m s))"
    proof (cases "line_separator ?r")
      case True
      then show ?thesis
        using unescape_line_separator [OF True, of "json_escape (drop m s)"] IH
        by (simp add: esc del: json_unescape.simps json_escape.simps)
    next
      case sep: False
      then show ?thesis
        using unescape_rune [OF rune(2,1), of "json_escape (drop m s)"] IH
        by (simp add: esc del: json_unescape.simps json_escape.simps)
    qed
    with rune show ?thesis by (simp add: Let_def del: rune_len.simps json_unescape.simps json_escape.simps)
  qed
qed

lemma unquote_quote: "json_unquote (json_quote s) = Some (fix_utf8 s)"
  by (simp add: json_unquote_def json_quote_def unescape_escape)

lemma decode_quote: "decode_string (json_quote s) = Inr (fix_utf8 s)"
proof -
  have "json_quote s \<noteq> ''null''" by (simp add: json_quote_def)
  then show ?thesis by (simp add: decode_string_def unquote_quote)
qed

lemma skip_quote [simp]: "skip_json_space (json_quote s @ t) = json_quote s @ t"
  by (simp add: json_quote_def json_space_def)

lemma read_quote:
  "c \<in> set [CHR '','', CHR '':'', CHR '']'', CHR ''}''] \<Longrightarrow>
     read_value BeginValue [] (json_quote s @ c # t) = ReadDone (json_quote s) (c # t)"
  using read_value_run [OF run_scan_quote [of BeginValue "[]" s], of "c # t"] by simp

lemma array_items_join:
  "xs \<noteq> [] \<Longrightarrow> array_items (strings_join (map json_quote xs) '','' @ '']'') = map json_quote xs"
proof (induction xs)
  case Nil
  then show ?case by simp
next
  case (Cons x xs)
  show ?case
  proof (cases "xs = []")
    case True
    then show ?thesis
      by (subst array_items.simps) (simp add: read_quote json_space_def)
  next
    case False
    with Cons.IH show ?thesis
      by (subst array_items.simps) (simp add: strings_join_Cons read_quote json_space_def)
  qed
qed

lemma decode_strings_quotes: "decode_strings (map json_quote xs) = Inr (map fix_utf8 xs)"
  by (induction xs) (simp_all add: decode_quote)

lemma unmarshal_marshal_strings: "unmarshal_strings (marshal_strings xs) = Inr (map fix_utf8 xs)"
proof (cases "xs = []")
  case True
  have "array_items '']'' = []"
    by (subst array_items.simps) (simp add: json_space_def begin_value_def)
  with True show ?thesis
    using json_valid_marshal_strings [of "[]"]
    by (simp add: unmarshal_strings_def marshal_strings_def json_space_def)
next
  case False
  then show ?thesis
    using json_valid_marshal_strings [of xs]
    by (simp add: unmarshal_strings_def marshal_strings_def json_space_def array_items_join
        decode_strings_quotes)
qed

subsection \<open>String maps\<close>

text \<open>The members in the order they are printed.\<close>

definition sorted_members :: "string gomap \<Rightarrow> (string \<times> string) list" where
  "sorted_members m = map (\<lambda>k. (k, case map_of m k of Some v \<Rightarrow> v | None \<Rightarrow> [])) (sort (map fst m))"

abbreviation print_members :: "(string \<times> string) list \<Rightarrow> string" where
  "print_members kvs \<equiv> strings_join (map (\<lambda>(k, v). marshal_member k v) kvs) '',''"

lemma marshal_string_map_members:
  "marshal_string_map m = ''{'' @ print_members (sorted_members m) @ ''}''"
  by (simp add: marshal_string_map_def sorted_members_def comp_def)

lemma run_scan_member:
  assumes "st = BeginString \<or> st = BeginStringOrEmpty"
  shows "run_scan st (ObjectKey # stk) (marshal_member k v) = Some (EndValue, ObjectValue # stk)"
proof -
  have "run_scan st (ObjectKey # stk) (json_quote k) = Some (EndValue, ObjectKey # stk)"
    and "run_scan BeginValue (ObjectValue # stk) (json_quote v) = Some (EndValue, ObjectValue # stk)"
    using assms by (auto simp: run_scan_quote)
  then show ?thesis by (simp add: marshal_member_def run_scan_append json_space_def)
qed

lemma scan_object_tail:
  "st = BeginString \<or> st = BeginStringOrEmpty \<Longrightarrow> kvs \<noteq> [] \<Longrightarrow>
     run_scan st (ObjectKey # stk) (print_members kvs) = Some (EndValue, ObjectValue # stk)"
proof (induction kvs arbitrary: st)
  case Nil
  then show ?case by simp
next
  case (Cons kv kvs)
  obtain k v where kv: "kv = (k, v)" by fastforce
  show ?case
  proof (cases "kvs = []")
    case True
    with Cons.prems kv show ?thesis by (simp add: run_scan_member)
  next
    case False
    then have "run_scan st (ObjectKey # stk) (print_members (kv # kvs))
        = run_scan EndValue (ObjectValue # stk) (CHR '','' # print_members kvs)"
      using Cons.prems kv by (simp add: strings_join_Cons run_scan_append run_scan_member)
    also have "\<dots> = run_scan BeginString (ObjectKey # stk) (print_members kvs)"
      by (simp add: json_space_def)
    also have "\<dots> = Some (EndValue, ObjectValue # stk)"
      using False by (intro Cons.IH) simp_all
    finally show ?thesis .
  qed
qed

lemma json_valid_marshal_string_map: "json_valid (marshal_string_map m)"
proof (cases "sorted_members m = []")
  case True
  then show ?thesis
    by (simp add: json_valid_def marshal_string_map_members begin_value_def push_ctx_def
        json_space_def max_nesting_depth_def eof_complete_def)
next
  case False
  have opened: "run_scan BeginValue [] ''{'' = Some (BeginStringOrEmpty, [ObjectKey])"
    by (simp add: begin_value_def push_ctx_def json_space_def max_nesting_depth_def)
  have "scan_all EndValue [ObjectValue] ''}''"
    by (simp add: json_space_def eof_complete_def)
  then show ?thesis
    using scan_object_tail [of BeginStringOrEmpty "sorted_members m" "[]"] False
    by (simp only: json_valid_def marshal_string_map_members scan_all_run [OF opened] simp_thms
        scan_all_run [of BeginStringOrEmpty "[ObjectKey]" _ EndValue "[ObjectValue]"]
        HOL.True_implies_equals)
qed

lemma skip_member [simp]: "skip_json_space (marshal_member k v @ t) = marshal_member k v @ t"
  by (simp add: marshal_member_def)

lemma object_items_step:
  assumes "c = CHR '','' \<or> c = CHR ''}''"
  shows "object_items (marshal_member k v @ c # t) =
    (if c = CHR '','' then (json_quote k, json_quote v) # object_items t
     else [(json_quote k, json_quote v)])"
  using assms
  by (subst object_items.simps) (auto simp: marshal_member_def read_quote json_space_def)

lemma object_items_join:
  "kvs \<noteq> [] \<Longrightarrow> object_items (print_members kvs @ ''}'') =
     map (\<lambda>(k, v). (json_quote k, json_quote v)) kvs"
proof (induction kvs)
  case Nil
  then show ?case by simp
next
  case (Cons kv kvs)
  obtain k v where kv: "kv = (k, v)" by fastforce
  show ?case
  proof (cases "kvs = []")
    case True
    with kv show ?thesis by (simp add: object_items_step)
  next
    case False
    with Cons.IH kv show ?thesis by (simp add: strings_join_Cons object_items_step)
  qed
qed

lemma decode_members_quotes:
  "decode_members m (map (\<lambda>(k, v). (json_quote k, json_quote v)) kvs) =
     Inr (gomap_copy m (map (\<lambda>(k, v). (fix_utf8 k, fix_utf8 v)) kvs))"
  by (induction kvs arbitrary: m) (auto simp: unquote_quote decode_quote)

lemma sorted_members_wf: "gomap_wf m \<Longrightarrow> gomap_wf (sorted_members m)"
  by (simp add: gomap_wf_def sorted_members_def comp_def)

lemma map_of_sorted_members: "map_of (sorted_members m) = map_of m"
proof
  fix k
  have aux: "map_of (map (\<lambda>k. (k, f k)) ks) k = (if k \<in> set ks then Some (f k) else None)"
    for f :: "string \<Rightarrow> string" and ks
    by (induction ks) auto
  show "map_of (sorted_members m) k = map_of m k"
  proof (cases "map_of m k")
    case None
    then have "k \<notin> set (map fst m)" by (simp add: map_of_eq_None_iff)
    with None show ?thesis by (simp add: sorted_members_def aux)
  next
    case (Some v)
    then have "k \<in> set (map fst m)" by (metis map_of_eq_None_iff option.distinct(1) list.set_map)
    with Some show ?thesis by (simp add: sorted_members_def aux)
  qed
qed

lemma unmarshal_marshal_string_map:
  "unmarshal_string_map (marshal_string_map m) =
     Inr (gomap_copy [] (map (\<lambda>(k, v). (fix_utf8 k, fix_utf8 v)) (sorted_members m)))"
proof (cases "sorted_members m = []")
  case True
  have "object_items ''}'' = []"
    by (subst object_items.simps) (simp add: json_space_def begin_value_def)
  with True show ?thesis
    using json_valid_marshal_string_map [of m]
    by (simp add: unmarshal_string_map_def marshal_string_map_members json_space_def)
next
  case False
  then show ?thesis
    using json_valid_marshal_string_map [of m] decode_members_quotes [of "[]" "sorted_members m"]
    by (simp add: unmarshal_string_map_def marshal_string_map_members json_space_def
        object_items_join)
qed

text \<open>With valid UTF-8 throughout, the round trips are exact.\<close>

lemma roundtrip_strings_utf8:
  "\<forall>x \<in> set xs. valid_utf8 x \<Longrightarrow> unmarshal_strings (marshal_strings xs) = Inr xs"
  by (simp add: unmarshal_marshal_strings fix_utf8_valid map_idI)

lemma roundtrip_string_map_utf8:
  assumes "gomap_wf m" and "\<forall>(k, v) \<in> set m. valid_utf8 k \<and> valid_utf8 v"
  shows "unmarshal_string_map (marshal_string_map m) = Inr (sorted_members m)"
proof -
  have wf: "gomap_wf (sorted_members m)" by (rule sorted_members_wf [OF assms(1)])
  have "(\<lambda>(k, v). (fix_utf8 k, fix_utf8 v)) kv = kv" if "kv \<in> set (sorted_members m)" for kv
  proof -
    obtain k v where kv: "kv = (k, v)" by fastforce
    then have "map_of m k = Some v"
      using wf that map_of_sorted_members [of m] by (metis gomap_wf_def map_of_eq_Some_iff)
    then have "(k, v) \<in> set m" by (rule map_of_SomeD)
    with assms(2) kv show ?thesis by (auto simp: fix_utf8_valid)
  qed
  then have "map (\<lambda>(k, v). (fix_utf8 k, fix_utf8 v)) (sorted_members m) = sorted_members m"
    by (rule map_idI)
  then show ?thesis
    by (simp only: unmarshal_marshal_string_map gomap_copy_empty [OF wf])
qed

end
