(* ===== verification/Repository.thy ===== *)
theory Repository
  imports Sql_Tables Json_Roundtrip
begin

section \<open>The run store\<close>

text \<open>
  \<open>internal/storage/types.go\<close> and \<open>repository.go\<close>: the runs as the program sees them and the
  operations of \<open>Store\<close>. A store is the committed tables together with the outcomes of the
  driver calls that follow, in order: None for a call the driver carries out and \<open>Some d\<close> for
  one it reports the error \<open>d\<close> for, without effect; the empty list means that no further call
  fails. Every begin, statement, commit and query of an operation consumes one outcome, so a
  cancelled context, a busy database and a full disk are all covered.
\<close>

subsection \<open>Types\<close>

definition run_status_running :: string where "run_status_running = ''running''"
definition run_status_succeeded :: string where "run_status_succeeded = ''succeeded''"
definition run_status_failed :: string where "run_status_failed = ''failed''"
definition run_status_timed_out :: string where "run_status_timed_out = ''timed_out''"
definition run_status_cancelled :: string where "run_status_cancelled = ''cancelled''"

lemmas run_status_defs = run_status_running_def run_status_succeeded_def run_status_failed_def
  run_status_timed_out_def run_status_cancelled_def

record action_snapshot =
  sn_description :: string
  sn_mode :: string
  sn_command :: "string list"
  sn_shell_command :: string
  sn_cwd :: string
  sn_timeout :: duration
  sn_env :: "string gomap"
  sn_concurrency_policy :: string
  sn_max_output_bytes :: int
  sn_enabled :: bool

record run =
  rn_id :: string
  rn_action_name :: string
  rn_status :: string
  rn_exit_code :: "int option"
  rn_created_at :: time
  rn_started_at :: "time option"
  rn_finished_at :: "time option"
  rn_timed_out :: bool
  rn_request_metadata :: bytes
  rn_stdout_tail :: string
  rn_stderr_tail :: string
  rn_error_summary :: string
  rn_snapshot :: action_snapshot

record create_run_params =
  cp_id :: string
  cp_action_name :: string
  cp_status :: string
  cp_created_at :: time
  cp_started_at :: "time option"
  cp_request_metadata :: bytes
  cp_stdout_tail :: string
  cp_stderr_tail :: string
  cp_error_summary :: string
  cp_snapshot :: action_snapshot

record update_run_params =
  up_id :: string
  up_status :: string
  up_exit_code :: "int option"
  up_started_at :: "time option"
  up_finished_at :: "time option"
  up_timed_out :: bool
  up_stdout_tail :: string
  up_stderr_tail :: string
  up_error_summary :: string

record run_filter =
  ff_action_name :: string
  ff_status :: string

record retention_policy =
  rp_max_age :: duration
  rp_max_runs :: int

record retention_result =
  rs_deleted_runs :: nat
  rs_pruned_at :: time

subsection \<open>Conversions\<close>

definition validate_run_status :: "string \<Rightarrow> go_error option" where
  "validate_run_status status =
     (if trim_space status \<in> {run_status_running, run_status_succeeded, run_status_failed,
           run_status_timed_out, run_status_cancelled}
      then None
      else Some (wrap_error [] (sentinel_error ErrInvalidRunState)
        [Txt '': unsupported run status '', Quoted status]))"

definition validate_action_snapshot :: "action_snapshot \<Rightarrow> go_error option" where
  "validate_action_snapshot sn =
     (if trim_space (sn_mode sn) = [] then
        Some (wrap_error [] (sentinel_error ErrInvalidRunState)
          [Txt '': action snapshot mode is required''])
      else if trim_space (sn_concurrency_policy sn) = [] then
        Some (wrap_error [] (sentinel_error ErrInvalidRunState)
          [Txt '': action snapshot concurrency policy is required''])
      else if sn_max_output_bytes sn < 0 then
        Some (wrap_error [] (sentinel_error ErrInvalidRunState)
          [Txt '': action snapshot max output bytes must be greater than or equal to 0''])
      else None)"

text \<open>
  The clones of this package turn nil into an empty slice or map, so that the JSON they are
  printed to is \<open>[]\<close> or \<open>{}\<close>. Marshalling either type cannot fail.
\<close>

definition storage_clone_strings :: "string list \<Rightarrow> string list" where
  "storage_clone_strings values = (if values = [] then [] else values)"

definition storage_clone_string_map :: "string gomap \<Rightarrow> string gomap" where
  "storage_clone_string_map values = (if values = [] then [] else gomap_copy [] values)"

definition clone_bytes :: "bytes \<Rightarrow> bytes" where
  "clone_bytes b = (if b = [] then [] else b)"

definition marshal_action_snapshot :: "action_snapshot \<Rightarrow> bytes \<times> bytes" where
  "marshal_action_snapshot sn =
     (marshal_strings (storage_clone_strings (sn_command sn)),
      marshal_string_map (storage_clone_string_map (sn_env sn)))"

definition normalize_raw_json :: "bytes \<Rightarrow> go_error + bytes" where
  "normalize_raw_json data =
     (if data = [] then Inr []
      else if \<not> json_valid data then Inl (errors_new ''must be valid JSON'')
      else Inr (clone_bytes data))"

definition normalize_time :: "time \<Rightarrow> go_error + time" where
  "normalize_time t =
     (if t = zero_time then Inl (errors_new ''timestamp must not be zero'') else Inr t)"

definition nullable_unix_nano :: "time option \<Rightarrow> go_error + int option" where
  "nullable_unix_nano v =
     (case v of
        None \<Rightarrow> Inr None
      | Some t \<Rightarrow> (case normalize_time t of Inl e \<Rightarrow> Inl e | Inr n \<Rightarrow> Inr (Some (unix_nano n))))"

definition bool_to_int64 :: "bool \<Rightarrow> int" where
  "bool_to_int64 b = (if b then 1 else 0)"

definition run_from_record :: "run_record \<Rightarrow> go_error + run" where
  "run_from_record rec =
     (let r = fst rec; s = snd rec in
      case unmarshal_strings (sr_command_json s) of
        Inl e \<Rightarrow> Inl (wrap_error [Txt ''decode action snapshot command: ''] e [])
      | Inr command \<Rightarrow>
          (case unmarshal_string_map (sr_env_json s) of
             Inl e \<Rightarrow> Inl (wrap_error [Txt ''decode action snapshot env: ''] e [])
           | Inr env \<Rightarrow> Inr
               \<lparr>rn_id = rr_id r,
                rn_action_name = rr_action_name r,
                rn_status = rr_status r,
                rn_exit_code = rr_exit_code r,
                rn_created_at = time_unix_nano (rr_created_at r),
                rn_started_at = map_option time_unix_nano (rr_started_at r),
                rn_finished_at = map_option time_unix_nano (rr_finished_at r),
                rn_timed_out = (rr_timed_out r \<noteq> 0),
                rn_request_metadata = clone_bytes (rr_request_metadata r),
                rn_stdout_tail = rr_stdout_tail r,
                rn_stderr_tail = rr_stderr_tail r,
                rn_error_summary = rr_error_summary r,
                rn_snapshot =
                  \<lparr>sn_description = sr_description s,
                   sn_mode = sr_mode s,
                   sn_command = command,
                   sn_shell_command = sr_shell_command s,
                   sn_cwd = sr_cwd s,
                   sn_timeout = sr_timeout_ns s,
                   sn_env = env,
                   sn_concurrency_policy = sr_concurrency_policy s,
                   sn_max_output_bytes = sr_max_output_bytes s,
                   sn_enabled = (sr_enabled s \<noteq> 0)\<rparr>\<rparr>))"

fun runs_from_records :: "run_record list \<Rightarrow> go_error + run list" where
  "runs_from_records [] = Inr []"
| "runs_from_records (rec # recs) =
     (case run_from_record rec of
        Inl e \<Rightarrow> Inl e
      | Inr run \<Rightarrow>
          (case runs_from_records recs of Inl e \<Rightarrow> Inl e | Inr runs \<Rightarrow> Inr (run # runs)))"

subsection \<open>Driver calls\<close>

record store =
  st_tables :: tables
  st_faults :: "string option list"

definition driver_error :: "string \<Rightarrow> go_error" where
  "driver_error d = errors_new d"

definition driver_call :: "store \<Rightarrow> string option \<times> store" where
  "driver_call s =
     (case st_faults s of [] \<Rightarrow> (None, s) | f # fs \<Rightarrow> (f, s\<lparr>st_faults := fs\<rparr>))"

text \<open>One statement on the tables \<open>t\<close>: the driver's error, or the statement's own result.\<close>

definition driver_exec :: "(tables \<Rightarrow> string + 'a) \<Rightarrow> tables \<Rightarrow> store \<Rightarrow> (string + 'a) \<times> store" where
  "driver_exec f t s =
     (case driver_call s of (Some d, s') \<Rightarrow> (Inl d, s') | (None, s') \<Rightarrow> (f t, s'))"

subsection \<open>GetRun and ListRuns\<close>

definition get_run_error :: "string \<Rightarrow> go_error \<Rightarrow> go_error" where
  "get_run_error i e = wrap_error [Txt ''get run '', Quoted i, Txt '': ''] e []"

definition store_get_run :: "string \<Rightarrow> store \<Rightarrow> (go_error + run) \<times> store" where
  "store_get_run i s =
     (if trim_space i = [] then
        (Inl (wrap_error [Txt ''get run: ''] (sentinel_error ErrInvalidRunState)
           [Txt '': run id is required'']), s)
      else case driver_exec (\<lambda>t. Inr (q_get_run i t)) (st_tables s) s of
          (Inl d, s') \<Rightarrow> (Inl (get_run_error i (driver_error d)), s')
        | (Inr None, s') \<Rightarrow> (Inl (get_run_error i (sentinel_error ErrRunNotFound)), s')
        | (Inr (Some rec), s') \<Rightarrow>
            (case run_from_record rec of
               Inl e \<Rightarrow> (Inl (get_run_error i e), s')
             | Inr run \<Rightarrow> (Inr run, s')))"

definition list_query :: "string \<Rightarrow> string \<Rightarrow> tables \<Rightarrow> run_record list" where
  "list_query name status =
     (if name \<noteq> [] \<and> status \<noteq> [] then q_list_runs_by_action_name_and_status name status
      else if name \<noteq> [] then q_list_runs_by_action_name name
      else if status \<noteq> [] then q_list_runs_by_status status
      else q_list_runs)"

definition list_runs_error :: "go_error \<Rightarrow> go_error" where
  "list_runs_error e = wrap_error [Txt ''list runs: ''] e []"

definition store_list_runs :: "run_filter \<Rightarrow> store \<Rightarrow> (go_error + run list) \<times> store" where
  "store_list_runs f s =
     (let name = trim_space (ff_action_name f);
          status = trim_space (ff_status f)
      in case (if status \<noteq> [] then validate_run_status status else None) of
           Some e \<Rightarrow> (Inl (list_runs_error e), s)
         | None \<Rightarrow>
             (case driver_exec (\<lambda>t. Inr (list_query name status t)) (st_tables s) s of
                (Inl d, s') \<Rightarrow> (Inl (list_runs_error (driver_error d)), s')
              | (Inr recs, s') \<Rightarrow>
                  (case runs_from_records recs of
                     Inl e \<Rightarrow> (Inl (list_runs_error e), s')
                   | Inr runs \<Rightarrow> (Inr runs, s'))))"

subsection \<open>CreateRun\<close>

definition create_run_error :: "string \<Rightarrow> message \<Rightarrow> go_error \<Rightarrow> go_error" where
  "create_run_error i what e =
     wrap_error ([Txt ''create run '', Quoted i, Txt '': ''] @ what) e []"

text \<open>
  The checks and conversions of \<open>CreateRun\<close>: the parameters of its two insertions, or the error
  it returns before it opens a transaction. \<open>now\<close> is what the clock shows.
\<close>

definition create_run_rows ::
    "time \<Rightarrow> create_run_params \<Rightarrow> go_error + q_create_run_params \<times> snapshot_row" where
  "create_run_rows now p =
     (if trim_space (cp_id p) = [] then
        Inl (wrap_error [Txt ''create run: ''] (sentinel_error ErrInvalidRunState)
          [Txt '': run id is required''])
      else if trim_space (cp_action_name p) = [] then
        Inl (wrap_error [Txt ''create run '', Quoted (cp_id p), Txt '': '']
          (sentinel_error ErrInvalidRunState) [Txt '': action name is required''])
      else case validate_run_status (cp_status p) of
        Some e \<Rightarrow> Inl (create_run_error (cp_id p) [] e)
      | None \<Rightarrow>
      (case validate_action_snapshot (cp_snapshot p) of
        Some e \<Rightarrow> Inl (create_run_error (cp_id p) [] e)
      | None \<Rightarrow>
      (case normalize_time (if cp_created_at p = zero_time then now else cp_created_at p) of
        Inl e \<Rightarrow> Inl (create_run_error (cp_id p) [] e)
      | Inr created_at \<Rightarrow>
      (case nullable_unix_nano (cp_started_at p) of
        Inl e \<Rightarrow> Inl (create_run_error (cp_id p) [] e)
      | Inr started_at \<Rightarrow>
      (case normalize_raw_json (cp_request_metadata p) of
        Inl e \<Rightarrow> Inl (create_run_error (cp_id p) [Txt ''request metadata: ''] e)
      | Inr request_metadata \<Rightarrow>
        (let sn = cp_snapshot p;
             (command_json, env_json) = marshal_action_snapshot sn
         in Inr
           (\<lparr>qc_id = cp_id p, qc_action_name = cp_action_name p, qc_status = cp_status p,
             qc_created_at = unix_nano created_at, qc_started_at = started_at, qc_timed_out = 0,
             qc_request_metadata = request_metadata, qc_stdout_tail = cp_stdout_tail p,
             qc_stderr_tail = cp_stderr_tail p, qc_error_summary = cp_error_summary p\<rparr>,
            \<lparr>sr_run_id = cp_id p, sr_description = sn_description sn, sr_mode = sn_mode sn,
             sr_command_json = command_json, sr_shell_command = sn_shell_command sn,
             sr_cwd = sn_cwd sn, sr_timeout_ns = sn_timeout sn, sr_env_json = env_json,
             sr_concurrency_policy = sn_concurrency_policy sn,
             sr_max_output_bytes = sn_max_output_bytes sn,
             sr_enabled = bool_to_int64 (sn_enabled sn)\<rparr>)))))))"

text \<open>
  The transaction: the insertions work on a copy of the tables that becomes the store's on
  commit; every return before that rolls back, which leaves the committed tables as they were.
\<close>

definition create_run_tx ::
    "q_create_run_params \<Rightarrow> snapshot_row \<Rightarrow> store \<Rightarrow> go_error option \<times> store" where
  "create_run_tx q sn s =
     (case driver_call s of
        (Some d, s1) \<Rightarrow>
          (Some (create_run_error (qc_id q) [Txt ''begin transaction: ''] (driver_error d)), s1)
      | (None, s1) \<Rightarrow>
      (case driver_exec (q_create_run q) (st_tables s1) s1 of
        (Inl d, s2) \<Rightarrow>
          (Some (create_run_error (qc_id q) [Txt ''insert run row: ''] (driver_error d)), s2)
      | (Inr t2, s2) \<Rightarrow>
      (case driver_exec (q_create_action_snapshot sn) t2 s2 of
        (Inl d, s3) \<Rightarrow>
          (Some (create_run_error (qc_id q) [Txt ''insert action snapshot: ''] (driver_error d)), s3)
      | (Inr t3, s3) \<Rightarrow>
      (case driver_call s3 of
        (Some d, s4) \<Rightarrow>
          (Some (create_run_error (qc_id q) [Txt ''commit transaction: ''] (driver_error d)), s4)
      | (None, s4) \<Rightarrow> (None, s4\<lparr>st_tables := t3\<rparr>)))))"

definition store_create_run ::
    "time \<Rightarrow> create_run_params \<Rightarrow> store \<Rightarrow> (go_error + run) \<times> store" where
  "store_create_run now p s =
     (case create_run_rows now p of
        Inl e \<Rightarrow> (Inl e, s)
      | Inr (q, sn) \<Rightarrow>
          (case create_run_tx q sn s of
             (Some e, s') \<Rightarrow> (Inl e, s')
           | (None, s') \<Rightarrow> store_get_run (cp_id p) s'))"

subsection \<open>UpdateRun\<close>

definition update_run_error :: "string \<Rightarrow> go_error \<Rightarrow> go_error" where
  "update_run_error i e = wrap_error [Txt ''update run '', Quoted i, Txt '': ''] e []"

definition update_run_query ::
    "update_run_params \<Rightarrow> int option \<Rightarrow> int option \<Rightarrow> q_update_run_params" where
  "update_run_query p started_at finished_at =
     \<lparr>qu_status = up_status p, qu_exit_code = up_exit_code p,
      qu_started_at = started_at, qu_finished_at = finished_at,
      qu_timed_out = bool_to_int64 (up_timed_out p),
      qu_stdout_tail = up_stdout_tail p, qu_stderr_tail = up_stderr_tail p,
      qu_error_summary = up_error_summary p, qu_id = up_id p\<rparr>"

definition store_update_run :: "update_run_params \<Rightarrow> store \<Rightarrow> go_error option \<times> store" where
  "store_update_run p s =
     (if trim_space (up_id p) = [] then
        (Some (wrap_error [Txt ''update run: ''] (sentinel_error ErrInvalidRunState)
           [Txt '': run id is required'']), s)
      else case validate_run_status (up_status p) of
        Some e \<Rightarrow> (Some (update_run_error (up_id p) e), s)
      | None \<Rightarrow>
      (case nullable_unix_nano (up_started_at p) of
        Inl e \<Rightarrow> (Some (update_run_error (up_id p) e), s)
      | Inr started_at \<Rightarrow>
      (case nullable_unix_nano (up_finished_at p) of
        Inl e \<Rightarrow> (Some (update_run_error (up_id p) e), s)
      | Inr finished_at \<Rightarrow>
      (case driver_exec (\<lambda>t. Inr (q_update_run (update_run_query p started_at finished_at) t))
          (st_tables s) s of
        (Inl d, s') \<Rightarrow> (Some (update_run_error (up_id p) (driver_error d)), s')
      | (Inr (affected, t'), s') \<Rightarrow>
          (if affected = 0
           then (Some (update_run_error (up_id p) (sentinel_error ErrRunNotFound)),
                 s'\<lparr>st_tables := t'\<rparr>)
           else (None, s'\<lparr>st_tables := t'\<rparr>))))))"

subsection \<open>ApplyRetention and LastRetentionPruneAt\<close>

definition retention_last_pruned_at_key :: string where
  "retention_last_pruned_at_key = ''retention_last_pruned_at_unix_nano''"

definition apply_retention_error :: "message \<Rightarrow> string \<Rightarrow> go_error" where
  "apply_retention_error what d =
     wrap_error (Txt ''apply retention: '' # what) (driver_error d) []"

definition store_set_metadata ::
    "string \<Rightarrow> string \<Rightarrow> tables \<Rightarrow> store \<Rightarrow> (string + tables) \<times> store" where
  "store_set_metadata key val t s = driver_exec (\<lambda>t. Inr (q_set_metadata key val t)) t s"

definition store_get_metadata :: "string \<Rightarrow> store \<Rightarrow> (go_error + string option) \<times> store" where
  "store_get_metadata key s =
     (case driver_exec (\<lambda>t. Inr (q_get_metadata key t)) (st_tables s) s of
        (Inl d, s') \<Rightarrow> (Inl (driver_error d), s')
      | (Inr v, s') \<Rightarrow> (Inr v, s'))"

text \<open>A deletion that the policy may turn off: no driver call then, and no row deleted.\<close>

definition prune_step ::
    "bool \<Rightarrow> (tables \<Rightarrow> nat \<times> tables) \<Rightarrow> tables \<Rightarrow> store \<Rightarrow> (string + nat \<times> tables) \<times> store" where
  "prune_step enabled delete t s =
     (if enabled then driver_exec (\<lambda>t. Inr (delete t)) t s else (Inr (0, t), s))"

definition store_apply_retention ::
    "time \<Rightarrow> retention_policy \<Rightarrow> store \<Rightarrow> (go_error + retention_result) \<times> store" where
  "store_apply_retention pruned_at policy s =
     (if rp_max_age policy < 0 \<or> rp_max_runs policy < 0 then
        (Inl (wrap_error [Txt ''apply retention: ''] (sentinel_error ErrInvalidRetention) []), s)
      else case driver_call s of
        (Some d, s1) \<Rightarrow> (Inl (apply_retention_error [Txt ''begin transaction: ''] d), s1)
      | (None, s1) \<Rightarrow>
      (case prune_step (rp_max_age policy > 0)
          (q_delete_runs_older_than run_status_running
             (unix_nano (pruned_at + wrap64 (- rp_max_age policy)))) (st_tables s1) s1 of
        (Inl d, s2) \<Rightarrow> (Inl (apply_retention_error [Txt ''prune by age: ''] d), s2)
      | (Inr (by_age, t2), s2) \<Rightarrow>
      (case prune_step (rp_max_runs policy > 0)
          (q_delete_runs_overflow run_status_running (rp_max_runs policy)) t2 s2 of
        (Inl d, s3) \<Rightarrow> (Inl (apply_retention_error [Txt ''prune by max runs: ''] d), s3)
      | (Inr (by_count, t3), s3) \<Rightarrow>
      (case store_set_metadata retention_last_pruned_at_key (format_int (unix_nano pruned_at))
          t3 s3 of
        (Inl d, s4) \<Rightarrow> (Inl (apply_retention_error [Txt ''set retention metadata: ''] d), s4)
      | (Inr t4, s4) \<Rightarrow>
      (case driver_call s4 of
        (Some d, s5) \<Rightarrow> (Inl (apply_retention_error [Txt ''commit transaction: ''] d), s5)
      | (None, s5) \<Rightarrow>
          (Inr \<lparr>rs_deleted_runs = by_age + by_count, rs_pruned_at = pruned_at\<rparr>,
           s5\<lparr>st_tables := t4\<rparr>))))))"

definition last_prune_error :: "message \<Rightarrow> go_error \<Rightarrow> go_error" where
  "last_prune_error what e = wrap_error (Txt ''get last retention prune time: '' # what) e []"

definition store_last_retention_prune_at :: "store \<Rightarrow> (go_error + time option) \<times> store" where
  "store_last_retention_prune_at s =
     (case store_get_metadata retention_last_pruned_at_key s of
        (Inl e, s') \<Rightarrow> (Inl (last_prune_error [] e), s')
      | (Inr None, s') \<Rightarrow> (Inr None, s')
      | (Inr (Some v), s') \<Rightarrow>
          (case parse_int v of
             None \<Rightarrow>
               (Inl (last_prune_error [Txt ''parse metadata '', Quoted v, Txt '': '']
                  (errors_new ''invalid integer'')), s')
           | Some n \<Rightarrow> (Inr (Some (time_unix_nano n)), s')))"

end
