(* ===== verification/Store_Spec.thy ===== *)
theory Store_Spec
  imports Repository
begin

section \<open>What the run store promises\<close>

text \<open>
  The abstract view of a store is a finite map from ids to runs. This theory relates the
  operations of \<open>Repository\<close> to it: the invariant they keep, what each leaves of the map on
  every branch, and the errors.
\<close>

definition store_inv :: "store \<Rightarrow> bool" where
  "store_inv s \<longleftrightarrow>
     tables_wf (st_tables s)
     \<and> (\<forall>rec \<in> set (run_records (st_tables s)). \<not> isl (run_from_record rec))"

definition store_lookup :: "store \<Rightarrow> string \<Rightarrow> run option" where
  "store_lookup s i =
     (case q_get_run i (st_tables s) of
        None \<Rightarrow> None
      | Some rec \<Rightarrow> (case run_from_record rec of Inl e \<Rightarrow> None | Inr r \<Rightarrow> Some r))"

text \<open>A time that went through a 64-bit column.\<close>

definition stored_time :: "time \<Rightarrow> time" where
  "stored_time t = time_unix_nano (unix_nano t)"

definition stored_snapshot :: "action_snapshot \<Rightarrow> action_snapshot" where
  "stored_snapshot sn =
     sn\<lparr>sn_command := map fix_utf8 (sn_command sn),
        sn_env := gomap_copy [] (map (\<lambda>(k, v). (fix_utf8 k, fix_utf8 v))
          (sorted_members (storage_clone_string_map (sn_env sn))))\<rparr>"

definition created_run :: "time \<Rightarrow> create_run_params \<Rightarrow> run" where
  "created_run now p =
     \<lparr>rn_id = cp_id p, rn_action_name = cp_action_name p, rn_status = cp_status p,
      rn_exit_code = None,
      rn_created_at = stored_time (if cp_created_at p = zero_time then now else cp_created_at p),
      rn_started_at = map_option stored_time (cp_started_at p), rn_finished_at = None,
      rn_timed_out = False, rn_request_metadata = cp_request_metadata p,
      rn_stdout_tail = cp_stdout_tail p, rn_stderr_tail = cp_stderr_tail p,
      rn_error_summary = cp_error_summary p,
      rn_snapshot = stored_snapshot (cp_snapshot p)\<rparr>"

definition updated_run :: "update_run_params \<Rightarrow> run \<Rightarrow> run" where
  "updated_run p r =
     r\<lparr>rn_status := up_status p, rn_exit_code := up_exit_code p,
       rn_started_at := map_option stored_time (up_started_at p),
       rn_finished_at := map_option stored_time (up_finished_at p),
       rn_timed_out := up_timed_out p, rn_stdout_tail := up_stdout_tail p,
       rn_stderr_tail := up_stderr_tail p, rn_error_summary := up_error_summary p\<rparr>"

lemma stored_time_id: "int64_range t \<Longrightarrow> stored_time t = t"
  by (simp add: stored_time_def unix_nano_roundtrip)

subsection \<open>Driver calls\<close>

lemma driver_call_tables: "driver_call s = (f, s') \<Longrightarrow> st_tables s' = st_tables s"
  by (auto simp: driver_call_def split: list.splits)

lemma driver_exec_Inl: "driver_exec f t s = (Inl d, s') \<Longrightarrow> st_tables s' = st_tables s"
  by (auto simp: driver_exec_def dest: driver_call_tables split: prod.splits option.splits)

lemma driver_exec_Inr:
  "driver_exec f t s = (Inr x, s') \<Longrightarrow> f t = Inr x \<and> st_tables s' = st_tables s"
  by (auto simp: driver_exec_def dest: driver_call_tables split: prod.splits option.splits)

lemma no_faults:
  assumes "st_faults s = []"
  shows "driver_call s = (None, s)" "driver_exec f t s = (f t, s)"
  using assms by (simp_all add: driver_call_def driver_exec_def)

subsection \<open>Records\<close>

lemma nullable_unix_nano_Inr:
  "nullable_unix_nano v = Inr w \<Longrightarrow> w = map_option unix_nano v"
  by (auto simp: nullable_unix_nano_def normalize_time_def split: option.splits if_splits sum.splits)

lemma map_option_stored: "map_option time_unix_nano (map_option unix_nano v) = map_option stored_time v"
  by (cases v) (simp_all add: stored_time_def)

lemma create_run_rows_Inr:
  assumes "create_run_rows now p = Inr (q, sn)"
  shows "qc_id q = cp_id p" "sr_run_id sn = cp_id p"
    "run_from_record (inserted_row q, sn) = Inr (created_run now p)"
    "trim_space (cp_id p) \<noteq> []" "validate_run_status (cp_status p) = None"
proof -
  from assms obtain started where
    st: "nullable_unix_nano (cp_started_at p) = Inr started" and
    q: "q = \<lparr>qc_id = cp_id p, qc_action_name = cp_action_name p, qc_status = cp_status p,
             qc_created_at = unix_nano (if cp_created_at p = zero_time then now else cp_created_at p),
             qc_started_at = started, qc_timed_out = 0,
             qc_request_metadata = cp_request_metadata p, qc_stdout_tail = cp_stdout_tail p,
             qc_stderr_tail = cp_stderr_tail p, qc_error_summary = cp_error_summary p\<rparr>" and
    sn: "sn = (let sn = cp_snapshot p in
            \<lparr>sr_run_id = cp_id p, sr_description = sn_description sn, sr_mode = sn_mode sn,
             sr_command_json = fst (marshal_action_snapshot sn),
             sr_shell_command = sn_shell_command sn,
             sr_cwd = sn_cwd sn, sr_timeout_ns = sn_timeout sn,
             sr_env_json = snd (marshal_action_snapshot sn),
             sr_concurrency_policy = sn_concurrency_policy sn,
             sr_max_output_bytes = sn_max_output_bytes sn,
             sr_enabled = bool_to_int64 (sn_enabled sn)\<rparr>)" and
    ok: "trim_space (cp_id p) \<noteq> []" "validate_run_status (cp_status p) = None"
    by (auto simp: create_run_rows_def normalize_time_def normalize_raw_json_def clone_bytes_def
        split_beta Let_def split: if_splits option.splits sum.splits)
  show "qc_id q = cp_id p" "sr_run_id sn = cp_id p"
    by (simp_all add: q sn Let_def)
  show "run_from_record (inserted_row q, sn) = Inr (created_run now p)"
    by (simp add: q sn run_from_record_def inserted_row_def Let_def marshal_action_snapshot_def
        unmarshal_marshal_strings unmarshal_marshal_string_map created_run_def
        nullable_unix_nano_Inr [OF st] map_option_stored stored_time_def [symmetric]
        stored_snapshot_def storage_clone_strings_def bool_to_int64_def clone_bytes_def)
  show "trim_space (cp_id p) \<noteq> []" "validate_run_status (cp_status p) = None" by (rule ok)+
qed

lemma run_from_record_id:
  "run_from_record rec = Inr r \<Longrightarrow> rn_id r = rr_id (fst rec)"
  by (auto simp: run_from_record_def Let_def split: sum.splits)

lemma update_run_query_id [simp]: "qu_id (update_run_query p sa fa) = up_id p"
  by (simp add: update_run_query_def)

lemma run_from_record_update:
  assumes "nullable_unix_nano (up_started_at p) = Inr sa"
    and "nullable_unix_nano (up_finished_at p) = Inr fa"
    and "run_from_record (r, s) = Inr run" and "rr_id r = up_id p"
  shows "run_from_record (update_row (update_run_query p sa fa) r, s) = Inr (updated_run p run)"
  using assms(3,4)
  by (auto simp: run_from_record_def update_row_def update_run_query_def Let_def updated_run_def
      bool_to_int64_def nullable_unix_nano_Inr [OF assms(1)] nullable_unix_nano_Inr [OF assms(2)]
      map_option_stored split: sum.splits)

lemma run_from_record_other_row:
  "rr_id r \<noteq> qu_id q \<Longrightarrow> run_from_record (update_row q r, s) = run_from_record (r, s)"
  by (simp add: update_row_def)


subsection \<open>Lookups\<close>

lemma store_inv_decodes:
  assumes "store_inv s" "q_get_run i (st_tables s) = Some rec"
  obtains run where "run_from_record rec = Inr run" "store_lookup s i = Some run" "rn_id run = i"
proof -
  have "rec \<in> set (run_records (st_tables s))"
    using assms q_get_run_id [OF assms(2)] run_records_iff [of "st_tables s" rec]
    by (simp add: store_inv_def)
  with assms(1) obtain run where "run_from_record rec = Inr run"
    by (cases "run_from_record rec") (auto simp: store_inv_def)
  moreover from this have "rn_id run = i"
    using run_from_record_id q_get_run_id [OF assms(2)] by metis
  moreover from calculation(1) have "store_lookup s i = Some run"
    using assms(2) by (simp add: store_lookup_def)
  ultimately show thesis by (intro that)
qed

lemma store_lookup_None:
  "store_inv s \<Longrightarrow> store_lookup s i = None \<longleftrightarrow> q_get_run i (st_tables s) = None"
  by (cases "q_get_run i (st_tables s)") (auto simp: store_lookup_def elim: store_inv_decodes)

lemma store_lookup_id: "store_lookup s i = Some r \<Longrightarrow> rn_id r = i"
  by (auto simp: store_lookup_def run_from_record_id q_get_run_id split: option.splits sum.splits)

lemma store_inv_intro:
  assumes "tables_wf (st_tables s)"
    and "\<And>i rec. q_get_run i (st_tables s) = Some rec \<Longrightarrow> \<exists>run. run_from_record rec = Inr run"
  shows "store_inv s"
  unfolding store_inv_def
proof (intro conjI ballI)
  fix rec
  assume "rec \<in> set (run_records (st_tables s))"
  then obtain run where "run_from_record rec = Inr run"
    using assms run_records_iff [OF assms(1)] by blast
  then show "\<not> isl (run_from_record rec)" by simp
qed (rule assms(1))

lemma store_inv_tables: "st_tables s' = st_tables s \<Longrightarrow> store_inv s' = store_inv s"
  by (simp add: store_inv_def)

lemma store_lookup_tables: "st_tables s' = st_tables s \<Longrightarrow> store_lookup s' = store_lookup s"
  by (simp add: store_lookup_def fun_eq_iff)

text \<open>A store whose tables gained one record, or whose records of one id were rewritten.\<close>

lemma store_insert:
  assumes inv: "store_inv s" and t: "st_tables s' = insert_record r sn (st_tables s)"
    and fresh: "rr_id r \<notin> rr_id ` set (db_runs (st_tables s))" "sr_run_id sn = rr_id r"
    and dec: "run_from_record (r, sn) = Inr run"
  shows "store_inv s'" "store_lookup s' = (store_lookup s)(rr_id r \<mapsto> run)"
    "store_lookup s (rr_id r) = None"
proof -
  have wf: "tables_wf (st_tables s)" using inv by (simp add: store_inv_def)
  note get = q_get_run_insert [OF wf fresh]
  show "store_inv s'"
  proof (rule store_inv_intro)
    show "tables_wf (st_tables s')" unfolding t by (rule insert_record_wf [OF wf fresh])
    show "\<exists>run. run_from_record rec = Inr run" if "q_get_run i (st_tables s') = Some rec" for i rec
      using that dec unfolding t get
      by (auto split: if_splits elim: store_inv_decodes [OF inv])
  qed
  show "store_lookup s' = (store_lookup s)(rr_id r \<mapsto> run)"
    by (simp add: fun_eq_iff store_lookup_def t get dec)
  show "store_lookup s (rr_id r) = None"
    by (simp only: store_lookup_def iffD2 [OF q_get_run_None [OF wf] fresh(1)] option.case)
qed

subsection \<open>GetRun\<close>

lemma store_get_run_tables: "store_get_run i s = (r, s') \<Longrightarrow> st_tables s' = st_tables s"
  by (auto simp: store_get_run_def dest: driver_exec_Inl driver_exec_Inr
      split: if_splits prod.splits sum.splits option.splits)

lemma store_get_run_Inr:
  "store_get_run i s = (Inr run, s') \<Longrightarrow> store_lookup s i = Some run"
  by (auto simp: store_get_run_def store_lookup_def dest!: driver_exec_Inr
      split: if_splits prod.splits sum.splits option.splits)

lemma store_get_run_ok:
  assumes "st_faults s = []" "trim_space i \<noteq> []" "store_inv s"
  shows "store_get_run i s =
    (case store_lookup s i of
       Some run \<Rightarrow> Inr run | None \<Rightarrow> Inl (get_run_error i (sentinel_error ErrRunNotFound)), s)"
proof (cases "q_get_run i (st_tables s)")
  case None
  with assms show ?thesis by (simp add: store_get_run_def no_faults store_lookup_def)
next
  case (Some rec)
  then obtain run where "run_from_record rec = Inr run" "store_lookup s i = Some run"
    using assms(3) by (blast elim: store_inv_decodes)
  with Some assms show ?thesis by (simp add: store_get_run_def no_faults)
qed

subsection \<open>CreateRun\<close>

lemma create_run_tx_Some:
  "create_run_tx q sn s = (Some e, s') \<Longrightarrow> st_tables s' = st_tables s"
  by (auto simp: create_run_tx_def dest!: driver_exec_Inl driver_exec_Inr driver_call_tables
      split: prod.splits sum.splits option.splits)

lemma create_run_tx_None:
  assumes "create_run_tx q sn s = (None, s')" "sr_run_id sn = qc_id q"
  shows "qc_id q \<notin> rr_id ` set (db_runs (st_tables s))"
    "st_tables s' = insert_record (inserted_row q) sn (st_tables s)"
  using assms
  by (auto simp: create_run_tx_def q_create_run_def q_create_action_snapshot_def insert_record_def
      dest!: driver_exec_Inr driver_call_tables
      split: prod.splits sum.splits option.splits if_splits)

lemma inserted_row_id [simp]: "rr_id (inserted_row q) = qc_id q"
  by (simp add: inserted_row_def)

text \<open>The branches of the operation: nothing committed, or the record committed and read back.\<close>

lemma store_create_run_cases:
  assumes inv: "store_inv s" and op: "store_create_run now p s = (res, s')"
  obtains (unchanged) e where "res = Inl e" "st_tables s' = st_tables s"
  | (committed) s1 where "store_inv s1" "store_lookup s (cp_id p) = None"
      "store_lookup s1 = (store_lookup s)(cp_id p \<mapsto> created_run now p)"
      "store_get_run (cp_id p) s1 = (res, s')" "st_tables s' = st_tables s1"
      "trim_space (cp_id p) \<noteq> []" "validate_run_status (cp_status p) = None"
proof (cases "create_run_rows now p")
  case (Inl e)
  then show ?thesis using op by (intro unchanged) (auto simp: store_create_run_def)
next
  case (Inr qs)
  obtain q sn where qs: "qs = (q, sn)" by (cases qs)
  note rows = create_run_rows_Inr [OF Inr [unfolded qs]]
  obtain r s1 where tx: "create_run_tx q sn s = (r, s1)" by (cases "create_run_tx q sn s")
  show ?thesis
  proof (cases r)
    case None
    have g: "store_get_run (cp_id p) s1 = (res, s')"
      using op Inr qs tx None by (simp add: store_create_run_def)
    note t = create_run_tx_None [OF tx [unfolded None] rows(2) [folded rows(1)]]
    have "rr_id (inserted_row q) \<notin> rr_id ` set (db_runs (st_tables s))"
        "sr_run_id sn = rr_id (inserted_row q)"
      using t(1) rows(1,2) by simp_all
    note ins = store_insert [OF inv t(2) this rows(3), unfolded inserted_row_id rows(1)]
    show ?thesis
      by (rule committed [OF ins(1,3,2) g store_get_run_tables [OF g] rows(4,5)])
  next
    case (Some e)
    then show ?thesis
      using op Inr qs tx create_run_tx_Some [of q sn s e s1]
      by (intro unchanged) (auto simp: store_create_run_def)
  qed
qed

lemma store_create_run_Inr:
  assumes "store_inv s" "store_create_run now p s = (Inr run, s')"
  shows "run = created_run now p \<and> store_lookup s (cp_id p) = None
      \<and> store_lookup s' = (store_lookup s)(cp_id p \<mapsto> run) \<and> store_inv s'"
proof (rule store_create_run_cases [OF assms], goal_cases)
  case (1 e)
  then show "run = created_run now p \<and> store_lookup s (cp_id p) = None
      \<and> store_lookup s' = (store_lookup s)(cp_id p \<mapsto> run) \<and> store_inv s'" by simp
next
  case (2 s1)
  have "run = created_run now p"
    using store_get_run_Inr [OF 2(4)] by (simp only: 2(3) fun_upd_same option.inject)
  with 2 show "run = created_run now p \<and> store_lookup s (cp_id p) = None
      \<and> store_lookup s' = (store_lookup s)(cp_id p \<mapsto> run) \<and> store_inv s'"
    by (simp only: store_inv_tables [OF 2(5)] store_lookup_tables [OF 2(5)] simp_thms)
qed

lemma store_create_run_Inl:
  assumes "store_inv s" "store_create_run now p s = (Inl e, s')"
  shows "store_inv s' \<and> (store_lookup s' = store_lookup s \<or>
      store_lookup s (cp_id p) = None
       \<and> store_lookup s' = (store_lookup s)(cp_id p \<mapsto> created_run now p))"
proof (rule store_create_run_cases [OF assms], goal_cases)
  case (1 e')
  with assms(1) show "store_inv s' \<and> (store_lookup s' = store_lookup s \<or>
      store_lookup s (cp_id p) = None
       \<and> store_lookup s' = (store_lookup s)(cp_id p \<mapsto> created_run now p))"
    by (simp only: store_inv_tables [OF 1(2)] store_lookup_tables [OF 1(2)] simp_thms)
next
  case (2 s1)
  then show "store_inv s' \<and> (store_lookup s' = store_lookup s \<or>
      store_lookup s (cp_id p) = None
       \<and> store_lookup s' = (store_lookup s)(cp_id p \<mapsto> created_run now p))"
    by (simp only: store_inv_tables [OF 2(5)] store_lookup_tables [OF 2(5)] simp_thms)
qed


text \<open>With a driver that does not fail, exactly the good parameters are accepted.\<close>

definition create_params_ok :: "time \<Rightarrow> create_run_params \<Rightarrow> bool" where
  "create_params_ok now p \<longleftrightarrow>
     trim_space (cp_id p) \<noteq> [] \<and> trim_space (cp_action_name p) \<noteq> []
     \<and> validate_run_status (cp_status p) = None
     \<and> validate_action_snapshot (cp_snapshot p) = None
     \<and> (cp_created_at p = zero_time \<longrightarrow> now \<noteq> zero_time)
     \<and> cp_started_at p \<noteq> Some zero_time
     \<and> (cp_request_metadata p = [] \<or> json_valid (cp_request_metadata p))"

lemma create_run_rows_isl: "isl (create_run_rows now p) \<longleftrightarrow> \<not> create_params_ok now p"
  by (simp add: create_run_rows_def create_params_ok_def normalize_time_def
      nullable_unix_nano_def normalize_raw_json_def split_beta Let_def split: option.split)

lemma create_run_rows_ok:
  assumes "create_params_ok now p"
  obtains q sn where "create_run_rows now p = Inr (q, sn)"
  using assms create_run_rows_isl [of now p] by (cases "create_run_rows now p") auto

lemma store_create_run_ok:
  assumes "store_inv s" "st_faults s = []" "create_params_ok now p"
    and "store_lookup s (cp_id p) = None"
  shows "\<exists>s'. store_create_run now p s = (Inr (created_run now p), s') \<and> st_faults s' = []"
proof -
  obtain q sn where rows: "create_run_rows now p = Inr (q, sn)"
    using assms(3) by (rule create_run_rows_ok)
  note r = create_run_rows_Inr [OF rows]
  have wf: "tables_wf (st_tables s)" using assms(1) by (simp add: store_inv_def)
  have fresh: "cp_id p \<notin> rr_id ` set (db_runs (st_tables s))"
    using assms(4) store_lookup_None [OF assms(1)] q_get_run_None [OF wf] by metis
  have same: "sr_run_id ` set (db_snapshots (st_tables s)) = rr_id ` set (db_runs (st_tables s))"
    using wf by (simp add: tables_wf_def)
  let ?s = "s\<lparr>st_tables := insert_record (inserted_row q) sn (st_tables s)\<rparr>"
  have tx: "create_run_tx q sn s = (None, ?s)"
    using assms(2) fresh same r(1,2)
    by (simp add: create_run_tx_def no_faults q_create_run_def q_create_action_snapshot_def
        insert_record_def)
  have ok: "store_inv ?s" "store_lookup ?s = (store_lookup s)(cp_id p \<mapsto> created_run now p)"
    using store_insert [OF assms(1), of ?s "inserted_row q" sn "created_run now p"] r fresh
    by simp_all
  have "store_get_run (cp_id p) ?s = (Inr (created_run now p), ?s)"
    using store_get_run_ok [OF _ r(4) ok(1)] assms(2) by (simp add: ok(2))
  with rows tx assms(2) show ?thesis by (simp add: store_create_run_def)
qed

text \<open>
  The four driver calls of the transaction succeed, and the fifth, which reads the run back,
  fails: the run is stored, and the caller is told that it is not.
\<close>

lemma store_create_run_orphan:
  assumes "store_inv s" "st_faults s = [None, None, None, None, Some d]"
    and "create_params_ok now p" "store_lookup s (cp_id p) = None"
  shows "\<exists>s'. store_create_run now p s = (Inl (get_run_error (cp_id p) (driver_error d)), s')
    \<and> store_lookup s' = (store_lookup s)(cp_id p \<mapsto> created_run now p)"
proof -
  obtain q sn where rows: "create_run_rows now p = Inr (q, sn)"
    using assms(3) by (rule create_run_rows_ok)
  note r = create_run_rows_Inr [OF rows]
  have wf: "tables_wf (st_tables s)" using assms(1) by (simp add: store_inv_def)
  have fresh: "cp_id p \<notin> rr_id ` set (db_runs (st_tables s))"
    using assms(4) store_lookup_None [OF assms(1)] q_get_run_None [OF wf] by metis
  have same: "sr_run_id ` set (db_snapshots (st_tables s)) = rr_id ` set (db_runs (st_tables s))"
    using wf by (simp add: tables_wf_def)
  let ?s = "s\<lparr>st_faults := [Some d], st_tables := insert_record (inserted_row q) sn (st_tables s)\<rparr>"
  let ?s' = "s\<lparr>st_faults := [], st_tables := insert_record (inserted_row q) sn (st_tables s)\<rparr>"
  have tx: "create_run_tx q sn s = (None, ?s)"
    using assms(2) fresh same r(1,2)
    by (simp add: create_run_tx_def driver_call_def driver_exec_def q_create_run_def
        q_create_action_snapshot_def insert_record_def)
  have "store_get_run (cp_id p) ?s = (Inl (get_run_error (cp_id p) (driver_error d)), ?s')"
    using r(4) by (simp add: store_get_run_def driver_exec_def driver_call_def)
  moreover have "store_lookup ?s' = (store_lookup s)(cp_id p \<mapsto> created_run now p)"
    using store_insert [OF assms(1), of ?s' "inserted_row q" sn "created_run now p"] r fresh
    by simp_all
  ultimately show ?thesis using rows tx by (simp add: store_create_run_def)
qed

subsection \<open>UpdateRun\<close>

lemma store_rewrite:
  assumes inv: "store_inv s" and t': "st_tables s' = snd (q_update_run q (st_tables s))"
    and upd: "\<And>r sn run. run_from_record (r, sn) = Inr run \<Longrightarrow> rr_id r = qu_id q \<Longrightarrow>
      run_from_record (update_row q r, sn) = Inr (f run)"
  shows "store_inv s'"
    and "store_lookup s' i = (if i = qu_id q then map_option f (store_lookup s i)
      else store_lookup s i)"
proof -
  have wf: "tables_wf (st_tables s)" using inv by (simp add: store_inv_def)
  note get = q_get_run_update [OF wf, of _ q]
  show "store_inv s'"
  proof (rule store_inv_intro)
    show "tables_wf (st_tables s')" unfolding t' by (rule q_update_run_wf [OF wf])
    fix i rec'
    assume "q_get_run i (st_tables s') = Some rec'"
    then obtain r sn where rec: "q_get_run i (st_tables s) = Some (r, sn)"
        and rec': "rec' = (update_row q r, sn)"
      unfolding t' get by auto
    obtain run where "run_from_record (r, sn) = Inr run"
      using store_inv_decodes [OF inv rec] by blast
    then show "\<exists>run. run_from_record rec' = Inr run"
      unfolding rec' using upd run_from_record_other_row [of r q sn]
      by (cases "rr_id r = qu_id q") auto
  qed
  show "store_lookup s' i = (if i = qu_id q then map_option f (store_lookup s i)
      else store_lookup s i)"
  proof (cases "q_get_run i (st_tables s)")
    case None
    then have "store_lookup s i = None" "store_lookup s' i = None"
      by (simp_all add: store_lookup_def t' get)
    then show ?thesis by (cases "i = qu_id q") (simp_all only: option.map if_cancel)
  next
    case (Some rec)
    obtain r sn where rec: "rec = (r, sn)" by (cases rec)
    have id: "rr_id r = i" using q_get_run_id [OF Some] rec by simp
    obtain run where run: "run_from_record (r, sn) = Inr run" "store_lookup s i = Some run"
      using store_inv_decodes [OF inv Some] rec by metis
    have "store_lookup s' i = (case run_from_record (update_row q r, sn) of
        Inl e \<Rightarrow> None | Inr r \<Rightarrow> Some r)"
      by (simp add: store_lookup_def t' get Some rec)
    with run id show ?thesis
      by (cases "i = qu_id q") (simp_all add: upd run_from_record_other_row)
  qed
qed

definition update_params_ok :: "update_run_params \<Rightarrow> bool" where
  "update_params_ok p \<longleftrightarrow>
     trim_space (up_id p) \<noteq> [] \<and> validate_run_status (up_status p) = None
     \<and> up_started_at p \<noteq> Some zero_time \<and> up_finished_at p \<noteq> Some zero_time"

lemma nullable_unix_nano_isl: "isl (nullable_unix_nano v) \<longleftrightarrow> v = Some zero_time"
  by (auto simp: nullable_unix_nano_def normalize_time_def split: option.split)

lemma store_update_run_bad:
  "\<not> update_params_ok p \<Longrightarrow> \<exists>e. store_update_run p s = (Some e, s)"
  using nullable_unix_nano_isl [of "up_started_at p"] nullable_unix_nano_isl [of "up_finished_at p"]
  by (cases "nullable_unix_nano (up_started_at p)"; cases "nullable_unix_nano (up_finished_at p)")
    (auto simp: update_params_ok_def store_update_run_def split: option.split)

lemma store_update_run_good:
  assumes "update_params_ok p"
  obtains sa fa where "nullable_unix_nano (up_started_at p) = Inr sa"
    "nullable_unix_nano (up_finished_at p) = Inr fa"
    "store_update_run p s =
      (case driver_exec (\<lambda>t. Inr (q_update_run (update_run_query p sa fa) t)) (st_tables s) s of
        (Inl d, s') \<Rightarrow> (Some (update_run_error (up_id p) (driver_error d)), s')
      | (Inr (affected, t'), s') \<Rightarrow>
          (if affected = 0
           then (Some (update_run_error (up_id p) (sentinel_error ErrRunNotFound)),
                 s'\<lparr>st_tables := t'\<rparr>)
           else (None, s'\<lparr>st_tables := t'\<rparr>)))"
proof -
  have "\<not> isl (nullable_unix_nano (up_started_at p))" "\<not> isl (nullable_unix_nano (up_finished_at p))"
    using assms by (simp_all only: nullable_unix_nano_isl update_params_ok_def simp_thms)
  then obtain sa fa where "nullable_unix_nano (up_started_at p) = Inr sa"
      "nullable_unix_nano (up_finished_at p) = Inr fa"
    by (cases "nullable_unix_nano (up_started_at p)"; cases "nullable_unix_nano (up_finished_at p)")
      auto
  then show thesis
    using assms by (intro that) (simp_all add: store_update_run_def update_params_ok_def)
qed

lemma store_update_run_ok:
  assumes "store_inv s" "st_faults s = []" "update_params_ok p" "store_lookup s (up_id p) \<noteq> None"
  shows "fst (store_update_run p s) = None"
proof -
  obtain sa fa where eq: "store_update_run p s =
      (case driver_exec (\<lambda>t. Inr (q_update_run (update_run_query p sa fa) t)) (st_tables s) s of
        (Inl d, s') \<Rightarrow> (Some (update_run_error (up_id p) (driver_error d)), s')
      | (Inr (affected, t'), s') \<Rightarrow>
          (if affected = 0
           then (Some (update_run_error (up_id p) (sentinel_error ErrRunNotFound)),
                 s'\<lparr>st_tables := t'\<rparr>)
           else (None, s'\<lparr>st_tables := t'\<rparr>)))"
    by (rule store_update_run_good [OF assms(3)])
  have wf: "tables_wf (st_tables s)" using assms(1) by (simp add: store_inv_def)
  have "q_get_run (up_id p) (st_tables s) \<noteq> None"
    using assms(4) store_lookup_None [OF assms(1)] by simp
  then have "fst (q_update_run (update_run_query p sa fa) (st_tables s)) = 1"
    using q_update_run_affected [OF wf, of "update_run_query p sa fa"] by simp
  then show ?thesis using assms(2) by (simp add: eq no_faults split_beta)
qed

lemma store_update_run_faults:
  assumes "store_update_run p s = (res, s')" "st_faults s = []"
  shows "st_faults s' = []"
  using assms
  by (auto simp: store_update_run_def no_faults split: if_splits option.splits sum.splits prod.splits)

lemma store_update_run_cases:
  assumes inv: "store_inv s" and op: "store_update_run p s = (res, s')"
  obtains (unchanged) e where "res = Some e" "store_lookup s' = store_lookup s" "store_inv s'"
  | (updated) r where "res = None" "store_lookup s (up_id p) = Some r"
      "store_lookup s' = (store_lookup s)(up_id p \<mapsto> updated_run p r)" "store_inv s'"
proof (cases "update_params_ok p")
  case False
  with op inv store_update_run_bad [OF False, of s] show thesis
    by (auto intro: unchanged)
next
  case True
  obtain sa fa where times: "nullable_unix_nano (up_started_at p) = Inr sa"
      "nullable_unix_nano (up_finished_at p) = Inr fa"
    and eq: "store_update_run p s =
      (case driver_exec (\<lambda>t. Inr (q_update_run (update_run_query p sa fa) t)) (st_tables s) s of
        (Inl d, s') \<Rightarrow> (Some (update_run_error (up_id p) (driver_error d)), s')
      | (Inr (affected, t'), s') \<Rightarrow>
          (if affected = 0
           then (Some (update_run_error (up_id p) (sentinel_error ErrRunNotFound)),
                 s'\<lparr>st_tables := t'\<rparr>)
           else (None, s'\<lparr>st_tables := t'\<rparr>)))"
    by (rule store_update_run_good [OF True])
  let ?q = "update_run_query p sa fa"
  have wf: "tables_wf (st_tables s)" using inv by (simp add: store_inv_def)
  obtain res1 s1 where ex: "driver_exec (\<lambda>t. Inr (q_update_run ?q t)) (st_tables s) s = (res1, s1)"
    by (cases "driver_exec (\<lambda>t. Inr (q_update_run ?q t)) (st_tables s) s")
  show thesis
  proof (cases res1)
    case (Inl d)
    note same = driver_exec_Inl [OF ex [unfolded Inl]]
    have "res = Some (update_run_error (up_id p) (driver_error d))" "s' = s1"
      using op eq ex Inl by simp_all
    then show thesis
      using inv store_inv_tables [OF same] store_lookup_tables [OF same] by (intro unchanged) simp_all
  next
    case (Inr at)
    then have at: "at = q_update_run ?q (st_tables s)"
      using driver_exec_Inr [OF ex [unfolded Inr]] by simp
    have out: "(res, s') = (if fst at = 0
         then (Some (update_run_error (up_id p) (sentinel_error ErrRunNotFound)),
               s1\<lparr>st_tables := snd at\<rparr>) else (None, s1\<lparr>st_tables := snd at\<rparr>))"
      using op eq ex Inr by (simp add: split_beta)
    then have t': "st_tables s' = snd (q_update_run ?q (st_tables s))"
      by (simp add: at split: if_splits)
    have "run_from_record (update_row ?q r, sn) = Inr (updated_run p run)"
      if "run_from_record (r, sn) = Inr run" "rr_id r = qu_id ?q" for r sn run
      using that by (simp add: run_from_record_update [OF times])
    note rw = store_rewrite [where f = "updated_run p", OF inv t' this, unfolded update_run_query_id]
    note none = store_lookup_None [OF inv, of "up_id p"]
    note aff = q_update_run_affected [OF wf, of ?q, unfolded update_run_query_id]
    show thesis
    proof (cases "store_lookup s (up_id p)")
      case None
      moreover have "store_lookup s' = store_lookup s"
        using None rw(2) by (auto simp: fun_eq_iff)
      ultimately show thesis using out aff none rw(1) by (intro unchanged) (simp_all add: at)
    next
      case (Some r)
      moreover have "store_lookup s' = (store_lookup s)(up_id p \<mapsto> updated_run p r)"
        using Some rw(2) by (auto simp: fun_eq_iff)
      moreover have "fst at = 1"
        using aff none Some by (simp only: at option.distinct if_False simp_thms)
      ultimately show thesis using out rw(1) by (intro updated) simp_all
    qed
  qed
qed

end
