(* ===== verification/Store_Queries.thy ===== *)
theory Store_Queries
  imports Store_Spec
begin

section \<open>Listing and retention\<close>

text \<open>
  The properties of \<open>ListRuns\<close>, \<open>ApplyRetention\<close> and \<open>LastRetentionPruneAt\<close> in terms of the
  abstract view of \<open>Store_Spec\<close>.
\<close>

subsection \<open>ListRuns\<close>

definition run_matches :: "string \<Rightarrow> string \<Rightarrow> run \<Rightarrow> bool" where
  "run_matches name status r \<longleftrightarrow>
     (name = [] \<or> rn_action_name r = name) \<and> (status = [] \<or> rn_status r = status)"

definition newer_run :: "run \<Rightarrow> run \<Rightarrow> bool" where
  "newer_run a b \<longleftrightarrow> (rn_created_at b, rn_id b) < (rn_created_at a, rn_id a)"

lemma list_query_newest_first:
  "list_query name status t = newest_first (filter (\<lambda>rec.
     (name = [] \<or> rr_action_name (fst rec) = name) \<and> (status = [] \<or> rr_status (fst rec) = status))
     (run_records t))"
  by (simp add: list_query_def q_list_runs_def q_list_runs_by_action_name_def
      q_list_runs_by_status_def q_list_runs_by_action_name_and_status_def)

lemma runs_from_records_Inr:
  "runs_from_records recs = Inr runs \<Longrightarrow>
     list_all2 (\<lambda>rec run. run_from_record rec = Inr run) recs runs"
  by (induction recs arbitrary: runs) (auto split: sum.splits)

lemma list_all2_in1:
  "list_all2 P xs ys \<Longrightarrow> y \<in> set ys \<Longrightarrow> \<exists>x \<in> set xs. P x y"
  by (induction rule: list_all2_induct) auto

lemma list_all2_in2:
  "list_all2 P xs ys \<Longrightarrow> x \<in> set xs \<Longrightarrow> \<exists>y \<in> set ys. P x y"
  by (induction rule: list_all2_induct) auto

lemma runs_from_records_total:
  "\<forall>rec \<in> set recs. \<not> isl (run_from_record rec) \<Longrightarrow> \<not> isl (runs_from_records recs)"
  by (induction recs) (auto simp: isl_def split: sum.splits)

lemma run_from_record_columns:
  "run_from_record rec = Inr run \<Longrightarrow>
     rn_id run = rr_id (fst rec) \<and> rn_action_name run = rr_action_name (fst rec)
     \<and> rn_status run = rr_status (fst rec) \<and> rn_created_at run = rr_created_at (fst rec)"
  by (auto simp: run_from_record_def Let_def time_unix_nano_def split: sum.splits)

lemma run_records_distinct:
  assumes "tables_wf t"
  shows "distinct (map (\<lambda>rec. rr_id (fst rec)) (run_records t))"
proof -
  have "map (\<lambda>rec. rr_id (fst rec)) (run_records t) = map rr_id (map fst (run_records t))"
    by simp
  then show ?thesis using assms by (simp only: run_records_runs [OF assms] tables_wf_def)
qed

lemma newest_first_distinct:
  "distinct (map (\<lambda>rec. rr_id (fst rec)) recs) \<Longrightarrow>
     distinct (map (\<lambda>rec. rr_id (fst rec)) (newest_first recs))"
  by (simp add: distinct_map newest_first_def)

lemma list_all2_map_eq:
  "list_all2 P xs ys \<Longrightarrow> (\<And>x y. P x y \<Longrightarrow> f x = g y) \<Longrightarrow> map f xs = map g ys"
  by (induction rule: list_all2_induct) auto

lemma distinct_sorted_strict:
  "distinct (map rn_id runs) \<Longrightarrow>
   sorted_wrt (\<lambda>a b. (rn_created_at b, rn_id b) \<le> (rn_created_at a, rn_id a)) runs \<Longrightarrow>
   sorted_wrt newer_run runs"
proof (induction runs)
  case Nil
  then show ?case by simp
next
  case (Cons a runs)
  have "newer_run a b" if "b \<in> set runs" for b
  proof -
    have "(rn_created_at b, rn_id b) \<le> (rn_created_at a, rn_id a)" "rn_id a \<noteq> rn_id b"
      using Cons.prems that by auto
    then show ?thesis by (auto simp: newer_run_def less_prod_def less_eq_prod_def)
  qed
  with Cons show ?case by simp
qed

lemma store_list_runs_Inr:
  assumes inv: "store_inv s" and op: "store_list_runs f s = (Inr runs, s')"
  shows "st_tables s' = st_tables s"
    and "set runs = {r. store_lookup s (rn_id r) = Some r
      \<and> run_matches (trim_space (ff_action_name f)) (trim_space (ff_status f)) r}"
    and "sorted_wrt newer_run runs" and "distinct (map rn_id runs)"
proof -
  let ?name = "trim_space (ff_action_name f)" and ?status = "trim_space (ff_status f)"
  have wf: "tables_wf (st_tables s)" using inv by (simp add: store_inv_def)
  obtain recs where
    ex: "driver_exec (\<lambda>t. Inr (list_query ?name ?status t)) (st_tables s) s = (Inr recs, s')"
    and all: "list_all2 (\<lambda>rec run. run_from_record rec = Inr run) recs runs"
    using op by (auto simp: store_list_runs_def Let_def dest!: runs_from_records_Inr
        split: option.splits if_splits prod.splits sum.splits)
  note ex = driver_exec_Inr [OF ex]
  then show "st_tables s' = st_tables s" by simp
  define P where "P = (\<lambda>rec. (?name = [] \<or> rr_action_name (fst rec) = ?name)
      \<and> (?status = [] \<or> rr_status (fst (rec :: run_record)) = ?status))"
  have recs: "recs = newest_first (filter P (run_records (st_tables s)))"
    using ex by (simp add: list_query_newest_first P_def)
  have in_recs: "rec \<in> set recs \<longleftrightarrow> q_get_run (rr_id (fst rec)) (st_tables s) = Some rec \<and> P rec"
    for rec by (auto simp: recs run_records_iff [OF wf])
  show "set runs = {r. store_lookup s (rn_id r) = Some r \<and> run_matches ?name ?status r}"
  proof (intro set_eqI iffI)
    fix r
    assume "r \<in> set runs"
    then obtain rec where "rec \<in> set recs" "run_from_record rec = Inr r"
      using list_all2_in1 [OF all] by blast
    then show "r \<in> {r. store_lookup s (rn_id r) = Some r \<and> run_matches ?name ?status r}"
      using run_from_record_columns [of rec r]
      by (simp add: in_recs store_lookup_def P_def run_matches_def)
  next
    fix r
    assume r: "r \<in> {r. store_lookup s (rn_id r) = Some r \<and> run_matches ?name ?status r}"
    then obtain rec where rec: "q_get_run (rn_id r) (st_tables s) = Some rec" "run_from_record rec = Inr r"
      by (auto simp: store_lookup_def split: option.splits sum.splits)
    then have "rec \<in> set recs"
      using r run_from_record_columns [OF rec(2)] by (simp add: in_recs P_def run_matches_def)
    then show "r \<in> set runs"
      using list_all2_in2 [OF all] rec(2) by fastforce
  qed
  have ids: "map (\<lambda>rec. rr_id (fst rec)) recs = map rn_id runs"
    and keys: "map (\<lambda>rec. (rr_created_at (fst rec), rr_id (fst rec))) recs
      = map (\<lambda>r. (rn_created_at r, rn_id r)) runs"
    by (rule list_all2_map_eq [OF all], use run_from_record_columns in metis)+
  show distinct: "distinct (map rn_id runs)"
    unfolding ids [symmetric] recs
    by (intro newest_first_distinct distinct_map_filter_fst run_records_distinct wf)
  have "sorted_wrt (\<lambda>a b. b \<le> a) (map (\<lambda>r. (rn_created_at r, rn_id r)) runs)"
    unfolding keys [symmetric] recs using newest_first_sorted by (simp add: sorted_wrt_map)
  then show "sorted_wrt newer_run runs"
    using distinct by (intro distinct_sorted_strict) (simp_all add: sorted_wrt_map)
qed

lemma store_list_runs_tables:
  "store_list_runs f s = (r, s') \<Longrightarrow> st_tables s' = st_tables s"
  by (auto simp: store_list_runs_def Let_def dest: driver_exec_Inl driver_exec_Inr
      split: option.splits if_splits prod.splits sum.splits)

lemma store_list_runs_ok:
  assumes "store_inv s" "st_faults s = []"
    and "trim_space (ff_status f) = [] \<or> validate_run_status (trim_space (ff_status f)) = None"
  obtains runs where "store_list_runs f s = (Inr runs, s)"
proof -
  let ?recs = "list_query (trim_space (ff_action_name f)) (trim_space (ff_status f)) (st_tables s)"
  have "\<not> isl (runs_from_records ?recs)"
    using assms(1) by (intro runs_from_records_total) (auto simp: store_inv_def list_query_newest_first)
  then obtain runs where "runs_from_records ?recs = Inr runs"
    by (cases "runs_from_records ?recs") auto
  then show thesis
    using assms(2,3) by (intro that [of runs]) (auto simp: store_list_runs_def Let_def no_faults)
qed


subsection \<open>ApplyRetention\<close>

lemma store_lookup_row:
  assumes "store_inv s" "store_lookup s i = Some r"
  obtains row where "row \<in> set (db_runs (st_tables s))" "rr_id row = i"
    "rr_status row = rn_status r" "rr_created_at row = rn_created_at r"
proof -
  obtain rec where rec: "q_get_run i (st_tables s) = Some rec" "run_from_record rec = Inr r"
    using assms(2) by (auto simp: store_lookup_def split: option.splits sum.splits)
  have wf: "tables_wf (st_tables s)" using assms(1) by (simp add: store_inv_def)
  have "rec \<in> set (run_records (st_tables s))"
    using rec(1) q_get_run_id [OF rec(1)] by (simp add: run_records_iff [OF wf])
  then have "fst rec \<in> set (map fst (run_records (st_tables s)))" by simp
  then have "fst rec \<in> set (db_runs (st_tables s))" by (simp only: run_records_runs [OF wf])
  then show thesis
    using q_get_run_id [OF rec(1)] run_from_record_columns [OF rec(2)] by (intro that) simp_all
qed

lemma store_row_lookup:
  assumes "store_inv s" "row \<in> set (db_runs (st_tables s))"
  obtains r where "store_lookup s (rr_id row) = Some r"
    "rr_status row = rn_status r" "rr_created_at row = rn_created_at r"
proof -
  have wf: "tables_wf (st_tables s)" using assms(1) by (simp add: store_inv_def)
  have "row \<in> set (map fst (run_records (st_tables s)))"
    using assms(2) by (simp only: run_records_runs [OF wf])
  then obtain sn where "(row, sn) \<in> set (run_records (st_tables s))" by auto
  then have get: "q_get_run (rr_id row) (st_tables s) = Some (row, sn)"
    by (simp add: run_records_iff [OF wf])
  obtain r where "run_from_record (row, sn) = Inr r" "store_lookup s (rr_id row) = Some r"
    using store_inv_decodes [OF assms(1) get] by blast
  then show thesis using run_from_record_columns [of "(row, sn)" r] by (intro that [of r]) simp_all
qed

lemma store_delete:
  assumes inv: "store_inv s" and get: "\<And>i. q_get_run i (st_tables s') = q_get_run i t"
    and wf': "tables_wf (st_tables s') = tables_wf t"
    and t: "t = snd (delete_runs ids (st_tables s))"
  shows "store_inv s'" "store_lookup s' i = (if i \<in> set ids then None else store_lookup s i)"
proof -
  have wf: "tables_wf (st_tables s)" using inv by (simp add: store_inv_def)
  note get' = get [unfolded t q_get_run_delete [OF wf]]
  show "store_inv s'"
  proof (rule store_inv_intro)
    show "tables_wf (st_tables s')" unfolding wf' t by (rule delete_runs_wf [OF wf])
    show "\<exists>run. run_from_record rec = Inr run" if "q_get_run i (st_tables s') = Some rec" for i rec
      using that unfolding get' by (auto split: if_splits elim: store_inv_decodes [OF inv])
  qed
  show "store_lookup s' i = (if i \<in> set ids then None else store_lookup s i)"
    by (simp add: store_lookup_def get')
qed

definition finished_ids :: "store \<Rightarrow> string set" where
  "finished_ids s = {i. \<exists>r. store_lookup s i = Some r \<and> rn_status r \<noteq> run_status_running}"

lemma prunable_ids:
  assumes "store_inv s"
  shows "rr_id ` set (prunable_newest_first run_status_running (st_tables s)) = finished_ids s"
    and "distinct (map rr_id (prunable_newest_first run_status_running (st_tables s)))"
proof -
  show "rr_id ` set (prunable_newest_first run_status_running (st_tables s)) = finished_ids s"
  proof (intro set_eqI iffI)
    fix i
    assume "i \<in> rr_id ` set (prunable_newest_first run_status_running (st_tables s))"
    then show "i \<in> finished_ids s"
      by (auto simp: prunable_newest_first_def finished_ids_def elim: store_row_lookup [OF assms])
  next
    fix i
    assume "i \<in> finished_ids s"
    then obtain r where "store_lookup s i = Some r" "rn_status r \<noteq> run_status_running"
      by (auto simp: finished_ids_def)
    then show "i \<in> rr_id ` set (prunable_newest_first run_status_running (st_tables s))"
      by (auto simp: prunable_newest_first_def elim!: store_lookup_row [OF assms])
  qed
  have "distinct (map rr_id (db_runs (st_tables s)))"
    using assms by (simp add: store_inv_def tables_wf_def)
  then show "distinct (map rr_id (prunable_newest_first run_status_running (st_tables s)))"
    by (simp add: prunable_newest_first_def distinct_map inj_on_def)
qed

lemma prunable_sorted:
  "sorted_wrt (\<lambda>a b. (rr_created_at b, rr_id b) \<le> (rr_created_at a, rr_id a))
     (prunable_newest_first st t)"
proof -
  let ?k = "\<lambda>r :: run_row. (rr_created_at r, rr_id r)"
  have "sorted_wrt (\<lambda>a b. ?k a \<le> ?k b) (sort_key ?k (filter (\<lambda>r. rr_status r \<noteq> st) (db_runs t)))"
    using sorted_sort_key [of ?k] by (simp only: sorted_map)
  then show ?thesis by (simp add: prunable_newest_first_def sorted_wrt_rev)
qed

lemma sorted_wrt_take_drop:
  "sorted_wrt P xs \<Longrightarrow> x \<in> set (take n xs) \<Longrightarrow> y \<in> set (drop n xs) \<Longrightarrow> P x y"
  by (metis append_take_drop_id sorted_wrt_append)

text \<open>The rows the count limit deletes and those it keeps.\<close>

lemma overflow_split:
  assumes inv: "store_inv s"
  defines "xs \<equiv> prunable_newest_first run_status_running (st_tables s)"
  shows "set (map rr_id (drop n xs)) \<subseteq> finished_ids s"
    and "finished_ids s - set (map rr_id (drop n xs)) = set (map rr_id (take n xs))"
    and "card (set (map rr_id (take n xs))) = min (length xs) n"
proof -
  note ids = prunable_ids [OF inv, folded xs_def]
  have split: "xs = take n xs @ drop n xs" by simp
  have d: "distinct (map rr_id (take n xs) @ map rr_id (drop n xs))"
    using ids(2) by (simp only: map_append [symmetric] append_take_drop_id)
  have "set (map rr_id (take n xs)) \<union> set (map rr_id (drop n xs)) = finished_ids s"
    unfolding ids(1) [symmetric] set_map
    by (simp only: image_Un [symmetric] set_append [symmetric] append_take_drop_id)
  with d show "set (map rr_id (drop n xs)) \<subseteq> finished_ids s"
      "finished_ids s - set (map rr_id (drop n xs)) = set (map rr_id (take n xs))"
    by auto
  have "distinct (map rr_id (take n xs))" using d by simp
  then show "card (set (map rr_id (take n xs))) = min (length xs) n"
    by (simp only: distinct_card length_map length_take)
qed

lemma overflow_older:
  assumes inv: "store_inv s"
    and "i \<in> set (map rr_id (drop n (prunable_newest_first run_status_running (st_tables s))))"
    and "k \<in> set (map rr_id (take n (prunable_newest_first run_status_running (st_tables s))))"
    and "store_lookup s i = Some ri" "store_lookup s k = Some rk"
  shows "newer_run rk ri"
proof -
  let ?xs = "prunable_newest_first run_status_running (st_tables s)"
  obtain a b where a: "a \<in> set (take n ?xs)" "k = rr_id a" and b: "b \<in> set (drop n ?xs)" "i = rr_id b"
    using assms(2,3) by auto
  have "a \<in> set (db_runs (st_tables s))" "b \<in> set (db_runs (st_tables s))"
    using a(1) b(1) by (auto simp: prunable_newest_first_def dest!: in_set_takeD in_set_dropD)
  then have "rn_created_at rk = rr_created_at a" "rn_created_at ri = rr_created_at b"
    using assms(4,5) a(2) b(2) by (auto elim: store_row_lookup [OF inv])
  moreover have "(rr_created_at b, rr_id b) \<le> (rr_created_at a, rr_id a)"
    using sorted_wrt_take_drop [OF prunable_sorted a(1) b(1)] .
  moreover have "rr_id a \<noteq> rr_id b"
  proof -
    have "distinct (map rr_id (take n ?xs) @ map rr_id (drop n ?xs))"
      using prunable_ids(2) [OF inv] by (simp only: map_append [symmetric] append_take_drop_id)
    with a(1) b(1) show ?thesis by auto
  qed
  ultimately show ?thesis
    using store_lookup_id [OF assms(4)] store_lookup_id [OF assms(5)] a(2) b(2)
    by (auto simp: newer_run_def less_prod_def less_eq_prod_def)
qed


text \<open>The operation as two deletions of ids, and the metadata written last.\<close>

definition aged_ids :: "time \<Rightarrow> retention_policy \<Rightarrow> tables \<Rightarrow> string list" where
  "aged_ids now p t =
     (if rp_max_age p > 0
      then map rr_id (filter (\<lambda>r. rr_status r \<noteq> run_status_running
             \<and> rr_created_at r < unix_nano (now + wrap64 (- rp_max_age p))) (db_runs t))
      else [])"

definition overflow_ids :: "retention_policy \<Rightarrow> tables \<Rightarrow> string list" where
  "overflow_ids p t =
     (if rp_max_runs p > 0
      then map rr_id (drop (nat (rp_max_runs p)) (prunable_newest_first run_status_running t))
      else [])"

lemma delete_no_runs: "delete_runs [] t = (0, t)"
  by (simp add: delete_runs_def)

lemma prune_step_Inr:
  "prune_step b f t s = (Inr x, s') \<Longrightarrow>
     x = (if b then f t else (0, t)) \<and> st_tables s' = st_tables s"
  by (auto simp: prune_step_def dest: driver_exec_Inr split: if_splits)

lemma prune_step_Inl: "prune_step b f t s = (Inl d, s') \<Longrightarrow> st_tables s' = st_tables s"
  by (auto simp: prune_step_def dest: driver_exec_Inl split: if_splits)

lemma store_apply_retention_Inl:
  "store_apply_retention now p s = (Inl e, s') \<Longrightarrow> st_tables s' = st_tables s"
  by (auto simp: store_apply_retention_def store_set_metadata_def
      dest!: driver_call_tables driver_exec_Inl driver_exec_Inr prune_step_Inl prune_step_Inr
      split: if_splits prod.splits sum.splits option.splits)

lemma store_apply_retention_Inr:
  assumes "store_apply_retention now p s = (Inr res, s')"
  shows "\<exists>t2 t3. t2 = snd (delete_runs (aged_ids now p (st_tables s)) (st_tables s))
    \<and> t3 = snd (delete_runs (overflow_ids p t2) t2)
    \<and> st_tables s' = q_set_metadata retention_last_pruned_at_key (format_int (unix_nano now)) t3
    \<and> res = \<lparr>rs_deleted_runs = fst (delete_runs (aged_ids now p (st_tables s)) (st_tables s))
                + fst (delete_runs (overflow_ids p t2) t2), rs_pruned_at = now\<rparr>
    \<and> 0 \<le> rp_max_age p \<and> 0 \<le> rp_max_runs p"
proof -
  have age: "(if 0 < rp_max_age p then q_delete_runs_older_than run_status_running
      (unix_nano (now + wrap64 (- rp_max_age p))) t else (0, t))
      = delete_runs (aged_ids now p t) t" for t
    by (simp add: aged_ids_def q_delete_runs_older_than_def delete_no_runs)
  have count: "(if 0 < rp_max_runs p then q_delete_runs_overflow run_status_running
      (rp_max_runs p) t else (0, t)) = delete_runs (overflow_ids p t) t" for t
    by (simp add: overflow_ids_def q_delete_runs_overflow_def delete_no_runs)
  obtain s1 where 1: "driver_call s = (None, s1)" "0 \<le> rp_max_age p" "0 \<le> rp_max_runs p"
    using assms by (auto simp: store_apply_retention_def split: if_splits prod.splits option.splits)
  obtain n2 t2 s2 where 2: "prune_step (rp_max_age p > 0)
          (q_delete_runs_older_than run_status_running
             (unix_nano (now + wrap64 (- rp_max_age p)))) (st_tables s1) s1 = (Inr (n2, t2), s2)"
    using assms 1 by (auto simp: store_apply_retention_def split: prod.splits sum.splits)
  obtain n3 t3 s3 where 3: "prune_step (rp_max_runs p > 0)
          (q_delete_runs_overflow run_status_running (rp_max_runs p)) t2 s2 = (Inr (n3, t3), s3)"
    using assms 1 2 by (auto simp: store_apply_retention_def split: prod.splits sum.splits)
  obtain t4 s4 where 4: "store_set_metadata retention_last_pruned_at_key
          (format_int (unix_nano now)) t3 s3 = (Inr t4, s4)"
    using assms 1 2 3 by (auto simp: store_apply_retention_def split: prod.splits sum.splits)
  have 5: "res = \<lparr>rs_deleted_runs = n2 + n3, rs_pruned_at = now\<rparr>" "st_tables s' = t4"
    using assms 1 2 3 4
    by (auto simp: store_apply_retention_def split: prod.splits sum.splits option.splits)
  have "(n2, t2) = delete_runs (aged_ids now p (st_tables s)) (st_tables s)"
    using prune_step_Inr [OF 2] driver_call_tables [OF 1(1)] by (simp only: age)
  moreover have "(n3, t3) = delete_runs (overflow_ids p t2) t2"
    using prune_step_Inr [OF 3] by (simp only: count)
  moreover have "t4 = q_set_metadata retention_last_pruned_at_key (format_int (unix_nano now)) t3"
    using 4 by (auto simp: store_set_metadata_def dest: driver_exec_Inr)
  ultimately show ?thesis using 1(2,3) 5 by (metis fst_conv snd_conv)
qed


definition retention_cutoff :: "time \<Rightarrow> retention_policy \<Rightarrow> time" where
  "retention_cutoff now p = unix_nano (now + wrap64 (- rp_max_age p))"

definition run_aged :: "time \<Rightarrow> retention_policy \<Rightarrow> run \<Rightarrow> bool" where
  "run_aged now p r \<longleftrightarrow> rp_max_age p > 0 \<and> rn_status r \<noteq> run_status_running
     \<and> rn_created_at r < retention_cutoff now p"

lemma aged_ids_iff:
  assumes "store_inv s"
  shows "i \<in> set (aged_ids now p (st_tables s)) \<longleftrightarrow>
    (\<exists>r. store_lookup s i = Some r \<and> run_aged now p r)"
proof
  assume "i \<in> set (aged_ids now p (st_tables s))"
  then show "\<exists>r. store_lookup s i = Some r \<and> run_aged now p r"
    by (auto simp: aged_ids_def run_aged_def retention_cutoff_def split: if_splits
        elim: store_row_lookup [OF assms])
next
  assume "\<exists>r. store_lookup s i = Some r \<and> run_aged now p r"
  then show "i \<in> set (aged_ids now p (st_tables s))"
    by (auto simp: aged_ids_def run_aged_def retention_cutoff_def
        elim!: store_lookup_row [OF assms])
qed

lemma delete_runs_count:
  assumes "store_inv s" "set ids \<subseteq> dom (store_lookup s)"
  shows "fst (delete_runs ids (st_tables s)) = card (set ids)"
proof -
  have wf: "distinct (map rr_id (db_runs (st_tables s)))"
    using assms(1) by (simp add: store_inv_def tables_wf_def)
  have sub: "set ids \<subseteq> rr_id ` set (db_runs (st_tables s))"
    using assms(2) by (auto elim!: store_lookup_row [OF assms(1)])
  have "set (map rr_id (filter (\<lambda>r. rr_id r \<in> set ids) (db_runs (st_tables s)))) = set ids"
    using sub by auto
  moreover have "distinct (map rr_id (filter (\<lambda>r. rr_id r \<in> set ids) (db_runs (st_tables s))))"
    using wf by (rule distinct_map_filter_fst)
  ultimately have "card (set ids)
      = length (map rr_id (filter (\<lambda>r. rr_id r \<in> set ids) (db_runs (st_tables s))))"
    using distinct_card by metis
  then show ?thesis by (simp add: delete_runs_def)
qed

lemma set_metadata_get [simp]:
  "q_get_run i (q_set_metadata k v t) = q_get_run i t"
  "tables_wf (q_set_metadata k v t) = tables_wf t"
  by (simp_all add: q_set_metadata_def q_get_run_def run_records_def tables_wf_def)

text \<open>What the two deletions leave, by id.\<close>

lemma store_retention_lookup:
  assumes inv: "store_inv s" and op: "store_apply_retention now p s = (Inr res, s')"
  obtains s2 where
    "store_inv s2" "store_inv s'" "0 \<le> rp_max_runs p"
    "\<And>i. store_lookup s2 i =
      (if i \<in> set (aged_ids now p (st_tables s)) then None else store_lookup s i)"
    "\<And>i. store_lookup s' i =
      (if i \<in> set (overflow_ids p (st_tables s2)) then None else store_lookup s2 i)"
    "rs_deleted_runs res = card (set (aged_ids now p (st_tables s)))
      + card (set (overflow_ids p (st_tables s2)))"
    "q_get_metadata retention_last_pruned_at_key (st_tables s') = Some (format_int (unix_nano now))"
    "rs_pruned_at res = now"
proof -
  obtain t2 t3 where t2: "t2 = snd (delete_runs (aged_ids now p (st_tables s)) (st_tables s))"
    and t3: "t3 = snd (delete_runs (overflow_ids p t2) t2)"
    and s': "st_tables s' = q_set_metadata retention_last_pruned_at_key
        (format_int (unix_nano now)) t3"
    and res: "res = \<lparr>rs_deleted_runs = fst (delete_runs (aged_ids now p (st_tables s)) (st_tables s))
                + fst (delete_runs (overflow_ids p t2) t2), rs_pruned_at = now\<rparr>"
    and runs: "0 \<le> rp_max_runs p"
    using store_apply_retention_Inr [OF op] by metis
  let ?s2 = "s\<lparr>st_tables := t2\<rparr>"
  have tables: "st_tables ?s2 = t2" by simp
  note d2 = store_delete [OF inv, of ?s2 t2, unfolded tables, OF refl refl t2]
  have t3': "t3 = snd (delete_runs (overflow_ids p t2) (st_tables ?s2))" by (simp add: t3)
  note d3 = store_delete [OF d2(1), of s' t3, unfolded s' set_metadata_get, OF refl refl t3']
  have "set (aged_ids now p (st_tables s)) \<subseteq> dom (store_lookup s)"
    using aged_ids_iff [OF inv] by blast
  note c1 = delete_runs_count [OF inv this]
  have "set (overflow_ids p t2) \<subseteq> finished_ids ?s2"
    using overflow_split(1) [OF d2(1), unfolded tables]
    by (cases "0 < rp_max_runs p") (simp_all add: overflow_ids_def)
  then have "set (overflow_ids p t2) \<subseteq> dom (store_lookup ?s2)"
    by (auto simp: finished_ids_def)
  note c2 = delete_runs_count [OF d2(1) this, unfolded tables]
  show thesis
  proof (rule that [of ?s2, unfolded tables])
    show "q_get_metadata retention_last_pruned_at_key (st_tables s') = Some (format_int (unix_nano now))"
      by (simp add: s' q_get_metadata_def q_set_metadata_def update_Some_unfold)
  qed (use d2 d3 runs c1 c2 res in \<open>simp_all\<close>)
qed


text \<open>The facts about the count limit, with the policy's number of runs.\<close>

lemma overflow_kept:
  assumes inv: "store_inv s" and pos: "0 < rp_max_runs p"
  shows "set (overflow_ids p (st_tables s)) \<subseteq> finished_ids s"
    and "int (card (finished_ids s - set (overflow_ids p (st_tables s)))) \<le> rp_max_runs p"
    and "overflow_ids p (st_tables s) \<noteq> [] \<Longrightarrow>
      int (card (finished_ids s - set (overflow_ids p (st_tables s)))) = rp_max_runs p"
    and "i \<in> set (overflow_ids p (st_tables s)) \<Longrightarrow>
      k \<in> finished_ids s - set (overflow_ids p (st_tables s)) \<Longrightarrow>
      store_lookup s i = Some ri \<Longrightarrow> store_lookup s k = Some rk \<Longrightarrow> newer_run rk ri"
proof -
  have ids: "overflow_ids p (st_tables s) = map rr_id (drop (nat (rp_max_runs p))
      (prunable_newest_first run_status_running (st_tables s)))"
    using pos by (simp add: overflow_ids_def)
  note sp = overflow_split [OF inv, of "nat (rp_max_runs p)", folded ids]
  show "set (overflow_ids p (st_tables s)) \<subseteq> finished_ids s" by (rule sp(1))
  show "int (card (finished_ids s - set (overflow_ids p (st_tables s)))) \<le> rp_max_runs p"
    unfolding sp(2,3) using pos by simp
  show "int (card (finished_ids s - set (overflow_ids p (st_tables s)))) = rp_max_runs p"
    if "overflow_ids p (st_tables s) \<noteq> []"
    using that pos unfolding sp(2,3) unfolding ids by simp
  show "newer_run rk ri"
    if "i \<in> set (overflow_ids p (st_tables s))"
      "k \<in> finished_ids s - set (overflow_ids p (st_tables s))"
      "store_lookup s i = Some ri" "store_lookup s k = Some rk"
    using overflow_older [OF inv, of i "nat (rp_max_runs p)" k] that
    unfolding ids [symmetric] sp(2) by blast
qed

lemma overflow_off: "\<not> 0 < rp_max_runs p \<Longrightarrow> overflow_ids p t = []"
  by (simp add: overflow_ids_def)

lemma retention_facts:
  assumes inv: "store_inv s" and op: "store_apply_retention now p s = (Inr res, s')"
  shows "store_inv s'"
    and "store_lookup s' i = Some r \<Longrightarrow> store_lookup s i = Some r \<and> \<not> run_aged now p r"
    and "store_lookup s i = Some r \<Longrightarrow> rn_status r = run_status_running \<Longrightarrow>
      store_lookup s' i = Some r"
    and "0 < rp_max_runs p \<Longrightarrow> int (card (finished_ids s')) \<le> rp_max_runs p"
    and "store_lookup s i = Some r \<Longrightarrow> store_lookup s' i = None \<Longrightarrow> \<not> run_aged now p r \<Longrightarrow>
      0 < rp_max_runs p \<and> int (card (finished_ids s')) = rp_max_runs p"
    and "store_lookup s i = Some r \<Longrightarrow> store_lookup s' i = None \<Longrightarrow>
      store_lookup s' k = Some rk \<Longrightarrow> rn_status rk \<noteq> run_status_running \<Longrightarrow> newer_run rk r"
    and "rs_deleted_runs res = card (dom (store_lookup s) - dom (store_lookup s'))"
proof -
  obtain s2 where inv2: "store_inv s2" and inv': "store_inv s'" and nn: "0 \<le> rp_max_runs p"
    and l2: "\<And>i. store_lookup s2 i =
      (if i \<in> set (aged_ids now p (st_tables s)) then None else store_lookup s i)"
    and l': "\<And>i. store_lookup s' i =
      (if i \<in> set (overflow_ids p (st_tables s2)) then None else store_lookup s2 i)"
    and del: "rs_deleted_runs res = card (set (aged_ids now p (st_tables s)))
      + card (set (overflow_ids p (st_tables s2)))"
    by (rule store_retention_lookup [OF inv op]) (rule that; assumption)
  let ?a = "set (aged_ids now p (st_tables s))" and ?o = "set (overflow_ids p (st_tables s2))"
  note aged = aged_ids_iff [OF inv, of _ now p]
  have o_fin: "?o \<subseteq> finished_ids s2"
    using overflow_kept(1) [OF inv2] overflow_off [of p] by (cases "0 < rp_max_runs p") auto
  have fin': "finished_ids s' = finished_ids s2 - ?o"
    by (auto simp: finished_ids_def l')
  show "store_inv s'" by (rule inv')
  show "store_lookup s i = Some r \<and> \<not> run_aged now p r" if "store_lookup s' i = Some r"
    using that aged [of i] by (auto simp: l' l2 split: if_splits)
  show "store_lookup s' i = Some r"
    if "store_lookup s i = Some r" "rn_status r = run_status_running"
    using that aged [of i] o_fin by (auto simp: l' l2 finished_ids_def run_aged_def)
  show "int (card (finished_ids s')) \<le> rp_max_runs p" if "0 < rp_max_runs p"
    unfolding fin' by (rule overflow_kept(2) [OF inv2 that])
  show "0 < rp_max_runs p \<and> int (card (finished_ids s')) = rp_max_runs p"
    if "store_lookup s i = Some r" "store_lookup s' i = None" "\<not> run_aged now p r"
  proof -
    have "i \<in> ?o" using that aged [of i] by (auto simp: l' l2 split: if_splits)
    then have "0 < rp_max_runs p" "overflow_ids p (st_tables s2) \<noteq> []"
      using overflow_off [of p] by fastforce+
    then show ?thesis unfolding fin' using overflow_kept(3) [OF inv2] by blast
  qed
  show "newer_run rk r"
    if gone: "store_lookup s i = Some r" "store_lookup s' i = None"
      and kept: "store_lookup s' k = Some rk" "rn_status rk \<noteq> run_status_running"
  proof (cases "i \<in> ?a")
    case True
    then have "run_aged now p r" using aged [of i] gone(1) by auto
    moreover have "\<not> run_aged now p rk"
      using kept(1) aged [of k] by (auto simp: l' l2 split: if_splits)
    ultimately show ?thesis
      using kept(2) by (auto simp: run_aged_def newer_run_def)
  next
    case False
    with gone have i: "i \<in> ?o" "store_lookup s2 i = Some r" by (auto simp: l' l2 split: if_splits)
    have k: "k \<in> finished_ids s2 - ?o" "store_lookup s2 k = Some rk"
      using kept by (auto simp: l' finished_ids_def split: if_splits)
    have "0 < rp_max_runs p" using i(1) overflow_off [of p] by fastforce
    then show ?thesis using overflow_kept(4) [OF inv2 _ i(1) k(1) i(2) k(2)] by simp
  qed
  have "dom (store_lookup s) - dom (store_lookup s') = ?a \<union> ?o"
    using o_fin aged by (auto simp: l' l2 finished_ids_def split: if_splits)
  moreover have "?a \<inter> ?o = {}"
    using o_fin by (auto simp: finished_ids_def l2)
  ultimately show "rs_deleted_runs res = card (dom (store_lookup s) - dom (store_lookup s'))"
    using del by (simp add: card_Un_disjoint)
qed


subsection \<open>LastRetentionPruneAt\<close>

lemma store_apply_retention_ok:
  assumes "st_faults s = []" "0 \<le> rp_max_age p" "0 \<le> rp_max_runs p"
  obtains res s' where "store_apply_retention now p s = (Inr res, s')" "st_faults s' = []"
proof -
  have prune: "prune_step b f t s = (Inr (if b then f t else (0, t)), s)" for b f t
    using assms(1) by (simp add: prune_step_def no_faults)
  have "\<exists>res s'. store_apply_retention now p s = (Inr res, s') \<and> st_faults s' = []"
    using assms
    by (simp add: store_apply_retention_def no_faults prune store_set_metadata_def split_beta)
  then show thesis using that by blast
qed

lemma store_last_prune_after:
  assumes "store_inv s" "store_apply_retention now p s = (Inr res, s')" "int64_range now"
    and "st_faults s' = []"
  shows "store_last_retention_prune_at s' = (Inr (Some now), s')"
proof -
  have "q_get_metadata retention_last_pruned_at_key (st_tables s') = Some (format_int (unix_nano now))"
    by (rule store_retention_lookup [OF assms(1,2)])
  then show ?thesis
    using assms(3,4)
    by (simp add: store_last_retention_prune_at_def store_get_metadata_def no_faults
        parse_format_int unix_nano_def wrap64_id time_unix_nano_def)
qed

end
