(* ===== verification/Run_Store.thy ===== *)
theory Run_Store
  imports Store_Queries
begin

section \<open>The run store as its clients see it\<close>

text \<open>
  The Go interfaces \<open>runStore\<close> (\<open>internal/execution/service.go\<close>) and \<open>runReader\<close>
  (\<open>internal/httpapi/server.go\<close>) as a record of operations, and as two locales that state what
  the clients rely on, in terms of the map from ids to runs that a store stands for. \<open>Store\<close>
  implements both: it is the interpretation at the end.
\<close>

record 's run_store_ops =
  op_create_run :: "create_run_params \<Rightarrow> 's \<Rightarrow> (go_error + run) \<times> 's"
  op_update_run :: "update_run_params \<Rightarrow> 's \<Rightarrow> go_error option \<times> 's"
  op_get_run :: "string \<Rightarrow> 's \<Rightarrow> (go_error + run) \<times> 's"
  op_list_runs :: "run_filter \<Rightarrow> 's \<Rightarrow> (go_error + run list) \<times> 's"

definition filter_accepts :: "run_filter \<Rightarrow> run \<Rightarrow> bool" where
  "filter_accepts f r = run_matches (trim_space (ff_action_name f)) (trim_space (ff_status f)) r"

locale run_reader =
  fixes get :: "string \<Rightarrow> 's \<Rightarrow> (go_error + run) \<times> 's"
    and list :: "run_filter \<Rightarrow> 's \<Rightarrow> (go_error + run list) \<times> 's"
    and lookup :: "'s \<Rightarrow> string \<Rightarrow> run option"
    and inv :: "'s \<Rightarrow> bool"
  assumes lookup_id: "inv s \<Longrightarrow> lookup s i = Some run \<Longrightarrow> rn_id run = i"
    and get_keeps: "inv s \<Longrightarrow> get i s = (r, s') \<Longrightarrow> inv s' \<and> lookup s' = lookup s"
    and get_found: "inv s \<Longrightarrow> get i s = (Inr run, s') \<Longrightarrow> lookup s i = Some run"
    and list_keeps: "inv s \<Longrightarrow> list f s = (r', s') \<Longrightarrow> inv s' \<and> lookup s' = lookup s"
    and list_found: "inv s \<Longrightarrow> list f s = (Inr runs, s') \<Longrightarrow>
      set runs = {run. lookup s (rn_id run) = Some run \<and> filter_accepts f run}
      \<and> sorted_wrt newer_run runs \<and> distinct (map rn_id runs)"

locale run_store = run_reader "op_get_run ops" "op_list_runs ops" lookup inv
  for ops :: "'s run_store_ops" and lookup :: "'s \<Rightarrow> string \<Rightarrow> run option" and inv :: "'s \<Rightarrow> bool" +
  assumes create_stored: "inv s \<Longrightarrow> op_create_run ops p s = (Inr run, s') \<Longrightarrow>
      inv s' \<and> lookup s (cp_id p) = None \<and> lookup s' = (lookup s)(cp_id p \<mapsto> run)
      \<and> rn_id run = cp_id p \<and> rn_status run = cp_status p
      \<and> rn_action_name run = cp_action_name p"
    and create_failed: "inv s \<Longrightarrow> op_create_run ops p s = (Inl e, s') \<Longrightarrow>
      inv s' \<and> (\<forall>i. i \<noteq> cp_id p \<longrightarrow> lookup s' i = lookup s i)
      \<and> (lookup s (cp_id p) \<noteq> None \<longrightarrow> lookup s' = lookup s)"
    and update_stored: "inv s \<Longrightarrow> op_update_run ops u s = (None, s') \<Longrightarrow>
      inv s' \<and> (\<exists>run. lookup s (up_id u) = Some run
        \<and> lookup s' = (lookup s)(up_id u \<mapsto> updated_run u run))"
    and update_failed: "inv s \<Longrightarrow> op_update_run ops u s = (Some e, s') \<Longrightarrow>
      inv s' \<and> lookup s' = lookup s"
begin

text \<open>Whatever an operation answers, only the run it names can change.\<close>

lemma create_frame:
  assumes "inv s" "op_create_run ops p s = (res, s')"
  shows "inv s'" "i \<noteq> cp_id p \<Longrightarrow> lookup s' i = lookup s i"
proof -
  have "inv s' \<and> (i \<noteq> cp_id p \<longrightarrow> lookup s' i = lookup s i)"
  proof (cases res)
    case (Inl e)
    then show ?thesis using create_failed assms by blast
  next
    case (Inr run)
    then show ?thesis using create_stored assms by fastforce
  qed
  then show "inv s'" "i \<noteq> cp_id p \<Longrightarrow> lookup s' i = lookup s i" by simp_all
qed

lemma update_frame:
  assumes "inv s" "op_update_run ops u s = (res, s')"
  shows "inv s'" "i \<noteq> up_id u \<Longrightarrow> lookup s' i = lookup s i" "dom (lookup s') = dom (lookup s)"
proof -
  have "inv s' \<and> (i \<noteq> up_id u \<longrightarrow> lookup s' i = lookup s i) \<and> dom (lookup s') = dom (lookup s)"
  proof (cases res)
    case (Some e)
    then show ?thesis using update_failed assms by metis
  next
    case None
    then obtain run where "inv s'" "lookup s (up_id u) = Some run"
        "lookup s' = (lookup s)(up_id u \<mapsto> updated_run u run)"
      using update_stored assms by blast
    then show ?thesis by auto
  qed
  then show "inv s'" "i \<noteq> up_id u \<Longrightarrow> lookup s' i = lookup s i" "dom (lookup s') = dom (lookup s)"
    by simp_all
qed

end

subsection \<open>The SQLite store implements the interface\<close>

text \<open>\<open>now\<close> is what \<open>time.Now\<close> shows, which \<open>CreateRun\<close> uses when it is given no time.\<close>

definition store_ops :: "time \<Rightarrow> store run_store_ops" where
  "store_ops now =
     \<lparr>op_create_run = store_create_run now, op_update_run = store_update_run,
      op_get_run = store_get_run, op_list_runs = store_list_runs\<rparr>"

lemma store_ops_simps [simp]:
  "op_create_run (store_ops now) = store_create_run now"
  "op_update_run (store_ops now) = store_update_run"
  "op_get_run (store_ops now) = store_get_run"
  "op_list_runs (store_ops now) = store_list_runs"
  by (simp_all add: store_ops_def)

interpretation store_reader: run_reader store_get_run store_list_runs store_lookup store_inv
proof (unfold_locales, goal_cases)
  case (1 s i run)
  then show ?case by (blast intro: store_lookup_id)
next
  case (2 s i r s')
  then show ?case
    using store_get_run_tables [of i s r s'] store_inv_tables store_lookup_tables by metis
next
  case (3 s i run s')
  then show ?case by (blast intro: store_get_run_Inr)
next
  case (4 s f r s')
  then show ?case
    using store_list_runs_tables [of f s r s'] store_inv_tables store_lookup_tables by metis
next
  case (5 s f runs s')
  then show ?case
    using store_list_runs_Inr [of s f runs s'] by (simp add: filter_accepts_def)
qed

lemma created_run_columns [simp]:
  "rn_id (created_run now p) = cp_id p" "rn_status (created_run now p) = cp_status p"
  "rn_action_name (created_run now p) = cp_action_name p"
  by (simp_all add: created_run_def)

interpretation sqlite: run_store "store_ops now" store_lookup store_inv for now
proof (unfold_locales, unfold store_ops_simps, goal_cases)
  case (1 s i run)
  then show ?case by (rule store_reader.lookup_id)
next
  case (2 s i r s')
  then show ?case using store_reader.get_keeps by blast
next
  case (3 s i run s')
  then show ?case using store_reader.get_found by blast
next
  case (4 s f r s')
  then show ?case using store_reader.list_keeps by blast
next
  case (5 s f runs s')
  then show ?case using store_reader.list_found by blast
next
  case (6 s p run s')
  then show ?case using store_create_run_Inr [of s now p run s'] created_run_columns by metis
next
  case (7 s p e s')
  then show ?case using store_create_run_Inl [of s now p e s'] by (auto simp: fun_eq_iff)
next
  case (8 s u s')
  then show ?case by (auto elim: store_update_run_cases)
next
  case (9 s u e s')
  then show ?case by (auto elim: store_update_run_cases)
qed

end
