(* ===== verification/Sqlite.thy ===== *)
theory Sqlite
  imports Run_Store
begin

section \<open>Opening the store\<close>

text \<open>
  \<open>internal/storage/sqlite.go\<close>: the path of the database file, its data source name and the
  steps of \<open>Open\<close>. The path and URL functions of Go's standard library are written out for
  Unix; what the file system and the SQL driver answer is a parameter.
\<close>

subsection \<open>path/filepath\<close>

fun split_slash :: "string \<Rightarrow> string list" where
  "split_slash [] = [[]]"
| "split_slash (c # s) =
     (if c = CHR ''/'' then [] # split_slash s
      else case split_slash s of [] \<Rightarrow> [[c]] | w # ws \<Rightarrow> (c # w) # ws)"

text \<open>The elements of a path with \<open>.\<close> and inner \<open>..\<close> resolved; the stack is reversed.\<close>

fun clean_pieces :: "bool \<Rightarrow> string list \<Rightarrow> string list \<Rightarrow> string list" where
  "clean_pieces rooted stk [] = rev stk"
| "clean_pieces rooted stk (w # ws) =
     (if w = [] \<or> w = ''.'' then clean_pieces rooted stk ws
      else if w = ''..'' then
        (case stk of
           [] \<Rightarrow> clean_pieces rooted (if rooted then [] else [''..'']) ws
         | w' # rest \<Rightarrow>
             if w' = ''..'' then clean_pieces rooted (''..'' # stk) ws
             else clean_pieces rooted rest ws)
      else clean_pieces rooted (w # stk) ws)"

definition filepath_is_abs :: "string \<Rightarrow> bool" where
  "filepath_is_abs p = (case p of [] \<Rightarrow> False | c # _ \<Rightarrow> c = CHR ''/'')"

definition filepath_clean :: "string \<Rightarrow> string" where
  "filepath_clean p =
     (let out = strings_join (clean_pieces (filepath_is_abs p) [] (split_slash p)) ''/''
      in if filepath_is_abs p then ''/'' @ out else if out = [] then ''.'' else out)"

definition filepath_abs :: "go_error + string \<Rightarrow> string \<Rightarrow> go_error + string" where
  "filepath_abs getwd p =
     (if filepath_is_abs p then Inr (filepath_clean p)
      else case getwd of
          Inl e \<Rightarrow> Inl e
        | Inr wd \<Rightarrow> Inr (filepath_clean (if wd = [] then p else wd @ ''/'' @ p)))"

definition filepath_dir :: "string \<Rightarrow> string" where
  "filepath_dir p = filepath_clean (rev (dropWhile (\<lambda>c. c \<noteq> CHR ''/'') (rev p)))"

subsection \<open>net/url\<close>

definition is_unreserved :: "char \<Rightarrow> bool" where
  "is_unreserved c \<longleftrightarrow>
     is_digit c \<or> (65 \<le> byte_of c \<and> byte_of c \<le> 90) \<or> (97 \<le> byte_of c \<and> byte_of c \<le> 122)
     \<or> c \<in> set ''-_.~''"

definition path_safe :: "char \<Rightarrow> bool" where
  "path_safe c \<longleftrightarrow> is_unreserved c \<or> c \<in> set ''$&+,/:;=@''"

definition upper_hex :: "nat \<Rightarrow> char" where
  "upper_hex d = (if d < 10 then char_of (48 + d) else char_of (55 + d))"

definition percent_byte :: "char \<Rightarrow> string" where
  "percent_byte c = [CHR ''%'', upper_hex (byte_of c div 16), upper_hex (byte_of c mod 16)]"

definition url_escape_path :: "string \<Rightarrow> string" where
  "url_escape_path s = concat (map (\<lambda>c. if path_safe c then [c] else percent_byte c) s)"

definition query_escape :: "string \<Rightarrow> string" where
  "query_escape s =
     concat (map (\<lambda>c. if is_unreserved c then [c] else if c = CHR '' '' then ''+'' else percent_byte c) s)"

text \<open>\<open>Values.Encode\<close> for the values of one key, in the order they were added.\<close>

definition encode_values :: "string \<Rightarrow> string list \<Rightarrow> string" where
  "encode_values key vs = strings_join (map (\<lambda>v. query_escape key @ ''='' @ query_escape v) vs) ''&''"

subsection \<open>The data source name\<close>

definition sqlite_pragmas :: "string list" where
  "sqlite_pragmas = [''busy_timeout(5000)'', ''journal_mode(WAL)'', ''foreign_keys(ON)'']"

definition sqlite_dsn :: "string \<Rightarrow> string" where
  "sqlite_dsn path =
     ''file://'' @ url_escape_path path @ ''?'' @ encode_values ''_pragma'' sqlite_pragmas"

subsection \<open>Open\<close>

text \<open>
  What the file system and the driver answer, and the tables that the opened database has once
  the schema is there.
\<close>

record sqlite_host =
  sq_getwd :: "go_error + string"
  sq_mkdir_all :: "string \<Rightarrow> go_error option"
  sq_open :: "string \<Rightarrow> go_error option"
  sq_ping :: "go_error option"
  sq_begin :: "go_error option"
  sq_exec_schema :: "go_error option"
  sq_commit :: "go_error option"
  sq_close :: "go_error option"
  sq_database :: "string \<Rightarrow> store"

record sqlite_store =
  ss_db :: store
  ss_path :: string

definition initialize :: "sqlite_host \<Rightarrow> go_error option" where
  "initialize h =
     (case sq_begin h of
        Some e \<Rightarrow> Some (wrap_error [Txt ''begin transaction: ''] e [])
      | None \<Rightarrow>
        (case sq_exec_schema h of
           Some e \<Rightarrow> Some (wrap_error [Txt ''apply schema bootstrap: ''] e [])
         | None \<Rightarrow>
           (case sq_commit h of
              Some e \<Rightarrow> Some (wrap_error [Txt ''commit schema bootstrap: ''] e [])
            | None \<Rightarrow> None)))"

text \<open>
  Every operation that may close the opened handle counts how often it does. A failed open closes
  the handle it has, and joins the error of that.
\<close>

definition db_close :: "sqlite_host \<Rightarrow> go_error option \<times> nat" where
  "db_close h = (sq_close h, 1)"

definition close_failed :: "sqlite_host \<Rightarrow> string \<Rightarrow> string \<Rightarrow> go_error \<Rightarrow> go_error \<times> nat" where
  "close_failed h path step e =
     (case db_close h of
        (None, n) \<Rightarrow> (e, n)
      | (Some c, n) \<Rightarrow>
          (the (errors_join (Some e) (Some (wrap_error
            [Txt ''close storage '', Quoted path, Txt '' after '', Txt step, Txt '' failure: ''] c []))),
           n))"

definition storage_open :: "sqlite_host \<Rightarrow> string \<Rightarrow> (go_error + sqlite_store) \<times> nat" where
  "storage_open h path =
     (let clean_path = filepath_clean (trim_space path) in
      if clean_path = ''.'' \<or> clean_path = [] then (Inl (errorf [Txt ''storage path is required'']), 0)
      else case filepath_abs (sq_getwd h) clean_path of
        Inl e \<Rightarrow> (Inl (wrap_error [Txt ''resolve storage path '', Quoted clean_path, Txt '': ''] e []), 0)
      | Inr abs_path \<Rightarrow>
      (case sq_mkdir_all h (filepath_dir abs_path) of
        Some e \<Rightarrow>
          (Inl (wrap_error [Txt ''create storage directory for '', Quoted abs_path, Txt '': ''] e []), 0)
      | None \<Rightarrow>
      (case sq_open h (sqlite_dsn abs_path) of
        Some e \<Rightarrow> (Inl (wrap_error [Txt ''open storage '', Quoted abs_path, Txt '': ''] e []), 0)
      | None \<Rightarrow>
      (case sq_ping h of
        Some e \<Rightarrow>
          apfst Inl (close_failed h abs_path ''ping''
            (wrap_error [Txt ''ping storage '', Quoted abs_path, Txt '': ''] e []))
      | None \<Rightarrow>
      (case initialize h of
        Some e \<Rightarrow>
          apfst Inl (close_failed h abs_path ''init''
            (wrap_error [Txt ''initialize storage '', Quoted abs_path, Txt '': ''] e []))
      | None \<Rightarrow> (Inr \<lparr>ss_db = sq_database h abs_path, ss_path = abs_path\<rparr>, 0))))))"

text \<open>\<open>Close\<close> and \<open>Path\<close> on a store that may be nil.\<close>

definition storage_close :: "sqlite_host \<Rightarrow> sqlite_store option \<Rightarrow> go_error option \<times> nat" where
  "storage_close h s = (case s of None \<Rightarrow> (None, 0) | Some _ \<Rightarrow> db_close h)"

definition storage_path :: "sqlite_store option \<Rightarrow> string" where
  "storage_path s = (case s of None \<Rightarrow> [] | Some st \<Rightarrow> ss_path st)"

subsection \<open>Percent-encoding is undone by decoding\<close>

fun percent_decode :: "string \<Rightarrow> string option" where
  "percent_decode [] = Some []"
| "percent_decode (c # s) =
     (if c = CHR ''%'' then
        (case s of
           a # b # t \<Rightarrow>
             (case (hex_val a, hex_val b) of
                (Some x, Some y) \<Rightarrow> map_option ((#) (char_of (x * 16 + y))) (percent_decode t)
              | _ \<Rightarrow> None)
         | _ \<Rightarrow> None)
      else map_option ((#) c) (percent_decode s))"

lemma hex_val_upper: "d < 16 \<Longrightarrow> hex_val (upper_hex d) = Some d"
  by (cases "d < 10") (simp_all add: hex_val_def upper_hex_def Let_def)

lemma percent_decode_byte: "percent_decode (percent_byte c @ s) = map_option ((#) c) (percent_decode s)"
proof -
  have "hex_val (upper_hex (byte_of c div 16)) = Some (byte_of c div 16)"
    "hex_val (upper_hex (byte_of c mod 16)) = Some (byte_of c mod 16)"
    using byte_hex_digits [of c] by (simp_all add: hex_val_upper)
  then show ?thesis by (simp add: percent_byte_def)
qed

lemma path_safe_not_percent: "path_safe c \<Longrightarrow> c \<noteq> CHR ''%'' \<and> c \<noteq> CHR ''?''"
  by (auto simp: path_safe_def is_unreserved_def is_digit_def)

lemma upper_hex_plain: "d < 16 \<Longrightarrow> upper_hex d \<noteq> CHR ''?''"
  by (cases "d < 10") (auto simp: upper_hex_def char_of_eq_iff take_bit_eq_mod)

lemma decode_escape_path: "percent_decode (url_escape_path s) = Some s"
proof (induction s)
  case Nil
  then show ?case by (simp add: url_escape_path_def)
next
  case (Cons c s)
  show ?case
  proof (cases "path_safe c")
    case True
    with Cons path_safe_not_percent [OF True] show ?thesis by (simp add: url_escape_path_def)
  next
    case False
    with Cons percent_decode_byte [of c "url_escape_path s"] show ?thesis
      by (simp add: url_escape_path_def)
  qed
qed

lemma escape_path_no_query: "CHR ''?'' \<notin> set (url_escape_path s)"
proof -
  have "CHR ''?'' \<notin> set (percent_byte c)" for c
    using upper_hex_plain [of "byte_of c div 16"] upper_hex_plain [of "byte_of c mod 16"]
      byte_hex_digits [of c] by (auto simp: percent_byte_def)
  then show ?thesis using path_safe_not_percent by (auto simp: url_escape_path_def)
qed

subsection \<open>Clean paths\<close>

definition plain_piece :: "string \<Rightarrow> bool" where
  "plain_piece w \<longleftrightarrow> w \<notin> {[], ''.'', ''..''} \<and> CHR ''/'' \<notin> set w"

definition clean_absolute :: "string \<Rightarrow> bool" where
  "clean_absolute p \<longleftrightarrow> (\<exists>ws. p = ''/'' @ strings_join ws ''/'' \<and> list_all plain_piece ws)"

lemma split_slash_pieces: "w \<in> set (split_slash s) \<Longrightarrow> CHR ''/'' \<notin> set w"
  by (induction s arbitrary: w rule: split_slash.induct)
    (auto split: list.splits if_splits)

lemma clean_pieces_plain:
  "rooted \<Longrightarrow> list_all plain_piece stk \<Longrightarrow> list_all (\<lambda>w. CHR ''/'' \<notin> set w) ws \<Longrightarrow>
     list_all plain_piece (clean_pieces rooted stk ws)"
proof (induction rooted stk ws rule: clean_pieces.induct)
  case (1 rooted stk)
  then show ?case by (simp add: list_all_iff)
next
  case (2 rooted stk w ws)
  show ?case
  proof (cases "w = [] \<or> w = ''.''")
    case True
    with 2 show ?thesis by auto
  next
    case other: False
    show ?thesis
    proof (cases "w = ''..''")
      case True
      have "\<not> plain_piece ''..''" by (simp add: plain_piece_def)
      with True 2 show ?thesis by (cases stk) auto
    next
      case False
      with other "2.prems"(3) have "plain_piece w" by (simp add: plain_piece_def)
      with other False 2 show ?thesis by simp
    qed
  qed
qed

lemma filepath_clean_absolute: "filepath_is_abs p \<Longrightarrow> clean_absolute (filepath_clean p)"
  using clean_pieces_plain [of "filepath_is_abs p" "[]" "split_slash p"] split_slash_pieces [of _ p]
  by (auto simp: clean_absolute_def filepath_clean_def Let_def list_all_iff)

lemma split_slash_not_Nil [simp]: "split_slash s \<noteq> []"
  by (cases s) (auto split: list.splits)

lemma split_slash_append:
  "CHR ''/'' \<notin> set w \<Longrightarrow> split_slash (w @ CHR ''/'' # s) = w # split_slash s"
  by (induction w) auto

lemma split_slash_plain: "CHR ''/'' \<notin> set w \<Longrightarrow> split_slash w = [w]"
  by (induction w) auto

lemma split_slash_join:
  "ws \<noteq> [] \<Longrightarrow> list_all plain_piece ws \<Longrightarrow> split_slash (strings_join ws ''/'') = ws"
proof (induction ws)
  case Nil
  then show ?case by simp
next
  case (Cons w ws)
  then show ?case
    by (cases ws) (simp_all add: plain_piece_def split_slash_append split_slash_plain)
qed

lemma clean_pieces_id:
  "list_all plain_piece ws \<Longrightarrow> clean_pieces rooted stk ws = rev stk @ ws"
  by (induction ws arbitrary: stk) (auto simp: plain_piece_def)

lemma clean_absolute_fixed: "clean_absolute p \<Longrightarrow> filepath_is_abs p \<and> filepath_clean p = p"
proof -
  assume "clean_absolute p"
  then obtain ws where ws: "p = ''/'' @ strings_join ws ''/''" "list_all plain_piece ws"
    by (auto simp: clean_absolute_def)
  then have "split_slash p = [] # (if ws = [] then [[]] else ws)"
    by (simp add: split_slash_join)
  with ws show ?thesis
    by (auto simp: filepath_clean_def filepath_is_abs_def clean_pieces_id Let_def)
qed

lemma filepath_abs_clean:
  assumes "filepath_abs getwd p = Inr q" and "\<And>wd. getwd = Inr wd \<Longrightarrow> filepath_is_abs wd"
  shows "clean_absolute q"
proof (cases "filepath_is_abs p")
  case True
  with assms(1) show ?thesis by (auto simp: filepath_abs_def intro: filepath_clean_absolute)
next
  case False
  with assms(1) obtain wd where wd: "getwd = Inr wd"
    "q = filepath_clean (if wd = [] then p else wd @ ''/'' @ p)"
    by (auto simp: filepath_abs_def split: sum.splits)
  with assms(2) have "wd \<noteq> []" "filepath_is_abs wd" by (auto simp: filepath_is_abs_def)
  then have "filepath_is_abs (wd @ ''/'' @ p)" by (cases wd) (simp_all add: filepath_is_abs_def)
  with wd \<open>wd \<noteq> []\<close> filepath_clean_absolute show ?thesis by simp
qed

subsection \<open>What Open answers\<close>

lemma initialize_ok:
  "initialize h = None \<longleftrightarrow> sq_begin h = None \<and> sq_exec_schema h = None \<and> sq_commit h = None"
  by (simp add: initialize_def split: option.split)

text \<open>The path under which the driver opens the database, if it gets that far.\<close>

definition opened_path :: "sqlite_host \<Rightarrow> string \<Rightarrow> string option" where
  "opened_path h path =
     (let p = filepath_clean (trim_space path) in
      if p = ''.'' then None
      else case filepath_abs (sq_getwd h) p of
          Inl e \<Rightarrow> None
        | Inr q \<Rightarrow>
            if sq_mkdir_all h (filepath_dir q) = None \<and> sq_open h (sqlite_dsn q) = None
            then Some q else None)"

lemma filepath_clean_not_Nil [simp]: "filepath_clean p \<noteq> []"
  by (simp add: filepath_clean_def Let_def)

lemma close_failed_count [simp]: "\<exists>e'. close_failed h path step e = (e', 1)"
  by (simp add: close_failed_def db_close_def split: option.split)

lemma storage_open_unopened: "opened_path h path = None \<Longrightarrow> \<exists>e. storage_open h path = (Inl e, 0)"
  by (auto simp: storage_open_def opened_path_def Let_def split: sum.splits option.splits if_splits)

lemma storage_open_failed:
  assumes q: "opened_path h path = Some q" and "sq_ping h \<noteq> None \<or> initialize h \<noteq> None"
  shows "\<exists>e. storage_open h path = (Inl e, 1)"
proof -
  have "\<exists>step e. storage_open h path = apfst Inl (close_failed h q step e)"
    using assms
    by (auto simp: storage_open_def opened_path_def Let_def split: sum.splits option.splits if_splits)
  then obtain step e where "storage_open h path = apfst Inl (close_failed h q step e)" by blast
  moreover obtain e' where "close_failed h q step e = (e', 1)" using close_failed_count by blast
  ultimately show ?thesis by simp
qed

lemma storage_open_ok:
  "opened_path h path = Some q \<Longrightarrow> sq_ping h = None \<Longrightarrow> initialize h = None \<Longrightarrow>
     storage_open h path = (Inr \<lparr>ss_db = sq_database h q, ss_path = q\<rparr>, 0)"
  by (auto simp: storage_open_def opened_path_def Let_def split: sum.splits option.splits if_splits)

text \<open>An opened handle is either answered or closed once.\<close>

lemma storage_open_Inr:
  assumes "storage_open h path = (Inr st, n)"
  shows "\<exists>q. opened_path h path = Some q \<and> st = \<lparr>ss_db = sq_database h q, ss_path = q\<rparr> \<and> n = 0"
proof (cases "opened_path h path")
  case None
  with assms storage_open_unopened [OF None] show ?thesis by auto
next
  case (Some q)
  show ?thesis
  proof (cases "sq_ping h = None \<and> initialize h = None")
    case True
    with assms storage_open_ok [OF Some] Some show ?thesis by auto
  next
    case False
    then have "sq_ping h \<noteq> None \<or> initialize h \<noteq> None" by simp
    from storage_open_failed [OF Some this] assms show ?thesis by auto
  qed
qed

lemma storage_open_Inl:
  assumes "storage_open h path = (Inl e, n)"
  shows "n = (if opened_path h path = None then 0 else 1)"
proof (cases "opened_path h path")
  case None
  with assms storage_open_unopened [OF None] show ?thesis by auto
next
  case (Some q)
  show ?thesis
  proof (cases "sq_ping h = None \<and> initialize h = None")
    case True
    with assms storage_open_ok [OF Some] show ?thesis by auto
  next
    case False
    then have "sq_ping h \<noteq> None \<or> initialize h \<noteq> None" by simp
    from storage_open_failed [OF Some this] assms Some show ?thesis by auto
  qed
qed

text \<open>
  No path can reach into the parameters of the data source name: whatever the path, the
  name is \<open>file://\<close>, an escaped path that has no question mark and decodes to the path, and the
  three pragmas.
\<close>

theorem dsn_roundtrip:
  "\<exists>p. sqlite_dsn path = ''file://'' @ p @ ''?'' @
       ''_pragma=busy_timeout%285000%29&_pragma=journal_mode%28WAL%29&_pragma=foreign_keys%28ON%29''
     \<and> CHR ''?'' \<notin> set p \<and> percent_decode p = Some path"
proof -
  have "encode_values ''_pragma'' sqlite_pragmas =
      ''_pragma=busy_timeout%285000%29&_pragma=journal_mode%28WAL%29&_pragma=foreign_keys%28ON%29''"
    by code_simp
  then show ?thesis
    using decode_escape_path [of path] escape_path_no_query [of path]
    by (intro exI [of _ "url_escape_path path"]) (simp add: sqlite_dsn_def)
qed

end
