(* ===== verification/Go_Format.thy ===== *)
theory Go_Format
  imports Json
begin

section \<open>Printing: quoted strings, durations, error texts\<close>

text \<open>
  What \<open>fmt\<close> prints for the verbs the program uses: \<open>%q\<close> (\<open>strconv.Quote\<close>), \<open>%d\<close>, and \<open>%s\<close> of a
  \<open>time.Duration\<close> (\<open>Duration.String\<close>); with them \<open>Error()\<close> of the error values of the prelude.
  The Unicode table behind \<open>strconv.IsPrint\<close> for runes beyond ASCII is the parameter \<open>is_print\<close>.
\<close>

subsection \<open>Quoted strings\<close>

fun rune_value :: "string \<Rightarrow> nat" where
  "rune_value [] = 0"
| "rune_value [a] = byte_of a"
| "rune_value [a, b] = (byte_of a - 192) * 64 + (byte_of b - 128)"
| "rune_value [a, b, c] = (byte_of a - 224) * 4096 + (byte_of b - 128) * 64 + (byte_of c - 128)"
| "rune_value (a # b # c # d # _) =
     (byte_of a - 240) * 262144 + (byte_of b - 128) * 4096 + (byte_of c - 128) * 64
       + (byte_of d - 128)"

fun hex_digits :: "nat \<Rightarrow> nat \<Rightarrow> string" where
  "hex_digits 0 n = []"
| "hex_digits (Suc w) n = hex_digits w (n div 16) @ [hex_digit (n mod 16)]"

definition quote_ascii :: "char \<Rightarrow> string" where
  "quote_ascii c =
     (if c = CHR 0x22 \<or> c = CHR 0x5C then [CHR 0x5C, c]
      else if 32 \<le> byte_of c \<and> byte_of c < 127 then [c]
      else if c = CHR 0x07 then CHR 0x5C # ''a''
      else if c = CHR 0x08 then CHR 0x5C # ''b''
      else if c = CHR 0x0C then CHR 0x5C # ''f''
      else if c = CHR 0x0A then CHR 0x5C # ''n''
      else if c = CHR 0x0D then CHR 0x5C # ''r''
      else if c = CHR 0x09 then CHR 0x5C # ''t''
      else if c = CHR 0x0B then CHR 0x5C # ''v''
      else CHR 0x5C # ''x'' @ hex_digits 2 (byte_of c))"

definition quote_rune :: "(nat \<Rightarrow> bool) \<Rightarrow> string \<Rightarrow> string" where
  "quote_rune is_print bs =
     (let r = rune_value bs in
      if is_print r then bs
      else if r < 65536 then CHR 0x5C # ''u'' @ hex_digits 4 r
      else CHR 0x5C # ''U'' @ hex_digits 8 r)"

function quote_body :: "(nat \<Rightarrow> bool) \<Rightarrow> string \<Rightarrow> string" where
  "quote_body is_print [] = []"
| "quote_body is_print (c # s) =
     (if byte_of c < 128 then quote_ascii c @ quote_body is_print s
      else let n = rune_len (c # s) in
        if n = 0 then (CHR 0x5C # ''x'' @ hex_digits 2 (byte_of c)) @ quote_body is_print s
        else quote_rune is_print (take n (c # s)) @ quote_body is_print (drop (n - 1) s))"
  by pat_completeness auto
termination
  by (relation "measure (length \<circ> snd)") auto

definition go_quote :: "(nat \<Rightarrow> bool) \<Rightarrow> string \<Rightarrow> string" where
  "go_quote is_print s = CHR 0x22 # quote_body is_print s @ [CHR 0x22]"

subsection \<open>Durations\<close>

text \<open>\<open>fmtFrac\<close>: the last \<open>prec\<close> digits of \<open>v\<close> as a fraction without trailing zeros.\<close>

fun fraction_digits :: "nat \<Rightarrow> int \<Rightarrow> string" where
  "fraction_digits 0 v = []"
| "fraction_digits (Suc prec) v = fraction_digits prec (v div 10) @ [digit_char (nat (v mod 10))]"

definition format_fraction :: "nat \<Rightarrow> int \<Rightarrow> string" where
  "format_fraction prec v =
     (let ds = rev (dropWhile (\<lambda>c. c = CHR ''0'') (rev (fraction_digits prec v)))
      in if ds = [] then [] else CHR ''.'' # ds)"

definition duration_magnitude :: "int \<Rightarrow> string" where
  "duration_magnitude u =
     (if u = 0 then ''0s''
      else if u < 1000 then format_int u @ ''ns''
      else if u < 1000000 then
        format_int (u div 1000) @ format_fraction 3 u @ [CHR 0xC2, CHR 0xB5, CHR ''s'']
      else if u < 1000000000 then format_int (u div 1000000) @ format_fraction 6 u @ ''ms''
      else
        let secs = u div 1000000000;
            mins = secs div 60;
            hours = mins div 60;
            tail = format_int (secs mod 60) @ format_fraction 9 u @ ''s''
        in if mins = 0 then tail
           else if hours = 0 then format_int (mins mod 60) @ ''m'' @ tail
           else format_int hours @ ''h'' @ format_int (mins mod 60) @ ''m'' @ tail)"

definition duration_string :: "duration \<Rightarrow> string" where
  "duration_string d =
     (if d < 0 then CHR ''-'' # duration_magnitude (- d) else duration_magnitude d)"

subsection \<open>Error texts\<close>

fun frag_string :: "(nat \<Rightarrow> bool) \<Rightarrow> frag \<Rightarrow> string" where
  "frag_string is_print (Txt s) = s"
| "frag_string is_print (Quoted s) = go_quote is_print s"
| "frag_string is_print (Num n) = format_int n"
| "frag_string is_print (Dur d) = duration_string d"

definition message_string :: "(nat \<Rightarrow> bool) \<Rightarrow> message \<Rightarrow> string" where
  "message_string is_print m = concat (map (frag_string is_print) m)"

definition error_string :: "(nat \<Rightarrow> bool) \<Rightarrow> go_error \<Rightarrow> string" where
  "error_string is_print e = message_string is_print (error_text e)"

lemma fraction_digits_numeral [simp]:
  "fraction_digits (numeral w) v =
     fraction_digits (pred_numeral w) (v div 10) @ [digit_char (nat (v mod 10))]"
  by (simp add: numeral_eq_Suc)

text \<open>The texts Go prints for three durations and for a string with a line break in it.\<close>

lemma duration_string_examples:
  "duration_string 1500000000 = ''1.5s''" "duration_string 3723000000000 = ''1h2m3s''"
  "duration_string (- 250000000) = ''-250ms''"
  by code_simp+

lemma go_quote_example:
  "go_quote p ''a\<newline>b'' = [CHR 0x22, CHR ''a'', CHR 0x5C, CHR ''n'', CHR ''b'', CHR 0x22]"
  by (simp add: go_quote_def quote_ascii_def)

end
