(* ===== verification/Tail_Buffer.thy ===== *)
theory Tail_Buffer
  imports Prelude
begin

section \<open>The bounded output buffer of a run\<close>

text \<open>
  \<open>tailBuffer\<close> of \<open>internal/execution/runner.go\<close>: a writer that keeps the last \<open>limit\<close>
  bytes of what is written to it, and nothing when the limit is not positive. The process
  writes in chunks of any size; the abstract specification is the suffix of the whole
  output, \<open>last_bytes\<close>.
\<close>

record tail_buffer =
  tb_limit :: int
  tb_buf :: bytes

definition new_tail_buffer :: "int \<Rightarrow> tail_buffer" where
  "new_tail_buffer limit = \<lparr>tb_limit = limit, tb_buf = []\<rparr>"

text \<open>\<open>Write\<close>: the new buffer and the number of bytes reported as written (never an error).\<close>

definition tail_write :: "tail_buffer \<Rightarrow> bytes \<Rightarrow> tail_buffer \<times> int" where
  "tail_write b p =
     (if tb_limit b \<le> 0 \<or> p = [] then (b, int (length p))
      else if tb_limit b \<le> int (length p) then
        (b\<lparr>tb_buf := drop (nat (int (length p) - tb_limit b)) p\<rparr>, int (length p))
      else
        let overflow = int (length (tb_buf b)) + int (length p) - tb_limit b;
            kept = (if 0 < overflow then drop (nat overflow) (tb_buf b) else tb_buf b)
        in (b\<lparr>tb_buf := kept @ p\<rparr>, int (length p)))"

definition tail_string :: "tail_buffer \<Rightarrow> string" where
  "tail_string b = tb_buf b"

fun tail_write_all :: "tail_buffer \<Rightarrow> bytes list \<Rightarrow> tail_buffer" where
  "tail_write_all b [] = b"
| "tail_write_all b (p # ps) = tail_write_all (fst (tail_write b p)) ps"

subsection \<open>Specification: the last bytes of the whole output\<close>

definition last_bytes :: "int \<Rightarrow> bytes \<Rightarrow> bytes" where
  "last_bytes limit out = drop (length out - nat limit) out"

text \<open>The invariant of a buffer: it holds at most \<open>limit\<close> bytes.\<close>

definition tail_inv :: "tail_buffer \<Rightarrow> bool" where
  "tail_inv b \<longleftrightarrow> length (tb_buf b) \<le> nat (tb_limit b)"

lemma last_bytes_nonpos [simp]: "limit \<le> 0 \<Longrightarrow> last_bytes limit out = []"
  by (simp add: last_bytes_def)

lemma length_last_bytes: "length (last_bytes limit out) = min (length out) (nat limit)"
  by (simp add: last_bytes_def min_def)

lemma last_bytes_last_bytes: "last_bytes n (last_bytes n a @ b) = last_bytes n (a @ b)"
proof (cases "nat n \<le> length b")
  case True
  then show ?thesis by (simp add: last_bytes_def)
next
  case False
  then show ?thesis by (cases "length a \<le> nat n") (simp_all add: last_bytes_def add.commute)
qed

lemma last_bytes_inv: "tail_inv b \<Longrightarrow> last_bytes (tb_limit b) (tb_buf b) = tb_buf b"
  by (simp add: tail_inv_def last_bytes_def)

lemma tail_write_limit [simp]: "tb_limit (fst (tail_write b p)) = tb_limit b"
  by (simp add: tail_write_def Let_def)

text \<open>One write implements appending to the whole output and keeping its last bytes.\<close>

lemma tail_write_refines:
  assumes "tail_inv b"
  shows "tb_buf (fst (tail_write b p)) = last_bytes (tb_limit b) (tb_buf b @ p)"
proof -
  consider "tb_limit b \<le> 0 \<or> p = []" | "0 < tb_limit b" "p \<noteq> []" "tb_limit b \<le> int (length p)"
    | "0 < tb_limit b" "p \<noteq> []" "int (length p) < tb_limit b" by linarith
  then show ?thesis
  proof cases
    case 1
    with assms show ?thesis
      by (auto simp: tail_write_def tail_inv_def last_bytes_def)
  next
    case 2
    then show ?thesis by (simp add: tail_write_def last_bytes_def nat_diff_distrib)
  next
    case 3
    then have "nat (int (length (tb_buf b)) + int (length p) - tb_limit b)
        = length (tb_buf b) + length p - nat (tb_limit b)" by linarith
    with 3 show ?thesis by (simp add: tail_write_def last_bytes_def Let_def)
  qed
qed

lemma tail_write_inv: "tail_inv b \<Longrightarrow> tail_inv (fst (tail_write b p))"
  by (simp add: tail_inv_def [of "fst (tail_write b p)"] tail_write_refines length_last_bytes)

lemma new_tail_buffer_inv [simp]: "tail_inv (new_tail_buffer limit)"
  by (simp add: tail_inv_def new_tail_buffer_def)

lemma tail_write_all_inv: "tail_inv b \<Longrightarrow> tail_inv (tail_write_all b ps)"
  by (induction b ps rule: tail_write_all.induct) (simp_all add: tail_write_inv)

lemma tail_write_all_limit [simp]: "tb_limit (tail_write_all b ps) = tb_limit b"
  by (induction b ps rule: tail_write_all.induct) simp_all

lemma tail_write_all_refines:
  "tail_inv b \<Longrightarrow> tb_buf (tail_write_all b ps) = last_bytes (tb_limit b) (tb_buf b @ concat ps)"
proof (induction b ps rule: tail_write_all.induct)
  case (1 b)
  then show ?case by (simp add: last_bytes_inv)
next
  case (2 b p ps)
  then have "tb_buf (tail_write_all b (p # ps))
      = last_bytes (tb_limit b) (last_bytes (tb_limit b) (tb_buf b @ p) @ concat ps)"
    by (simp add: tail_write_inv tail_write_refines)
  then show ?case by (simp add: last_bytes_last_bytes)
qed

text \<open>
  The output stored for a process, from the chunks it wrote.
\<close>

definition captured :: "int \<Rightarrow> bytes list \<Rightarrow> string" where
  "captured limit chunks = tail_string (tail_write_all (new_tail_buffer limit) chunks)"

lemma captured_length: "length (captured limit chunks) \<le> nat limit"
  using tail_write_all_inv [OF new_tail_buffer_inv, of limit chunks]
  by (simp add: captured_def tail_string_def tail_inv_def) (simp add: new_tail_buffer_def)

text \<open>
  C17: however a process splits its output into writes, the buffer ends up with exactly the
  last \<open>limit\<close> bytes of the whole output (with none when the limit is zero or negative), and
  never holds more than the limit on the way.
\<close>

theorem tail_buffer_correct:
  "tail_string (tail_write_all (new_tail_buffer limit) chunks) = last_bytes limit (concat chunks)
   \<and> length (tb_buf (tail_write_all (new_tail_buffer limit) chunks)) \<le> nat limit"
  using tail_write_all_refines [OF new_tail_buffer_inv, of limit chunks]
    captured_length [of limit chunks]
  by (simp add: tail_string_def captured_def) (simp add: new_tail_buffer_def)

lemma tail_write_reports_all: "snd (tail_write b p) = int (length p)"
  by (simp add: tail_write_def Let_def)

end
