(* ===== verification/Config.thy ===== *)
theory Config
  imports Go_Strings
begin

section \<open>Configuration data and the action registry\<close>

text \<open>
  \<open>internal/config/config.go\<close> and \<open>registry.go\<close>: the loaded configuration, the actions it
  declares and the registry that finds an action by name. A Go struct is a record, a
  \<open>map[string]T\<close> that is only looked up is a partial function, the environment of an action,
  which is ranged over, is an association list.
\<close>

definition default_path :: string where
  "default_path = ''/etc/microhook/config.yml''"

definition default_listen_address :: string where
  "default_listen_address = ''127.0.0.1:9464''"

definition default_log_format :: string where
  "default_log_format = ''json''"

definition default_concurrency_policy :: string where
  "default_concurrency_policy = ''allow''"

definition default_max_output_bytes :: int where
  "default_max_output_bytes = 64 * 1024"

definition action_mode_command :: string where
  "action_mode_command = ''command''"

definition action_mode_shell :: string where
  "action_mode_shell = ''shell''"

record server_config =
  sv_listen :: string
  sv_log_format :: string

record token =
  tk_name :: string
  tk_value :: string
  tk_actions :: "string list"
  tk_action_set :: "string set"

record auth_config =
  au_tokens :: "token list"

record storage_config =
  sc_path :: string
  sc_retention_days :: int
  sc_max_runs :: int

record action =
  ac_name :: string
  ac_description :: string
  ac_mode :: string
  ac_command :: "string list"
  ac_shell_command :: string
  ac_cwd :: string
  ac_timeout :: duration
  ac_env :: "string gomap"
  ac_concurrency_policy :: string
  ac_max_output_bytes :: int
  ac_enabled :: bool

record action_registry =
  rg_ordered :: "action list"
  rg_by_name :: "string \<rightharpoonup> action"
  rg_enabled_by_name :: "string \<rightharpoonup> action"

text \<open>The registry field is None while it holds the zero value, whose \<open>byName\<close> map is nil.\<close>

record config =
  cf_server :: server_config
  cf_auth :: auth_config
  cf_storage :: storage_config
  cf_actions :: "action list"
  cf_registry :: "action_registry option"

definition token_is_global :: "token \<Rightarrow> bool" where
  "token_is_global t = (tk_actions t = [])"

definition token_allows_action :: "token \<Rightarrow> string \<Rightarrow> bool" where
  "token_allows_action t name = (if token_is_global t then True else name \<in> tk_action_set t)"

definition is_enabled :: "action \<Rightarrow> bool" where
  "is_enabled a = ac_enabled a"

definition uses_shell :: "action \<Rightarrow> bool" where
  "uses_shell a = (ac_mode a = action_mode_shell)"

subsection \<open>Accumulated validation messages\<close>

text \<open>
  \<open>ValidationErrors\<close> of \<open>validate.go\<close>: \<open>Add\<close> and \<open>Append\<close> extend the list, \<open>OrNil\<close> is None
  when it is empty, \<open>Error\<close> prints one line per message.
\<close>

type_synonym validation_errors = "message list"

definition ve_add :: "validation_errors \<Rightarrow> message \<Rightarrow> validation_errors" where
  "ve_add v m = v @ [m]"

fun ve_append :: "validation_errors \<Rightarrow> validation_errors option \<Rightarrow> validation_errors" where
  "ve_append v None = v"
| "ve_append v (Some w) = v @ w"

definition ve_or_nil :: "validation_errors \<Rightarrow> validation_errors option" where
  "ve_or_nil v = (if v = [] then None else Some v)"

fun ve_error :: "validation_errors \<Rightarrow> message" where
  "ve_error [] = []"
| "ve_error [m] = Txt ''- '' # m"
| "ve_error (m # n # ms) = Txt ''- '' # m @ [Txt ''\<newline>''] @ ve_error (n # ms)"

lemma ve_add_not_Nil [simp]: "ve_add v m \<noteq> []"
  by (simp add: ve_add_def)

lemma ve_or_nil_None [simp]: "ve_or_nil v = None \<longleftrightarrow> v = []"
  by (simp add: ve_or_nil_def)

subsection \<open>Copies\<close>

definition clone_strings :: "string list \<Rightarrow> string list" where
  "clone_strings values = (if values = [] then [] else values)"

definition clone_string_map :: "string gomap \<Rightarrow> string gomap" where
  "clone_string_map values = (if values = [] then [] else gomap_copy [] values)"

definition clone_action :: "action \<Rightarrow> action" where
  "clone_action a =
     a\<lparr>ac_command := clone_strings (ac_command a), ac_env := clone_string_map (ac_env a)\<rparr>"

lemma clone_strings_id [simp]: "clone_strings xs = xs"
  by (simp add: clone_strings_def)

lemma clone_string_map_id [simp]: "gomap_wf m \<Longrightarrow> clone_string_map m = m"
  by (simp add: clone_string_map_def gomap_copy_empty)

lemma clone_action_id [simp]: "gomap_wf (ac_env a) \<Longrightarrow> clone_action a = a"
  by (simp add: clone_action_def)

lemma clone_action_fields [simp]:
  "ac_name (clone_action a) = ac_name a" "ac_enabled (clone_action a) = ac_enabled a"
  by (simp_all add: clone_action_def)

subsection \<open>The registry\<close>

definition registry_len :: "action_registry \<Rightarrow> nat" where
  "registry_len r = length (rg_ordered r)"

definition registry_all :: "action_registry \<Rightarrow> action list" where
  "registry_all r = map clone_action (rg_ordered r)"

definition registry_get :: "action_registry \<Rightarrow> string \<Rightarrow> action option" where
  "registry_get r name = (case rg_by_name r name of None \<Rightarrow> None | Some a \<Rightarrow> Some (clone_action a))"

definition registry_enabled :: "action_registry \<Rightarrow> string \<Rightarrow> action option" where
  "registry_enabled r name =
     (case rg_enabled_by_name r name of None \<Rightarrow> None | Some a \<Rightarrow> Some (clone_action a))"

definition empty_registry :: action_registry where
  "empty_registry = \<lparr>rg_ordered = [], rg_by_name = Map.empty, rg_enabled_by_name = Map.empty\<rparr>"

definition action_prefix :: "nat \<Rightarrow> message" where
  "action_prefix i = [Txt ''actions['', Num (int i), Txt '']'']"

definition registry_insert :: "action_registry \<Rightarrow> action \<Rightarrow> action_registry" where
  "registry_insert r a =
     (let cloned = clone_action a;
          r' = r\<lparr>rg_ordered := rg_ordered r @ [cloned],
                 rg_by_name := (rg_by_name r)(ac_name cloned \<mapsto> cloned)\<rparr>
      in if ac_enabled cloned
         then r'\<lparr>rg_enabled_by_name := (rg_enabled_by_name r')(ac_name cloned \<mapsto> cloned)\<rparr>
         else r')"

text \<open>The loop of \<open>newActionRegistry\<close> from index \<open>i\<close>, with the names seen so far.\<close>

fun registry_loop ::
    "nat \<Rightarrow> (string \<rightharpoonup> nat) \<Rightarrow> action_registry \<Rightarrow> validation_errors \<Rightarrow> action list
       \<Rightarrow> action_registry \<times> validation_errors" where
  "registry_loop i seen r errs [] = (r, errs)"
| "registry_loop i seen r errs (a # as) =
     (let name = trim_space (ac_name a) in
      if name = [] then
        registry_loop (Suc i) seen r
          (ve_add errs (action_prefix i @ [Txt ''.name is required''])) as
      else case seen name of
          Some previous \<Rightarrow>
            registry_loop (Suc i) seen r
              (ve_add errs (action_prefix i @ [Txt ''.name duplicates ''] @ action_prefix previous
                 @ [Txt ''.name ('', Quoted name, Txt '')''])) as
        | None \<Rightarrow> registry_loop (Suc i) (seen(name \<mapsto> i)) (registry_insert r a) errs as)"

definition new_action_registry :: "action list \<Rightarrow> validation_errors + action_registry" where
  "new_action_registry actions =
     (case registry_loop 0 Map.empty empty_registry [] actions of
        (r, errs) \<Rightarrow> (case ve_or_nil errs of Some e \<Rightarrow> Inl e | None \<Rightarrow> Inr r))"

definition config_action_registry :: "config \<Rightarrow> action_registry" where
  "config_action_registry c =
     (case cf_registry c of
        Some r \<Rightarrow> r
      | None \<Rightarrow> (case new_action_registry (cf_actions c) of Inl _ \<Rightarrow> empty_registry | Inr r \<Rightarrow> r))"

definition config_action :: "config \<Rightarrow> string \<Rightarrow> action option" where
  "config_action c name = registry_get (config_action_registry c) name"

definition config_enabled_action :: "config \<Rightarrow> string \<Rightarrow> action option" where
  "config_enabled_action c name = registry_enabled (config_action_registry c) name"

subsection \<open>What a registry promises\<close>

text \<open>
  The registry of a list of actions: the lookup tables are the graph of the list, by name,
  with the disabled actions left out of the second one.
\<close>

definition registry_of :: "action list \<Rightarrow> action_registry" where
  "registry_of as =
     \<lparr>rg_ordered = as,
      rg_by_name = map_of (map (\<lambda>a. (ac_name a, a)) as),
      rg_enabled_by_name = map_of (map (\<lambda>a. (ac_name a, a)) (filter ac_enabled as))\<rparr>"

definition action_names_ok :: "action list \<Rightarrow> bool" where
  "action_names_ok as \<longleftrightarrow>
     distinct (map (\<lambda>a. trim_space (ac_name a)) as) \<and> (\<forall>a \<in> set as. trim_space (ac_name a) \<noteq> [])"

lemma map_of_snoc_new:
  "k \<notin> fst ` set xs \<Longrightarrow> map_of (xs @ [(k, v)]) = (map_of xs)(k \<mapsto> v)"
  by (induction xs) (auto simp: fun_eq_iff)

lemma registry_of_insert:
  assumes "ac_name a \<notin> ac_name ` set as" and "gomap_wf (ac_env a)"
  shows "registry_insert (registry_of as) a = registry_of (as @ [a])"
proof -
  have "ac_name a \<notin> fst ` set (map (\<lambda>a. (ac_name a, a)) as)"
    "ac_name a \<notin> fst ` set (map (\<lambda>a. (ac_name a, a)) (filter ac_enabled as))"
    using assms(1) by (auto simp: image_iff)
  with assms(2) show ?thesis
    by (simp add: registry_insert_def registry_of_def Let_def map_of_snoc_new del: map_of_append)
qed

text \<open>The loop reports an error exactly when a name is blank or repeated.\<close>

lemma registry_loop_errors:
  "snd (registry_loop i seen r errs as) = [] \<longleftrightarrow>
     errs = [] \<and> action_names_ok as
     \<and> (\<forall>a \<in> set as. seen (trim_space (ac_name a)) = None)"
proof (induction i seen r errs as rule: registry_loop.induct)
  case (1 i seen r errs)
  then show ?case by (simp add: action_names_ok_def)
next
  case (2 i seen r errs a as)
  show ?case
  proof (cases "trim_space (ac_name a) = []")
    case True
    with "2.IH"(1) [OF refl True] show ?thesis by (simp add: action_names_ok_def)
  next
    case False
    show ?thesis
    proof (cases "seen (trim_space (ac_name a))")
      case None
      have "action_names_ok (a # as) \<longleftrightarrow> action_names_ok as \<and>
          (\<forall>b \<in> set as. trim_space (ac_name b) \<noteq> trim_space (ac_name a))"
        using False by (auto simp: action_names_ok_def image_iff)
      moreover have "(\<forall>b \<in> set as. (seen(trim_space (ac_name a) \<mapsto> i)) (trim_space (ac_name b)) = None)
          \<longleftrightarrow> (\<forall>b \<in> set as. trim_space (ac_name b) \<noteq> trim_space (ac_name a) \<and>
                seen (trim_space (ac_name b)) = None)"
        by auto
      ultimately show ?thesis
        using "2.IH"(2) [OF refl False None] False None by (simp del: fun_upd_apply) blast
    next
      case (Some p)
      with "2.IH"(3) [OF refl False Some] False show ?thesis by simp
    qed
  qed
qed

lemma registry_loop_result:
  assumes "\<forall>a \<in> set (done @ as). trimmed (ac_name a) \<and> gomap_wf (ac_env a)"
    and "action_names_ok (done @ as)" and "dom seen = ac_name ` set done"
  shows "fst (registry_loop i seen (registry_of done) errs as) = registry_of (done @ as)"
  using assms
proof (induction as arbitrary: i seen "done")
  case Nil
  then show ?case by simp
next
  case (Cons a as)
  let ?done = "done @ [a]"
  have name: "trim_space (ac_name a) = ac_name a" "ac_name a \<noteq> []"
    using Cons.prems by (auto simp: action_names_ok_def)
  have "ac_name a \<notin> ac_name ` set done"
  proof
    assume "ac_name a \<in> ac_name ` set done"
    then obtain b where "b \<in> set done" "ac_name b = ac_name a" by auto
    with Cons.prems(2) show False
      by (auto simp: action_names_ok_def image_iff)
  qed
  moreover from this have "seen (ac_name a) = None"
    using Cons.prems(3) by auto
  moreover have "fst (registry_loop (Suc i) (seen(ac_name a \<mapsto> i)) (registry_of ?done) errs as)
      = registry_of (?done @ as)"
    by (rule Cons.IH) (use Cons.prems in \<open>simp_all add: ball_Un del: fun_upd_apply\<close>)
  ultimately show ?case
    using Cons.prems name by (simp add: registry_of_insert)
qed

lemma new_action_registry_ok:
  assumes "action_names_ok as" and "\<forall>a \<in> set as. trimmed (ac_name a) \<and> gomap_wf (ac_env a)"
  shows "new_action_registry as = Inr (registry_of as)"
proof -
  obtain r errs where loop: "registry_loop 0 Map.empty empty_registry [] as = (r, errs)"
    by fastforce
  have "empty_registry = registry_of []"
    by (simp add: empty_registry_def registry_of_def)
  then have "r = registry_of as"
    using registry_loop_result [of "[]" as Map.empty 0 "[]"] assms loop by simp
  moreover have "errs = []"
    using registry_loop_errors [of 0 Map.empty empty_registry "[]" as] assms loop by simp
  ultimately show ?thesis by (simp add: new_action_registry_def loop ve_or_nil_def)
qed

lemma new_action_registry_error_iff:
  "(\<exists>e. new_action_registry as = Inl e) \<longleftrightarrow> \<not> action_names_ok as"
  using registry_loop_errors [of 0 Map.empty empty_registry "[]" as]
  by (auto simp: new_action_registry_def ve_or_nil_def split: prod.splits)

lemma map_of_by_name:
  assumes "distinct (map ac_name as)"
  shows "map_of (map (\<lambda>a. (ac_name a, a)) as) n = Some a \<longleftrightarrow> a \<in> set as \<and> ac_name a = n"
proof -
  have "distinct (map fst (map (\<lambda>a. (ac_name a, a)) as))" using assms by (simp add: comp_def)
  then show ?thesis by (auto simp: map_of_eq_Some_iff image_iff)
qed

lemma registry_get_of:
  assumes "distinct (map ac_name as)" and "\<forall>a \<in> set as. gomap_wf (ac_env a)"
  shows "registry_get (registry_of as) n = Some a \<longleftrightarrow> a \<in> set as \<and> ac_name a = n"
proof -
  have l: "rg_by_name (registry_of as) n = Some b \<longleftrightarrow> b \<in> set as \<and> ac_name b = n" for b
    using map_of_by_name [OF assms(1)] by (simp add: registry_of_def)
  have wf: "gomap_wf (ac_env b)" if "rg_by_name (registry_of as) n = Some b" for b
    using l that assms(2) by blast
  have "registry_get (registry_of as) n = rg_by_name (registry_of as) n"
    using wf by (cases "rg_by_name (registry_of as) n") (simp_all add: registry_get_def)
  with l show ?thesis by simp
qed

lemma registry_enabled_of:
  assumes "distinct (map ac_name as)" and "\<forall>a \<in> set as. gomap_wf (ac_env a)"
  shows "registry_enabled (registry_of as) n = Some a \<longleftrightarrow>
           a \<in> set as \<and> ac_name a = n \<and> ac_enabled a"
proof -
  have l: "rg_enabled_by_name (registry_of as) n = Some b \<longleftrightarrow>
      b \<in> set as \<and> ac_name b = n \<and> ac_enabled b" for b
    using map_of_by_name [OF distinct_map_filter_fst [OF assms(1)], of ac_enabled n b]
    by (auto simp: registry_of_def)
  have wf: "gomap_wf (ac_env b)" if "rg_enabled_by_name (registry_of as) n = Some b" for b
    using l that assms(2) by blast
  have "registry_enabled (registry_of as) n = rg_enabled_by_name (registry_of as) n"
    using wf by (cases "rg_enabled_by_name (registry_of as) n") (simp_all add: registry_enabled_def)
  with l show ?thesis by simp
qed

end
