(* ===== verification/Exec.thy ===== *)
theory Exec
  imports Run_Store Go_Format Tail_Buffer Config
begin

section \<open>Running actions\<close>

text \<open>
  \<open>internal/execution\<close>: \<open>runner.go\<close>, \<open>service.go\<close> and \<open>scheduler.go\<close>. The operations take the
  run store as the record of its interface. What the operating system does with a process is a
  function of how the process is started: a script of the outcomes of the calls the runner
  makes. The clock and the random source are arguments too.
\<close>

definition shell_path :: string where "shell_path = ''/bin/sh''"

definition default_exec_path :: string where
  "default_exec_path = ''/usr/local/sbin:/usr/local/bin:/usr/sbin:/usr/bin:/sbin:/bin''"

definition env_run_id :: string where "env_run_id = ''MICROHOOK_RUN_ID''"
definition env_action :: string where "env_action = ''MICROHOOK_ACTION''"
definition env_request_id :: string where "env_request_id = ''MICROHOOK_REQUEST_ID''"

definition restarted_run_summary :: string where
  "restarted_run_summary = ''service restarted before run completion''"

definition invoke_mode_sync :: string where "invoke_mode_sync = ''sync''"
definition invoke_mode_async :: string where "invoke_mode_async = ''async''"

subsection \<open>Copies between actions and snapshots\<close>

definition slices_clone :: "string list \<Rightarrow> string list" where
  "slices_clone values = (if values = [] then [] else values)"

definition clone_json :: "bytes \<Rightarrow> bytes" where
  "clone_json value = (if value = [] then [] else value)"

text \<open>\<open>maps.Clone\<close> copies the entries; the order they are listed in carries no meaning.\<close>

definition action_snapshot_from_config :: "action \<Rightarrow> action_snapshot" where
  "action_snapshot_from_config a =
     \<lparr>sn_description = ac_description a, sn_mode = ac_mode a,
      sn_command = slices_clone (ac_command a), sn_shell_command = ac_shell_command a,
      sn_cwd = ac_cwd a, sn_timeout = ac_timeout a, sn_env = ac_env a,
      sn_concurrency_policy = ac_concurrency_policy a,
      sn_max_output_bytes = ac_max_output_bytes a, sn_enabled = ac_enabled a\<rparr>"

definition action_from_snapshot :: "string \<Rightarrow> action_snapshot \<Rightarrow> action" where
  "action_from_snapshot name sn =
     \<lparr>ac_name = name, ac_description = sn_description sn, ac_mode = sn_mode sn,
      ac_command = slices_clone (sn_command sn), ac_shell_command = sn_shell_command sn,
      ac_cwd = sn_cwd sn, ac_timeout = sn_timeout sn, ac_env = sn_env sn,
      ac_concurrency_policy = sn_concurrency_policy sn,
      ac_max_output_bytes = sn_max_output_bytes sn, ac_enabled = sn_enabled sn\<rparr>"

definition action_from_stored_run :: "run \<Rightarrow> action" where
  "action_from_stored_run r = action_from_snapshot (rn_action_name r) (rn_snapshot r)"

subsection \<open>The process that is started\<close>

definition build_command :: "action \<Rightarrow> go_error + string list" where
  "build_command a =
     (if ac_mode a = action_mode_command then
        (if ac_command a = []
         then Inl (errorf [Txt ''action '', Quoted (ac_name a), Txt '' command is required''])
         else Inr (ac_command a))
      else if ac_mode a = action_mode_shell then
        (if trim_space (ac_shell_command a) = []
         then Inl (errorf [Txt ''action '', Quoted (ac_name a), Txt '' shell command is required''])
         else Inr [shell_path, ''-c'', ac_shell_command a])
      else Inl (errorf [Txt ''action '', Quoted (ac_name a), Txt '' has unsupported mode '',
             Quoted (ac_mode a)]))"

definition env_entries ::
    "string option \<Rightarrow> string gomap \<Rightarrow> string \<Rightarrow> string \<Rightarrow> string \<Rightarrow> string gomap" where
  "env_entries path configured run_id action_name request_id =
     (let base = [(''PATH'', case path of
            Some p \<Rightarrow> if trim_space p \<noteq> [] then p else default_exec_path
          | None \<Rightarrow> default_exec_path)];
          env = gomap_copy base configured
      in AList.update env_request_id request_id
           (AList.update env_action action_name (AList.update env_run_id run_id env)))"

text \<open>\<open>path\<close> is the \<open>PATH\<close> of the service, if set; the entries are printed in key order.\<close>

definition build_env ::
    "string option \<Rightarrow> string gomap \<Rightarrow> string \<Rightarrow> string \<Rightarrow> string \<Rightarrow> string list" where
  "build_env path configured run_id action_name request_id =
     (let env = env_entries path configured run_id action_name request_id
      in map (\<lambda>key. key @ ''='' @ (case map_of env key of Some v \<Rightarrow> v | None \<Rightarrow> []))
           (sort (map fst env)))"

text \<open>
  The contexts a process can run under. The context of a request is the one of \<open>net/http\<close>, which
  ends when the client goes away; \<open>Background\<close> never ends.
\<close>

datatype go_context =
    Background
  | Request_Context
  | With_Cancel go_context
  | With_Timeout go_context duration

definition execution_context :: "go_context \<Rightarrow> duration \<Rightarrow> go_context" where
  "execution_context ctx timeout =
     (if timeout \<le> 0 then With_Cancel ctx else With_Timeout ctx timeout)"

record process_spec =
  pc_argv :: "string list"
  pc_dir :: string
  pc_env :: "string list"
  pc_stdin :: bytes
  pc_context :: go_context

text \<open>
  The outcomes of the calls of \<open>execute\<close> once the process is described: whether it starts, the
  chunks it writes, which channel the two \<open>select\<close> statements find ready, what the kill calls
  report, and what \<open>Wait\<close>, \<open>ProcessState\<close> and the contexts show at the end.
\<close>

datatype select_outcome = Wait_First | Wait_Ready | Interrupted

datatype kill_result = Kill_Ok | Kill_Gone | Kill_Failed go_error

datatype ctx_error = Ctx_Canceled | Ctx_Deadline_Exceeded

record process_script =
  os_start_error :: "go_error option"
  os_stdout :: "bytes list"
  os_stderr :: "bytes list"
  os_select :: select_outcome
  os_kill_group :: kill_result
  os_kill_process :: kill_result
  os_wait_error :: "go_error option"
  os_process_state :: "int option"
  os_exec_ctx_error :: "ctx_error option"
  os_run_ctx_error :: "ctx_error option"

record host =
  h_path :: "string option"
  h_is_print :: "nat \<Rightarrow> bool"
  h_spawn :: "process_spec \<Rightarrow> process_script"
  h_random :: "go_error + bytes"
  h_created_at :: time
  h_finished_at :: time
  h_request_time :: duration

subsection \<open>The outcome of a process\<close>

record process_result =
  pr_exit_code :: "int option"
  pr_finished_at :: time
  pr_timed_out :: bool
  pr_stdout_tail :: string
  pr_stderr_tail :: string
  pr_error_summary :: string

text \<open>\<open>ExitCode\<close> of a state, -1 for a process ended by a signal; None when there is no state.\<close>

definition process_exit_code :: "int option \<Rightarrow> int option" where
  "process_exit_code state =
     (case state of None \<Rightarrow> None | Some exit_code \<Rightarrow> if exit_code < 0 then None else Some exit_code)"

definition failure_summary :: "(nat \<Rightarrow> bool) \<Rightarrow> go_error \<Rightarrow> int option \<Rightarrow> string" where
  "failure_summary is_print wait_err exit_code =
     (case exit_code of
        Some c \<Rightarrow> ''process exited with code '' @ format_int c
      | None \<Rightarrow> error_string is_print wait_err)"

definition join_summary :: "string list \<Rightarrow> string" where
  "join_summary parts =
     strings_join (filter (\<lambda>part. part \<noteq> []) (map trim_space parts)) ''; ''"

fun ctx_error_text :: "ctx_error option \<Rightarrow> string" where
  "ctx_error_text None = ''<nil>''"
| "ctx_error_text (Some Ctx_Canceled) = ''context canceled''"
| "ctx_error_text (Some Ctx_Deadline_Exceeded) = ''context deadline exceeded''"

definition interrupted_status ::
    "ctx_error option \<Rightarrow> ctx_error option \<Rightarrow> duration \<Rightarrow> string \<times> string" where
  "interrupted_status exec_err run_err timeout =
     (if timeout > 0 \<and> exec_err = Some Ctx_Deadline_Exceeded \<and> run_err = None
      then (run_status_timed_out, ''process timed out after '' @ duration_string timeout)
      else (run_status_cancelled, ''execution cancelled: '' @ ctx_error_text exec_err))"

definition terminate_process_group :: "bool \<Rightarrow> kill_result \<Rightarrow> kill_result \<Rightarrow> go_error option" where
  "terminate_process_group process_nil kill_group kill_process =
     (if process_nil then None
      else case kill_group of
        Kill_Failed e \<Rightarrow>
          (case kill_process of
             Kill_Failed k \<Rightarrow> errors_join (Some e) (Some k)
           | _ \<Rightarrow> Some e)
      | _ \<Rightarrow> None)"

subsection \<open>Finishing a run\<close>

definition finish_params :: "run \<Rightarrow> string \<Rightarrow> process_result \<Rightarrow> update_run_params" where
  "finish_params r status result =
     \<lparr>up_id = rn_id r, up_status = status, up_exit_code = pr_exit_code result,
      up_started_at = rn_started_at r, up_finished_at = Some (pr_finished_at result),
      up_timed_out = pr_timed_out result, up_stdout_tail = pr_stdout_tail result,
      up_stderr_tail = pr_stderr_tail result, up_error_summary = pr_error_summary result\<rparr>"

definition finish_run ::
    "'s run_store_ops \<Rightarrow> run \<Rightarrow> string \<Rightarrow> process_result \<Rightarrow> 's \<Rightarrow> (go_error + run) \<times> 's" where
  "finish_run ops r status result s =
     (case op_update_run ops (finish_params r status result) s of
        (Some e, s') \<Rightarrow>
          (Inl (wrap_error [Txt ''update run '', Quoted (rn_id r), Txt '': ''] e []), s')
      | (None, s') \<Rightarrow>
          (case op_get_run ops (rn_id r) s' of
             (Inl e, s'') \<Rightarrow>
               (Inl (wrap_error [Txt ''get run '', Quoted (rn_id r), Txt '' after update: ''] e []), s'')
           | (Inr updated, s'') \<Rightarrow> (Inr updated, s'')))"

definition finish_completion ::
    "'s run_store_ops \<Rightarrow> host \<Rightarrow> run \<Rightarrow> string \<Rightarrow> string \<Rightarrow> int option \<Rightarrow> go_error option \<Rightarrow> 's
       \<Rightarrow> (go_error + run) \<times> 's" where
  "finish_completion ops h r stdout_tail stderr_tail state wait_err s =
     (let exit_code = process_exit_code state;
          (status, summary) = (case wait_err of
              None \<Rightarrow> (run_status_succeeded, [])
            | Some e \<Rightarrow> (run_status_failed, failure_summary (h_is_print h) e exit_code))
      in finish_run ops r status
           \<lparr>pr_exit_code = exit_code, pr_finished_at = h_finished_at h, pr_timed_out = False,
            pr_stdout_tail = stdout_tail, pr_stderr_tail = stderr_tail,
            pr_error_summary = summary\<rparr> s)"

subsection \<open>Execute\<close>

definition process_spec_of ::
    "host \<Rightarrow> go_context \<Rightarrow> string list \<Rightarrow> run \<Rightarrow> action \<Rightarrow> bytes \<Rightarrow> string \<Rightarrow> process_spec" where
  "process_spec_of h ctx argv r a input request_id =
     \<lparr>pc_argv = argv, pc_dir = ac_cwd a,
      pc_env = build_env (h_path h) (ac_env a) (rn_id r) (ac_name a) request_id,
      pc_stdin = input, pc_context = execution_context ctx (ac_timeout a)\<rparr>"

definition execute ::
    "'s run_store_ops \<Rightarrow> host \<Rightarrow> go_context \<Rightarrow> run \<Rightarrow> action \<Rightarrow> bytes \<Rightarrow> string \<Rightarrow> 's
       \<Rightarrow> (go_error + run) \<times> 's" where
  "execute ops h ctx r a input request_id s =
     (case build_command a of
        Inl e \<Rightarrow> finish_run ops r run_status_failed
          \<lparr>pr_exit_code = None, pr_finished_at = h_finished_at h, pr_timed_out = False,
           pr_stdout_tail = [], pr_stderr_tail = [],
           pr_error_summary = error_string (h_is_print h) e\<rparr> s
      | Inr argv \<Rightarrow>
        (let os = h_spawn h (process_spec_of h ctx argv r a input request_id);
             fresh = new_tail_buffer (ac_max_output_bytes a)
         in case os_start_error os of
           Some e \<Rightarrow> finish_run ops r run_status_failed
             \<lparr>pr_exit_code = None, pr_finished_at = h_finished_at h, pr_timed_out = False,
              pr_stdout_tail = tail_string fresh, pr_stderr_tail = tail_string fresh,
              pr_error_summary = ''start process: '' @ error_string (h_is_print h) e\<rparr> s
         | None \<Rightarrow>
           (let stdout_tail = tail_string (tail_write_all fresh (os_stdout os));
                stderr_tail = tail_string (tail_write_all fresh (os_stderr os))
            in if os_select os \<noteq> Interrupted then
                 finish_completion ops h r stdout_tail stderr_tail
                   (os_process_state os) (os_wait_error os) s
               else
                 let terminate_err =
                       terminate_process_group False (os_kill_group os) (os_kill_process os);
                     exit_code = process_exit_code (os_process_state os)
                 in if os_wait_error os = None \<or> exit_code \<noteq> None then
                      finish_completion ops h r stdout_tail stderr_tail
                        (os_process_state os) (os_wait_error os) s
                    else
                      let (status, summary) = interrupted_status (os_exec_ctx_error os)
                            (os_run_ctx_error os) (ac_timeout a);
                          summary' = (case terminate_err of
                              None \<Rightarrow> summary
                            | Some e \<Rightarrow> join_summary
                                [summary, ''terminate process group: '' @ error_string (h_is_print h) e])
                      in case finish_run ops r status
                             \<lparr>pr_exit_code = None, pr_finished_at = h_finished_at h,
                              pr_timed_out = (status = run_status_timed_out),
                              pr_stdout_tail = stdout_tail, pr_stderr_tail = stderr_tail,
                              pr_error_summary = summary'\<rparr> s of
                           (Inl e, s') \<Rightarrow> (Inl e, s')
                         | (Inr finished, s') \<Rightarrow>
                             (case terminate_err of
                                None \<Rightarrow> (Inr finished, s')
                              | Some e \<Rightarrow>
                                  (Inl (wrap_error [Txt ''invoke action '', Quoted (ac_name a),
                                     Txt '' run '', Quoted (rn_id r), Txt '': ''] e []), s')))))"

subsection \<open>The service\<close>

record 's service =
  se_store :: "'s run_store_ops option"
  se_registry :: action_registry

text \<open>
  A goroutine started for an asynchronous invocation: what it executes, and the action whose
  reject flag it clears at the end.
\<close>

record job =
  jb_action :: action
  jb_run :: run
  jb_input :: bytes
  jb_request_id :: string
  jb_on_finish :: "string option"

record 's exec_state =
  xs_store :: 's
  xs_reject_running :: "string set"
  xs_jobs :: "job list"

record invoke_params =
  iv_action_name :: string
  iv_mode :: string
  iv_input :: bytes
  iv_request_metadata :: bytes
  iv_request_id :: string

definition new_service :: "'s run_store_ops option \<Rightarrow> action_registry \<Rightarrow> 's service" where
  "new_service store registry = \<lparr>se_store = store, se_registry = registry\<rparr>"

definition new_exec_state :: "'s \<Rightarrow> 's exec_state" where
  "new_exec_state s = \<lparr>xs_store = s, xs_reject_running = {}, xs_jobs = []\<rparr>"

definition has_action :: "'s service \<Rightarrow> string \<Rightarrow> bool" where
  "has_action v name = (registry_get (se_registry v) (trim_space name) \<noteq> None)"

definition validate_json_payload :: "bytes \<Rightarrow> string \<Rightarrow> go_error option" where
  "validate_json_payload value name =
     (if value = [] then None
      else if \<not> json_valid value then Some (errorf [Txt name, Txt '' must be valid JSON''])
      else None)"

definition generate_run_id :: "go_error + bytes \<Rightarrow> go_error + string" where
  "generate_run_id random =
     (case random of
        Inl e \<Rightarrow> Inl e
      | Inr bytes \<Rightarrow> Inr (''run_'' @ concat (map (\<lambda>c. hex_digits 2 (byte_of c)) bytes)))"

definition normalize_invoke_mode :: "string \<Rightarrow> go_error + string" where
  "normalize_invoke_mode mode =
     (let m = trim_space mode in
      if m = [] \<or> m = invoke_mode_sync then Inr invoke_mode_sync
      else if m = invoke_mode_async then Inr invoke_mode_async
      else Inl (sentinel_error ErrInvalidMode))"

definition invoke_error :: "string \<Rightarrow> message \<Rightarrow> go_error \<Rightarrow> go_error" where
  "invoke_error name what e =
     wrap_error ([Txt ''invoke action '', Quoted name, Txt '': ''] @ what) e []"

definition create_params_of ::
    "host \<Rightarrow> action \<Rightarrow> string \<Rightarrow> bytes \<Rightarrow> bool \<Rightarrow> string \<Rightarrow> create_run_params" where
  "create_params_of h a status request_metadata started run_id =
     \<lparr>cp_id = run_id, cp_action_name = ac_name a, cp_status = status,
      cp_created_at = h_created_at h,
      cp_started_at = (if started then Some (h_created_at h) else None),
      cp_request_metadata = request_metadata, cp_stdout_tail = [], cp_stderr_tail = [],
      cp_error_summary = [], cp_snapshot = action_snapshot_from_config a\<rparr>"

definition create_run ::
    "'s run_store_ops \<Rightarrow> host \<Rightarrow> action \<Rightarrow> string \<Rightarrow> bytes \<Rightarrow> bool \<Rightarrow> 's \<Rightarrow> (go_error + run) \<times> 's" where
  "create_run ops h a status request_metadata started s =
     (case generate_run_id (h_random h) of
        Inl e \<Rightarrow> (Inl (invoke_error (ac_name a) [Txt ''generate run id: ''] e), s)
      | Inr run_id \<Rightarrow>
        (case op_create_run ops (create_params_of h a status request_metadata started run_id) s of
           (Inl e, s') \<Rightarrow> (Inl (invoke_error (ac_name a) [Txt ''create run: ''] e), s')
         | (Inr r, s') \<Rightarrow> (Inr r, s')))"

definition begin_reject_action :: "string \<Rightarrow> 's exec_state \<Rightarrow> bool \<times> 's exec_state" where
  "begin_reject_action name x =
     (if name \<in> xs_reject_running x then (False, x)
      else (True, x\<lparr>xs_reject_running := insert name (xs_reject_running x)\<rparr>))"

definition finish_reject_action :: "string \<Rightarrow> 's exec_state \<Rightarrow> 's exec_state" where
  "finish_reject_action name x = x\<lparr>xs_reject_running := xs_reject_running x - {name}\<rparr>"

definition start_async_invocation ::
    "action \<Rightarrow> run \<Rightarrow> bytes \<Rightarrow> string \<Rightarrow> string option \<Rightarrow> 's exec_state \<Rightarrow> 's exec_state" where
  "start_async_invocation a r input request_id on_finish x =
     x\<lparr>xs_jobs := xs_jobs x @ [\<lparr>jb_action = a, jb_run = r, jb_input = clone_json input,
        jb_request_id = request_id, jb_on_finish = on_finish\<rparr>]\<rparr>"

text \<open>The body of the goroutine; its result is dropped.\<close>

definition run_job :: "'s run_store_ops \<Rightarrow> host \<Rightarrow> job \<Rightarrow> 's exec_state \<Rightarrow> 's exec_state" where
  "run_job ops h j x =
     (let x' = x\<lparr>xs_store := snd (execute ops h Background (jb_run j) (jb_action j) (jb_input j)
                 (jb_request_id j) (xs_store x))\<rparr>
      in case jb_on_finish j of
           None \<Rightarrow> x'
         | Some name \<Rightarrow> finish_reject_action name x')"

definition invoke_allow ::
    "'s run_store_ops \<Rightarrow> host \<Rightarrow> action \<Rightarrow> string \<Rightarrow> bytes \<Rightarrow> bytes \<Rightarrow> string \<Rightarrow> 's exec_state
       \<Rightarrow> (go_error + run) \<times> 's exec_state" where
  "invoke_allow ops h a mode input request_metadata request_id x =
     (case create_run ops h a run_status_running request_metadata True (xs_store x) of
        (Inl e, s') \<Rightarrow> (Inl e, x\<lparr>xs_store := s'\<rparr>)
      | (Inr r, s') \<Rightarrow>
        (let stored_action = action_from_stored_run r; x' = x\<lparr>xs_store := s'\<rparr> in
         if mode = invoke_mode_async
         then (Inr r, start_async_invocation stored_action r input request_id None x')
         else case execute ops h Request_Context r stored_action input request_id s' of
                (res, s'') \<Rightarrow> (res, x'\<lparr>xs_store := s''\<rparr>)))"

definition invoke_reject ::
    "'s run_store_ops \<Rightarrow> host \<Rightarrow> action \<Rightarrow> string \<Rightarrow> bytes \<Rightarrow> bytes \<Rightarrow> string \<Rightarrow> 's exec_state
       \<Rightarrow> (go_error + run) \<times> 's exec_state" where
  "invoke_reject ops h a mode input request_metadata request_id x =
     (case begin_reject_action (ac_name a) x of
        (False, x1) \<Rightarrow> (Inl (invoke_error (ac_name a) [] (sentinel_error ErrActionConflict)), x1)
      | (True, x1) \<Rightarrow>
        (case create_run ops h a run_status_running request_metadata True (xs_store x1) of
           (Inl e, s') \<Rightarrow> (Inl e, finish_reject_action (ac_name a) (x1\<lparr>xs_store := s'\<rparr>))
         | (Inr r, s') \<Rightarrow>
           (let stored_action = action_from_stored_run r; x2 = x1\<lparr>xs_store := s'\<rparr> in
            if mode = invoke_mode_async
            then (Inr r, start_async_invocation stored_action r input request_id
                    (Some (ac_name a)) x2)
            else case execute ops h Request_Context r stored_action input request_id s' of
                   (res, s'') \<Rightarrow> (res, finish_reject_action (ac_name a) (x2\<lparr>xs_store := s''\<rparr>)))))"

text \<open>The checks of \<open>Invoke\<close>: the action and the mode it goes on with.\<close>

definition check_invocation ::
    "'s service \<Rightarrow> invoke_params \<Rightarrow> go_error + 's run_store_ops \<times> action \<times> string" where
  "check_invocation v p =
     (case se_store v of
        None \<Rightarrow> Inl (errorf [Txt ''invoke action: execution store is required''])
      | Some ops \<Rightarrow>
      (let name = trim_space (iv_action_name p) in
       if name = [] then Inl (errorf [Txt ''invoke action: action name is required''])
       else case registry_get (se_registry v) name of
         None \<Rightarrow> Inl (invoke_error name [] (sentinel_error ErrActionNotFound))
       | Some a \<Rightarrow>
         if \<not> is_enabled a then Inl (invoke_error name [] (sentinel_error ErrActionDisabled))
         else case validate_json_payload (iv_input p) ''input'' of
           Some e \<Rightarrow> Inl (invoke_error name [] e)
         | None \<Rightarrow>
         (case validate_json_payload (iv_request_metadata p) ''request metadata'' of
           Some e \<Rightarrow> Inl (invoke_error name [] e)
         | None \<Rightarrow>
         (case normalize_invoke_mode (iv_mode p) of
           Inl e \<Rightarrow> Inl (invoke_error name [] e)
         | Inr mode \<Rightarrow> Inr (ops, a, mode)))))"

definition unsupported_policy :: "string \<Rightarrow> action \<Rightarrow> go_error" where
  "unsupported_policy name a =
     errorf [Txt ''invoke action '', Quoted name, Txt '': unsupported concurrency policy '',
       Quoted (ac_concurrency_policy a)]"

definition invoke ::
    "'s service \<Rightarrow> host \<Rightarrow> invoke_params \<Rightarrow> 's exec_state \<Rightarrow> (go_error + run) \<times> 's exec_state" where
  "invoke v h p x =
     (case check_invocation v p of
        Inl e \<Rightarrow> (Inl e, x)
      | Inr (ops, a, mode) \<Rightarrow>
        (let input = clone_json (iv_input p);
             request_metadata = clone_json (iv_request_metadata p)
         in if ac_concurrency_policy a = ''allow''
            then invoke_allow ops h a mode input request_metadata (iv_request_id p) x
            else if ac_concurrency_policy a = ''reject''
            then invoke_reject ops h a mode input request_metadata (iv_request_id p) x
            else (Inl (unsupported_policy (trim_space (iv_action_name p)) a), x)))"

lemmas invoke_defs = invoke_def check_invocation_def unsupported_policy_def

subsection \<open>Recovery at startup\<close>

definition recovery_result :: "time \<Rightarrow> process_result" where
  "recovery_result now =
     \<lparr>pr_exit_code = None, pr_finished_at = now, pr_timed_out = False,
      pr_stdout_tail = [], pr_stderr_tail = [], pr_error_summary = restarted_run_summary\<rparr>"

text \<open>The loop over the runs; \<open>clock n\<close> is what the clock shows the \<open>n\<close>-th time.\<close>

fun cancel_runs ::
    "'s run_store_ops \<Rightarrow> (nat \<Rightarrow> time) \<Rightarrow> nat \<Rightarrow> run list \<Rightarrow> 's \<Rightarrow> go_error option \<times> 's" where
  "cancel_runs ops clock n [] s = (None, s)"
| "cancel_runs ops clock n (r # rs) s =
     (case finish_run ops r run_status_cancelled (recovery_result (clock n)) s of
        (Inl e, s') \<Rightarrow>
          (Some (wrap_error [Txt ''recover execution state: cancel interrupted run '',
             Quoted (rn_id r), Txt '': ''] e []), s')
      | (Inr _, s') \<Rightarrow> cancel_runs ops clock (Suc n) rs s')"

definition cancel_interrupted_runs ::
    "'s run_store_ops \<Rightarrow> (nat \<Rightarrow> time) \<Rightarrow> 's \<Rightarrow> go_error option \<times> 's" where
  "cancel_interrupted_runs ops clock s =
     (case op_list_runs ops \<lparr>ff_action_name = [], ff_status = run_status_running\<rparr> s of
        (Inl e, s') \<Rightarrow>
          (Some (wrap_error [Txt ''recover execution state: list running runs: ''] e []), s')
      | (Inr runs, s') \<Rightarrow> cancel_runs ops clock 0 runs s')"

definition recover :: "'s service \<Rightarrow> (nat \<Rightarrow> time) \<Rightarrow> 's exec_state \<Rightarrow> go_error option \<times> 's exec_state" where
  "recover v clock x =
     (case se_store v of
        None \<Rightarrow> (Some (errorf [Txt ''recover execution state: execution store is required'']), x)
      | Some ops \<Rightarrow>
          (case cancel_interrupted_runs ops clock (xs_store x) of
             (res, s') \<Rightarrow> (res, x\<lparr>xs_store := s'\<rparr>)))"

end
