(* ===== verification/Token_Format.thy ===== *)
theory Token_Format
  imports Go_Strings
begin

section \<open>Bearer token format\<close>

text \<open>
  \<open>internal/auth/tokenformat\<close>: a token is the prefix \<open>mhv1_\<close> and the unpadded URL-safe
  base64 text of 32 random bytes. The first part models the standard library's
  \<open>base64.RawURLEncoding\<close>: \<open>DecodeString\<close> skips carriage returns and newlines, rejects every
  other byte outside the alphabet, and ignores the unused low bits of the last character.
\<close>

subsection \<open>base64.RawURLEncoding\<close>

definition b64_char :: "nat \<Rightarrow> char" where
  "b64_char n =
     char_of (if n < 26 then 65 + n else if n < 52 then 71 + n
              else if n < 62 then n - 4 else if n = 62 then 45 else (95 :: nat))"

definition b64_index :: "char \<Rightarrow> nat option" where
  "b64_index c =
     (let b = byte_of c in
      if 65 \<le> b \<and> b \<le> 90 then Some (b - 65)
      else if 97 \<le> b \<and> b \<le> 122 then Some (b - 71)
      else if 48 \<le> b \<and> b \<le> 57 then Some (b + 4)
      else if b = 45 then Some 62
      else if b = 95 then Some 63 else None)"

fun b64_encode :: "bytes \<Rightarrow> string" where
  "b64_encode [] = []"
| "b64_encode [a] = [b64_char (byte_of a div 4), b64_char (byte_of a mod 4 * 16)]"
| "b64_encode [a, b] =
     [b64_char (byte_of a div 4), b64_char (byte_of a mod 4 * 16 + byte_of b div 16),
      b64_char (byte_of b mod 16 * 4)]"
| "b64_encode (a # b # c # s) =
     [b64_char (byte_of a div 4), b64_char (byte_of a mod 4 * 16 + byte_of b div 16),
      b64_char (byte_of b mod 16 * 4 + byte_of c div 64), b64_char (byte_of c mod 64)]
     @ b64_encode s"

fun b64_decode_groups :: "nat list \<Rightarrow> bytes option" where
  "b64_decode_groups [] = Some []"
| "b64_decode_groups [w] = None"
| "b64_decode_groups [w, x] = Some [char_of (w * 4 + x div 16)]"
| "b64_decode_groups [w, x, y] =
     Some [char_of (w * 4 + x div 16), char_of (x mod 16 * 16 + y div 4)]"
| "b64_decode_groups (w # x # y # z # s) =
     (case b64_decode_groups s of
        None \<Rightarrow> None
      | Some out \<Rightarrow>
          Some (char_of (w * 4 + x div 16) # char_of (x mod 16 * 16 + y div 4)
                # char_of (y mod 4 * 64 + z) # out))"

definition is_newline :: "char \<Rightarrow> bool" where
  "is_newline c \<longleftrightarrow> byte_of c = 10 \<or> byte_of c = 13"

fun b64_indices :: "string \<Rightarrow> nat list option" where
  "b64_indices [] = Some []"
| "b64_indices (c # s) =
     (case b64_index c of
        None \<Rightarrow> None
      | Some i \<Rightarrow> (case b64_indices s of None \<Rightarrow> None | Some is \<Rightarrow> Some (i # is)))"

definition b64_decode :: "string \<Rightarrow> bytes option" where
  "b64_decode s =
     (case b64_indices (filter (\<lambda>c. \<not> is_newline c) s) of
        None \<Rightarrow> None
      | Some is \<Rightarrow> b64_decode_groups is)"

definition b64_encoded_len :: "nat \<Rightarrow> nat" where
  "b64_encoded_len n = n div 3 * 4 + (n mod 3 * 8 + 5) div 6"

definition b64_alphabet :: "char \<Rightarrow> bool" where
  "b64_alphabet c \<longleftrightarrow> b64_index c \<noteq> None"

lemma b64_index_char: "n < 64 \<Longrightarrow> b64_index (b64_char n) = Some n"
proof -
  assume n: "n < 64"
  then consider "n < 26" | "26 \<le> n" "n < 52" | "52 \<le> n" "n < 62" | "n = 62" | "n = 63"
    by linarith
  then show ?thesis
    by cases (simp_all add: b64_index_def b64_char_def Let_def, linarith)
qed

lemma b64_alphabet_char: "n < 64 \<Longrightarrow> b64_alphabet (b64_char n)"
  by (simp add: b64_alphabet_def b64_index_char)

lemma b64_alphabet_graphic: "b64_alphabet c \<Longrightarrow> 33 \<le> byte_of c \<and> byte_of c \<le> 126"
  by (auto simp: b64_alphabet_def b64_index_def Let_def split: if_splits)

lemma b64_alphabet_not_newline: "b64_alphabet c \<Longrightarrow> \<not> is_newline c"
  using b64_alphabet_graphic [of c] by (auto simp: is_newline_def)

lemma b64_indices_None: "b64_indices s = None \<longleftrightarrow> \<not> list_all b64_alphabet s"
  by (induction s) (auto simp: b64_alphabet_def split: option.splits)

lemma length_b64_indices: "b64_indices s = Some is \<Longrightarrow> length is = length s"
  by (induction s arbitrary: "is") (auto split: option.splits)

lemma b64_decode_groups_None: "b64_decode_groups is = None \<longleftrightarrow> length is mod 4 = 1"
  by (induction "is" rule: b64_decode_groups.induct) (auto split: option.splits)

lemma length_b64_decode_groups:
  "b64_decode_groups is = Some out \<Longrightarrow> length out = length is * 6 div 8"
  by (induction "is" arbitrary: out rule: b64_decode_groups.induct) (auto split: option.splits)

lemma byte_lt [simp]: "byte_of c < 256"
  by (metis mod_less_divisor of_char_mod_256 zero_less_numeral)

lemma byte_div_lt: "byte_of c div 4 < 64" "byte_of c div 16 < 16" "byte_of c div 64 < 4"
  using byte_lt [of c] by linarith+

lemma sextet_lt: "byte_of a mod 4 * 16 + byte_of b div 16 < 64"
  "byte_of a mod 16 * 4 + byte_of b div 64 < 64" "byte_of a mod 4 * 16 < 64"
  "byte_of a mod 16 * 4 < 64"
  using byte_div_lt [of b] mod_less_divisor [of 4 "byte_of a"] mod_less_divisor [of 16 "byte_of a"]
  by linarith+

lemmas sextets = byte_div_lt sextet_lt

lemma b64_encode_alphabet: "list_all b64_alphabet (b64_encode s)"
  by (induction s rule: b64_encode.induct) (simp_all add: b64_alphabet_char sextets)

lemma length_b64_encode: "length (b64_encode s) = b64_encoded_len (length s)"
  by (induction s rule: b64_encode.induct) (simp_all add: b64_encoded_len_def div_add_self1)

lemma char_of_eq: "n = byte_of c \<Longrightarrow> char_of n = c"
  by simp

lemma split_digits:
  "y < m \<Longrightarrow> (x * m + y) div m = x" "y < m \<Longrightarrow> (x * m + y) mod m = (y :: nat)"
  by simp_all

lemma join_sextets:
  "byte_of a div 4 * 4 + byte_of a mod 4 * 16 div 16 = byte_of a"
  "byte_of a div 4 * 4 + (byte_of a mod 4 * 16 + byte_of b div 16) div 16 = byte_of a"
  "(byte_of a mod 4 * 16 + byte_of b div 16) mod 16 * 16 + byte_of b mod 16 * 4 div 4 = byte_of b"
  "(byte_of a mod 4 * 16 + byte_of b div 16) mod 16 * 16
     + (byte_of b mod 16 * 4 + byte_of c div 64) div 4 = byte_of b"
  "(byte_of b mod 16 * 4 + byte_of c div 64) mod 4 * 64 + byte_of c mod 64 = byte_of c"
  by (simp_all add: split_digits byte_div_lt mult.commute [of _ 4] mult.commute [of _ 16])

lemma b64_decode_encode: "b64_decode (b64_encode s) = Some s"
proof -
  have "filter (\<lambda>c. \<not> is_newline c) (b64_encode s) = b64_encode s"
    using b64_encode_alphabet [of s]
    by (auto simp: filter_id_conv list_all_iff b64_alphabet_not_newline)
  moreover have "(case b64_indices (b64_encode s) of None \<Rightarrow> None | Some is \<Rightarrow> b64_decode_groups is)
      = Some s"
    by (induction s rule: b64_encode.induct)
      (auto simp: b64_index_char sextets join_sextets split: option.splits)
  ultimately show ?thesis by (simp add: b64_decode_def)
qed

lemma b64_encode_inject: "b64_encode s = b64_encode t \<Longrightarrow> s = t"
  by (metis b64_decode_encode option.inject)

subsection \<open>tokenformat\<close>

definition token_prefix :: string where
  "token_prefix = ''mhv1_''"

definition raw_token_bytes :: nat where
  "raw_token_bytes = 32"

definition encoded_token_length :: nat where
  "encoded_token_length = b64_encoded_len raw_token_bytes"

text \<open>\<open>Generate\<close>, from the outcome of \<open>rand.Read\<close> on a 32-byte buffer.\<close>

definition generate_token :: "go_error + bytes \<Rightarrow> go_error + string" where
  "generate_token rand =
     (case rand of Inl e \<Rightarrow> Inl e | Inr raw \<Rightarrow> Inr (token_prefix @ b64_encode raw))"

text \<open>\<open>Validate\<close>: None is the nil error.\<close>

definition validate_token :: "string \<Rightarrow> go_error option" where
  "validate_token value =
     (if \<not> has_prefix value token_prefix then Some (sentinel_error ErrInvalidToken)
      else let encoded = trim_prefix value token_prefix in
        if length encoded \<noteq> encoded_token_length then Some (sentinel_error ErrInvalidToken)
        else case b64_decode encoded of
            None \<Rightarrow> Some (sentinel_error ErrInvalidToken)
          | Some raw \<Rightarrow>
              if length raw \<noteq> raw_token_bytes then Some (sentinel_error ErrInvalidToken)
              else None)"

text \<open>The language of tokens: the prefix and 43 characters of the URL-safe alphabet.\<close>

definition token_shape :: "string \<Rightarrow> bool" where
  "token_shape v \<longleftrightarrow>
     take 5 v = ''mhv1_'' \<and> length v = 48 \<and> list_all b64_alphabet (drop 5 v)"

lemma encoded_token_length_eq [simp]: "encoded_token_length = 43"
  by (simp add: encoded_token_length_def raw_token_bytes_def b64_encoded_len_def)

lemma decode_full_length:
  assumes "length enc = 43"
  shows "(\<exists>raw. b64_decode enc = Some raw \<and> length raw = 32) \<longleftrightarrow> list_all b64_alphabet enc"
proof
  assume "\<exists>raw. b64_decode enc = Some raw \<and> length raw = 32"
  then obtain raw "is" where
    ind: "b64_indices (filter (\<lambda>c. \<not> is_newline c) enc) = Some is"
    and grp: "b64_decode_groups is = Some raw" and len: "length raw = 32"
    by (auto simp: b64_decode_def split: option.splits)
  let ?enc' = "filter (\<lambda>c. \<not> is_newline c) enc"
  have "length ?enc' * 6 div 8 = 32"
    using length_b64_decode_groups [OF grp] length_b64_indices [OF ind] len by simp
  then have "\<not> length ?enc' < length enc" using assms by linarith
  then have "?enc' = enc"
    using length_filter_less by (metis filter_id_conv)
  with ind show "list_all b64_alphabet enc"
    using b64_indices_None [of enc] by auto
next
  assume al: "list_all b64_alphabet enc"
  then have "filter (\<lambda>c. \<not> is_newline c) enc = enc"
    by (auto simp: filter_id_conv list_all_iff b64_alphabet_not_newline)
  moreover obtain "is" where ind: "b64_indices enc = Some is"
    using al b64_indices_None by (cases "b64_indices enc") auto
  moreover obtain raw where grp: "b64_decode_groups is = Some raw"
    using b64_decode_groups_None [of "is"] length_b64_indices [OF ind] assms
    by (cases "b64_decode_groups is") auto
  moreover have "length raw = 32"
    using length_b64_decode_groups [OF grp] length_b64_indices [OF ind] assms by simp
  ultimately show "\<exists>raw. b64_decode enc = Some raw \<and> length raw = 32"
    by (simp add: b64_decode_def)
qed

lemma validate_token_iff: "validate_token v = None \<longleftrightarrow> token_shape v"
proof (cases "has_prefix v token_prefix")
  case False
  moreover have "\<not> token_shape v"
  proof
    assume "token_shape v"
    then have "v = token_prefix @ drop 5 v"
      by (metis append_take_drop_id token_prefix_def token_shape_def)
    with False show False by (metis has_prefix_append)
  qed
  ultimately show ?thesis by (simp add: validate_token_def)
next
  case True
  then obtain enc where v: "v = token_prefix @ enc" by (auto simp: has_prefix_append)
  have "validate_token v = None \<longleftrightarrow>
      length enc = 43 \<and> (\<exists>raw. b64_decode enc = Some raw \<and> length raw = 32)"
    using True by (auto simp: validate_token_def v raw_token_bytes_def split: option.splits)
  also have "\<dots> \<longleftrightarrow> length enc = 43 \<and> list_all b64_alphabet enc"
    using decode_full_length by blast
  also have "\<dots> \<longleftrightarrow> token_shape v"
    by (auto simp: v token_shape_def token_prefix_def)
  finally show ?thesis .
qed

lemma token_shape_graphic: "token_shape v \<Longrightarrow> graphic v"
proof -
  assume sh: "token_shape v"
  then have "set v = set ''mhv1_'' \<union> set (drop 5 v)"
    by (metis append_take_drop_id set_append token_shape_def)
  then have "c \<in> set ''mhv1_'' \<or> b64_alphabet c" if "c \<in> set v" for c
    using sh that by (auto simp: token_shape_def list_all_iff)
  then show "graphic v"
    using b64_alphabet_graphic by (fastforce simp: graphic_def)
qed

lemma validate_token_sentinel: "validate_token v = Some e \<Longrightarrow> errors_is e ErrInvalidToken"
  by (auto simp: validate_token_def Let_def split: if_splits option.splits)

text \<open>
  C27: the validator accepts exactly the strings made of the prefix \<open>mhv1_\<close> and 43 characters
  of the URL-safe base64 alphabet; in particular the newlines that the base64 decoder skips
  never get through.
\<close>

theorem validate_token_accepts: "validate_token v = None \<longleftrightarrow> token_shape v"
  by (rule validate_token_iff)

text \<open>
  C28: every generated token passes validation, its text decodes back to the random bytes it
  was made of, and two different random strings never give the same token.
\<close>

theorem generate_token_roundtrip:
  assumes "length raw = raw_token_bytes"
  shows "\<exists>v. generate_token (Inr raw) = Inr v \<and> validate_token v = None
           \<and> b64_decode (trim_prefix v token_prefix) = Some raw
           \<and> (\<forall>raw'. generate_token (Inr raw') = Inr v \<longrightarrow> raw' = raw)"
proof -
  let ?v = "token_prefix @ b64_encode raw"
  have "length (b64_encode raw) = 43"
    using assms by (simp add: length_b64_encode raw_token_bytes_def b64_encoded_len_def)
  then have "token_shape ?v"
    by (simp add: token_shape_def token_prefix_def b64_encode_alphabet)
  then show ?thesis
    by (auto simp: generate_token_def validate_token_iff b64_decode_encode dest: b64_encode_inject)
qed

theorem generate_token_roundtrip_witness:
  "\<exists>v. generate_token (Inr (replicate 32 (CHR ''a''))) = Inr v \<and> validate_token v = None"
  using generate_token_roundtrip [of "replicate 32 (CHR ''a'')"]
  by (auto simp: raw_token_bytes_def)

end
