(* ===== verification/Validate.thy ===== *)
theory Validate
  imports Config Token_Format
begin

section \<open>Configuration validation\<close>

text \<open>
  \<open>internal/config/validate.go\<close>. Each check of the source takes the pointer to the
  accumulated errors and adds messages to it; here it takes the list and returns the longer
  one, and the checks that also build a table of names return it beside the list. The second
  half states the rules of a valid configuration without reference to the order of the
  checks and proves that \<open>validate\<close> reports nothing exactly for those configurations.
\<close>

definition validate_server :: "validation_errors \<Rightarrow> server_config \<Rightarrow> validation_errors" where
  "validate_server errs server =
     (let errs1 = (if trim_space (sv_listen server) = []
                   then ve_add errs [Txt ''server.listen is required''] else errs)
      in if sv_log_format server = default_log_format \<or> sv_log_format server = ''text'' then errs1
         else if sv_log_format server = [] then ve_add errs1 [Txt ''server.log_format is required'']
         else ve_add errs1 [Txt ''server.log_format must be one of: json, text''])"

definition validate_storage :: "validation_errors \<Rightarrow> storage_config \<Rightarrow> validation_errors" where
  "validate_storage errs storage =
     (let errs1 = (if trim_space (sc_path storage) = []
                   then ve_add errs [Txt ''storage.path is required''] else errs);
          errs2 = (if sc_retention_days storage < 0
                   then ve_add errs1
                     [Txt ''storage.retention_days must be greater than or equal to 0'']
                   else errs1)
      in if sc_max_runs storage < 0
         then ve_add errs2 [Txt ''storage.max_runs must be greater than or equal to 0'']
         else errs2)"

text \<open>One iteration of the loop of \<open>validateEnv\<close>, for a key of the sorted key list.\<close>

definition validate_env_key ::
    "validation_errors \<Rightarrow> message \<Rightarrow> string gomap \<Rightarrow> string \<Rightarrow> validation_errors" where
  "validate_env_key errs prefix env key =
     (if trim_space key = [] then ve_add errs (prefix @ [Txt ''.env contains an empty key''])
      else if contains_byte key (CHR ''='') then
        ve_add errs (prefix @ [Txt ''.env key '', Quoted key, Txt '' must not contain '',
           Txt [CHR 0x27, CHR ''='', CHR 0x27]])
      else if contains_byte key nul then
        ve_add errs (prefix @ [Txt ''.env key '', Quoted key, Txt '' must not contain NUL bytes''])
      else if contains_byte (case map_of env key of Some v \<Rightarrow> v | None \<Rightarrow> []) nul then
        ve_add errs (prefix @ [Txt ''.env['', Quoted key, Txt ''] must not contain NUL bytes''])
      else errs)"

definition validate_env :: "validation_errors \<Rightarrow> message \<Rightarrow> string gomap \<Rightarrow> validation_errors" where
  "validate_env errs prefix env =
     (if env = [] then errs
      else foldl (\<lambda>e key. validate_env_key e prefix env key) errs (sort (map fst env)))"

fun validate_command_args ::
    "validation_errors \<Rightarrow> message \<Rightarrow> nat \<Rightarrow> string list \<Rightarrow> validation_errors" where
  "validate_command_args errs prefix i [] = errs"
| "validate_command_args errs prefix i (arg # args) =
     validate_command_args
       (if trim_space arg = []
        then ve_add errs (prefix @ [Txt ''.command['', Num (int i), Txt ''] must not be empty''])
        else errs)
       prefix (Suc i) args"

definition validate_action :: "validation_errors \<Rightarrow> message \<Rightarrow> action \<Rightarrow> validation_errors" where
  "validate_action errs prefix a =
     (let has_command = (ac_command a \<noteq> []);
          has_shell_command = (trim_space (ac_shell_command a) \<noteq> []);
          errs1 = (if has_command = has_shell_command
                   then ve_add errs
                     (prefix @ [Txt '' must define exactly one of command or shell_command''])
                   else errs);
          errs2 = validate_command_args errs1 prefix 0 (ac_command a);
          errs3 = (if ac_concurrency_policy a = ''allow'' \<or> ac_concurrency_policy a = ''reject''
                   then errs2
                   else if ac_concurrency_policy a = []
                   then ve_add errs2 (prefix @ [Txt ''.concurrency_policy is required''])
                   else ve_add errs2
                     (prefix @ [Txt ''.concurrency_policy must be one of: allow, reject'']));
          errs4 = (if ac_max_output_bytes a < 0
                   then ve_add errs3
                     (prefix @ [Txt ''.max_output_bytes must be greater than or equal to 0''])
                   else errs3);
          errs5 = (if contains_byte (ac_cwd a) nul
                   then ve_add errs4 (prefix @ [Txt ''.cwd must not contain NUL bytes''])
                   else errs4)
      in validate_env errs5 prefix (ac_env a))"

text \<open>The loop of \<open>validateActions\<close> from index \<open>i\<close>, with the table of names built so far.\<close>

fun validate_actions_loop ::
    "nat \<Rightarrow> validation_errors \<Rightarrow> (string \<rightharpoonup> nat) \<Rightarrow> action list
       \<Rightarrow> validation_errors \<times> (string \<rightharpoonup> nat)" where
  "validate_actions_loop i errs names [] = (errs, names)"
| "validate_actions_loop i errs names (a # as) =
     (let prefix = action_prefix i;
          (errs1, names1) =
            (if ac_name a = [] then (ve_add errs (prefix @ [Txt ''.name is required'']), names)
             else case names (ac_name a) of
                 Some previous \<Rightarrow>
                   (ve_add errs (prefix @ [Txt ''.name duplicates ''] @ action_prefix previous
                      @ [Txt ''.name ('', Quoted (ac_name a), Txt '')'']), names)
               | None \<Rightarrow> (errs, names(ac_name a \<mapsto> i)))
      in validate_actions_loop (Suc i) (validate_action errs1 prefix a) names1 as)"

definition validate_actions ::
    "validation_errors \<Rightarrow> action list \<Rightarrow> validation_errors \<times> (string \<rightharpoonup> nat)" where
  "validate_actions errs actions = validate_actions_loop 0 errs Map.empty actions"

definition token_index_prefix :: "nat \<Rightarrow> message" where
  "token_index_prefix i = [Txt ''auth.tokens['', Num (int i), Txt '']'']"

definition token_action_prefix :: "message \<Rightarrow> nat \<Rightarrow> message" where
  "token_action_prefix prefix j = prefix @ [Txt ''.actions['', Num (int j), Txt '']'']"

text \<open>The inner loop of \<open>validateTokens\<close>: the scope of one token.\<close>

fun validate_scope ::
    "validation_errors \<Rightarrow> message \<Rightarrow> (string \<rightharpoonup> nat) \<Rightarrow> nat \<Rightarrow> (string \<rightharpoonup> nat) \<Rightarrow> string list
       \<Rightarrow> validation_errors" where
  "validate_scope errs prefix known j seen [] = errs"
| "validate_scope errs prefix known j seen (name # names) =
     (if name = [] then
        validate_scope (ve_add errs (token_action_prefix prefix j @ [Txt '' must not be empty'']))
          prefix known (Suc j) seen names
      else case seen name of
          Some previous \<Rightarrow>
            validate_scope
              (ve_add errs (token_action_prefix prefix j @ [Txt '' duplicates '']
                 @ token_action_prefix prefix previous @ [Txt '' ('', Quoted name, Txt '')'']))
              prefix known (Suc j) seen names
        | None \<Rightarrow>
            validate_scope
              (if known name = None
               then ve_add errs (token_action_prefix prefix j
                      @ [Txt '' references unknown action '', Quoted name])
               else errs)
              prefix known (Suc j) (seen(name \<mapsto> j)) names)"

fun validate_tokens_loop ::
    "nat \<Rightarrow> validation_errors \<Rightarrow> (string \<rightharpoonup> nat) \<Rightarrow> (string \<rightharpoonup> nat) \<Rightarrow> token list
       \<Rightarrow> validation_errors" where
  "validate_tokens_loop i errs known names [] = errs"
| "validate_tokens_loop i errs known names (t # ts) =
     (let prefix = token_index_prefix i;
          (errs1, names1) =
            (if tk_name t = [] then (ve_add errs (prefix @ [Txt ''.name is required'']), names)
             else case names (tk_name t) of
                 Some previous \<Rightarrow>
                   (ve_add errs (prefix @ [Txt ''.name duplicates ''] @ token_index_prefix previous
                      @ [Txt ''.name ('', Quoted (tk_name t), Txt '')'']), names)
               | None \<Rightarrow> (errs, names(tk_name t \<mapsto> i)));
          errs2 =
            (if tk_value t = [] then ve_add errs1 (prefix @ [Txt ''.value is required''])
             else if validate_token (tk_value t) \<noteq> None
             then ve_add errs1 (prefix @
               [Txt ''.value must be a valid Microhook token generated by `microhook generate-token`''])
             else errs1);
          errs3 = validate_scope errs2 prefix known 0 Map.empty (tk_actions t)
      in validate_tokens_loop (Suc i) errs3 known names1 ts)"

definition validate_tokens ::
    "validation_errors \<Rightarrow> token list \<Rightarrow> (string \<rightharpoonup> nat) \<Rightarrow> validation_errors" where
  "validate_tokens errs tokens known = validate_tokens_loop 0 errs known Map.empty tokens"

text \<open>\<open>Config.Validate\<close>: None is the nil error.\<close>

definition validate :: "config \<Rightarrow> validation_errors option" where
  "validate c =
     (let errs1 = validate_server [] (cf_server c);
          errs2 = validate_storage errs1 (cf_storage c);
          (errs3, names) = validate_actions errs2 (cf_actions c);
          errs4 = validate_tokens errs3 (au_tokens (cf_auth c)) names
      in ve_or_nil errs4)"

subsection \<open>The rules of a valid configuration\<close>

definition valid_server :: "server_config \<Rightarrow> bool" where
  "valid_server s \<longleftrightarrow> trim_space (sv_listen s) \<noteq> [] \<and> sv_log_format s \<in> {''json'', ''text''}"

definition valid_storage :: "storage_config \<Rightarrow> bool" where
  "valid_storage s \<longleftrightarrow>
     trim_space (sc_path s) \<noteq> [] \<and> 0 \<le> sc_retention_days s \<and> 0 \<le> sc_max_runs s"

definition valid_env :: "string gomap \<Rightarrow> bool" where
  "valid_env env \<longleftrightarrow>
     (\<forall>k \<in> fst ` set env. trim_space k \<noteq> [] \<and> CHR ''='' \<notin> set k \<and> nul \<notin> set k
        \<and> (\<forall>v. map_of env k = Some v \<longrightarrow> nul \<notin> set v))"

definition valid_action :: "action \<Rightarrow> bool" where
  "valid_action a \<longleftrightarrow>
     (ac_command a \<noteq> []) \<noteq> (trim_space (ac_shell_command a) \<noteq> [])
     \<and> (\<forall>arg \<in> set (ac_command a). trim_space arg \<noteq> [])
     \<and> ac_concurrency_policy a \<in> {''allow'', ''reject''}
     \<and> 0 \<le> ac_max_output_bytes a
     \<and> nul \<notin> set (ac_cwd a)
     \<and> valid_env (ac_env a)"

definition valid_actions :: "action list \<Rightarrow> bool" where
  "valid_actions as \<longleftrightarrow>
     (\<forall>a \<in> set as. ac_name a \<noteq> [] \<and> valid_action a) \<and> distinct (map ac_name as)"

definition valid_token :: "string set \<Rightarrow> token \<Rightarrow> bool" where
  "valid_token known t \<longleftrightarrow>
     tk_name t \<noteq> [] \<and> token_shape (tk_value t) \<and> [] \<notin> set (tk_actions t)
     \<and> distinct (tk_actions t) \<and> set (tk_actions t) \<subseteq> known"

definition valid_tokens :: "string set \<Rightarrow> token list \<Rightarrow> bool" where
  "valid_tokens known ts \<longleftrightarrow>
     (\<forall>t \<in> set ts. valid_token known t) \<and> distinct (map tk_name ts)"

definition valid_config :: "config \<Rightarrow> bool" where
  "valid_config c \<longleftrightarrow>
     valid_server (cf_server c) \<and> valid_storage (cf_storage c) \<and> valid_actions (cf_actions c)
     \<and> valid_tokens (ac_name ` set (cf_actions c)) (au_tokens (cf_auth c))"

subsection \<open>The checks implement the rules\<close>

named_theorems validate_nil \<open>when a check leaves the error list empty\<close>

lemma validate_server_nil [validate_nil]:
  "validate_server errs s = [] \<longleftrightarrow> errs = [] \<and> valid_server s"
  by (auto simp: validate_server_def valid_server_def default_log_format_def Let_def)

lemma validate_storage_nil [validate_nil]:
  "validate_storage errs s = [] \<longleftrightarrow> errs = [] \<and> valid_storage s"
  by (auto simp: validate_storage_def valid_storage_def Let_def)

lemma validate_env_key_nil [validate_nil]:
  "validate_env_key errs prefix env key = [] \<longleftrightarrow>
     errs = [] \<and> trim_space key \<noteq> [] \<and> CHR ''='' \<notin> set key \<and> nul \<notin> set key
     \<and> (\<forall>v. map_of env key = Some v \<longrightarrow> nul \<notin> set v)"
  by (cases "map_of env key") (simp_all add: validate_env_key_def contains_byte_def)

lemma validate_env_keys_nil:
  "foldl (\<lambda>e key. validate_env_key e prefix env key) errs keys = [] \<longleftrightarrow>
     errs = [] \<and> (\<forall>key \<in> set keys. validate_env_key [] prefix env key = [])"
  by (induction keys arbitrary: errs) (auto simp: validate_nil)

lemma validate_env_nil [validate_nil]:
  "validate_env errs prefix env = [] \<longleftrightarrow> errs = [] \<and> valid_env env"
  by (auto simp: validate_env_def valid_env_def validate_env_keys_nil validate_env_key_nil)

lemma validate_command_args_nil [validate_nil]:
  "validate_command_args errs prefix i args = [] \<longleftrightarrow>
     errs = [] \<and> (\<forall>arg \<in> set args. trim_space arg \<noteq> [])"
  by (induction errs prefix i args rule: validate_command_args.induct) auto

lemma validate_action_nil [validate_nil]:
  "validate_action errs prefix a = [] \<longleftrightarrow> errs = [] \<and> valid_action a"
  by (auto simp: validate_action_def valid_action_def validate_nil contains_byte_def Let_def
      split: if_splits)

lemma validate_actions_loop_nil:
  "fst (validate_actions_loop i errs names as) = [] \<longleftrightarrow>
     errs = [] \<and> valid_actions as \<and> ac_name ` set as \<inter> dom names = {}"
proof (induction as arbitrary: i errs names)
  case Nil
  then show ?case by (simp add: valid_actions_def)
next
  case (Cons a as)
  have split: "valid_actions (a # as) \<longleftrightarrow> ac_name a \<noteq> [] \<and> valid_action a \<and> valid_actions as
      \<and> ac_name a \<notin> ac_name ` set as"
    by (auto simp: valid_actions_def image_iff)
  show ?case
  proof (cases "ac_name a = [] \<or> names (ac_name a) \<noteq> None")
    case True
    then show ?thesis
      by (auto simp: Let_def Cons.IH validate_action_nil split)
  next
    case False
    then show ?thesis
      by (auto simp: Let_def Cons.IH validate_action_nil split domIff simp del: fun_upd_apply)
  qed
qed

lemma validate_actions_loop_names:
  "dom (snd (validate_actions_loop i errs names as)) = dom names \<union> (ac_name ` set as - {[]})"
proof (induction as arbitrary: i errs names)
  case Nil
  then show ?case by simp
next
  case (Cons a as)
  show ?case
    by (auto simp: Let_def Cons.IH split: if_splits option.splits)
qed

lemma validate_scope_nil:
  "validate_scope errs prefix known j seen names = [] \<longleftrightarrow>
     errs = [] \<and> [] \<notin> set names \<and> distinct names \<and> set names \<subseteq> dom known
     \<and> set names \<inter> dom seen = {}"
proof (induction errs prefix known j seen names rule: validate_scope.induct)
  case (1 errs prefix known j seen)
  then show ?case by simp
next
  case (2 errs prefix known j seen name names)
  show ?case
  proof (cases "name = []")
    case True
    with "2.IH"(1) show ?thesis by simp
  next
    case False
    show ?thesis
    proof (cases "seen name")
      case (Some p)
      with "2.IH"(3) [OF False Some] False show ?thesis by (auto simp: domIff)
    next
      case None
      with "2.IH"(2) [OF False None] False show ?thesis
        by (cases "known name") (auto simp: domIff simp del: fun_upd_apply)
    qed
  qed
qed

lemma validate_tokens_loop_nil:
  "validate_tokens_loop i errs known names ts = [] \<longleftrightarrow>
     errs = [] \<and> valid_tokens (dom known) ts \<and> tk_name ` set ts \<inter> dom names = {}"
proof (induction ts arbitrary: i errs names)
  case Nil
  then show ?case by (simp add: valid_tokens_def)
next
  case (Cons t ts)
  have split: "valid_tokens (dom known) (t # ts) \<longleftrightarrow>
      valid_token (dom known) t \<and> valid_tokens (dom known) ts
      \<and> tk_name t \<notin> tk_name ` set ts"
    by (auto simp: valid_tokens_def image_iff)
  have val: "(if tk_value t = [] then ve_add e m1
       else if validate_token (tk_value t) \<noteq> None then ve_add e m2 else e) = [] \<longleftrightarrow>
      e = [] \<and> token_shape (tk_value t)" for e m1 m2
    by (auto simp: validate_token_iff token_shape_def)
  show ?case
  proof (cases "tk_name t = [] \<or> names (tk_name t) \<noteq> None")
    case True
    then show ?thesis
      by (auto simp: Let_def Cons.IH validate_scope_nil split valid_token_def val)
  next
    case False
    then have "validate_tokens_loop i errs known names (t # ts) = [] \<longleftrightarrow>
        (errs = [] \<and> token_shape (tk_value t)) \<and> [] \<notin> set (tk_actions t)
        \<and> distinct (tk_actions t) \<and> set (tk_actions t) \<subseteq> dom known
        \<and> valid_tokens (dom known) ts
        \<and> tk_name ` set ts \<inter> dom (names(tk_name t \<mapsto> i)) = {}"
      by (simp add: Let_def Cons.IH validate_scope_nil val del: fun_upd_apply)
    with False show ?thesis
      by (auto simp: split valid_token_def domIff)
  qed
qed

lemma validate_nil_iff: "validate c = None \<longleftrightarrow> valid_config c"
proof -
  let ?as = "cf_actions c"
  obtain errs names where loop: "validate_actions_loop 0
      (validate_storage (validate_server [] (cf_server c)) (cf_storage c)) Map.empty ?as
      = (errs, names)" by fastforce
  have errs: "errs = [] \<longleftrightarrow>
      valid_server (cf_server c) \<and> valid_storage (cf_storage c) \<and> valid_actions ?as"
    using validate_actions_loop_nil [of 0 "validate_storage (validate_server [] (cf_server c))
      (cf_storage c)" Map.empty ?as] loop
    by (simp add: validate_nil)
  have known: "dom names = ac_name ` set ?as" if "valid_actions ?as"
    using validate_actions_loop_names [of 0 "validate_storage (validate_server [] (cf_server c))
      (cf_storage c)" Map.empty ?as] loop that
    by (auto simp: valid_actions_def)
  have "validate c = None \<longleftrightarrow> errs = [] \<and> valid_tokens (dom names) (au_tokens (cf_auth c))"
    by (simp add: validate_def validate_actions_def validate_tokens_def loop Let_def
        validate_tokens_loop_nil)
  then show ?thesis
    using errs known by (auto simp: valid_config_def)
qed

end
