(* ===== verification/Go_Duration.thy ===== *)
theory Go_Duration
  imports Go_Strings
begin

section \<open>Parsing durations\<close>

text \<open>
  \<open>time.ParseDuration\<close>, which the loader calls on the timeout of an action: a sign, then terms of
  a decimal number and a unit. Integer parts are counted in \<open>uint64\<close> with the overflow checks
  of the library; the fraction of a term goes through \<open>float64\<close>, whose rounding is written out
  below. The last sum can wrap around: two terms of \<open>2^63\<close> ns add up to 0.
\<close>

subsection \<open>Binary floating point\<close>

text \<open>
  A positive \<open>float64\<close> as a mantissa below \<open>2^53\<close> and an exponent. Exponents are unbounded: the only
  number here that can leave the range of \<open>float64\<close> is the scale of a fraction with more than 300
  digits, and dividing by it gives a duration that truncates to 0 either way.
\<close>

type_synonym go_float = "int \<times> int"

fun bit_length :: "int \<Rightarrow> int" where
  "bit_length n = (if n \<le> 0 then 0 else bit_length (n div 2) + 1)"

declare bit_length.simps [simp del]

text \<open>The quotient of two positive integers, rounded to the nearest integer, ties to even.\<close>

definition round_quotient :: "int \<Rightarrow> int \<Rightarrow> int" where
  "round_quotient n d =
     (let k = n div d; r = n mod d in
      if 2 * r < d \<or> 2 * r = d \<and> even k then k else k + 1)"

definition shift_ratio :: "int \<Rightarrow> int \<Rightarrow> int \<Rightarrow> int \<times> int" where
  "shift_ratio e n d = (if 0 \<le> e then (n, d * 2 ^ nat e) else (n * 2 ^ nat (- e), d))"

text \<open>The float nearest to \<open>n / d\<close>, with a mantissa of 53 bits.\<close>

definition float_of_ratio :: "int \<Rightarrow> int \<Rightarrow> go_float" where
  "float_of_ratio n d =
     (let e = bit_length n - bit_length d - 53;
          (p, q) = shift_ratio e n d
      in if p < 2 ^ 53 * q then (round_quotient p q, e)
         else let (p', q') = shift_ratio (e + 1) n d in (round_quotient p' q', e + 1))"

definition float_of_int :: "int \<Rightarrow> go_float" where
  "float_of_int n = float_of_ratio n 1"

definition float_times :: "go_float \<Rightarrow> go_float \<Rightarrow> go_float" where
  "float_times x y =
     (let (m, e) = float_of_ratio (fst x * fst y) 1 in (m, e + snd x + snd y))"

definition float_divide :: "go_float \<Rightarrow> go_float \<Rightarrow> go_float" where
  "float_divide x y =
     (let (m, e) = float_of_ratio (fst x) (fst y) in (m, e + snd x - snd y))"

definition float_truncate :: "go_float \<Rightarrow> int" where
  "float_truncate x =
     (if 0 \<le> snd x then fst x * 2 ^ nat (snd x) else fst x div 2 ^ nat (- snd x))"

subsection \<open>The parser\<close>

definition wrap_uint64 :: "int \<Rightarrow> int" where
  "wrap_uint64 x = x mod 2 ^ 64"

text \<open>\<open>leadingInt\<close>: None when the number exceeds \<open>2^63\<close>.\<close>

fun leading_int :: "int \<Rightarrow> string \<Rightarrow> (int \<times> string) option" where
  "leading_int x [] = Some (x, [])"
| "leading_int x (c # s) =
     (if \<not> is_digit c then Some (x, c # s)
      else if x > 2 ^ 63 div 10 then None
      else let y = wrap_uint64 (x * 10 + int (byte_of c) - 48) in
        if y > 2 ^ 63 then None else leading_int y s)"

text \<open>\<open>leadingFraction\<close>: the flag is set once further digits no longer count.\<close>

fun leading_fraction :: "bool \<Rightarrow> int \<Rightarrow> go_float \<Rightarrow> string \<Rightarrow> int \<times> go_float \<times> string" where
  "leading_fraction overflow x scale [] = (x, scale, [])"
| "leading_fraction overflow x scale (c # s) =
     (if \<not> is_digit c then (x, scale, c # s)
      else if overflow \<or> x > (2 ^ 63 - 1) div 10 then leading_fraction True x scale s
      else let y = wrap_uint64 (x * 10 + int (byte_of c) - 48) in
        if y > 2 ^ 63 then leading_fraction True x scale s
        else leading_fraction False y (float_times scale (float_of_int 10)) s)"

text \<open>\<open>unitMap\<close>; the two spellings of the micro sign are U+00B5 and U+03BC.\<close>

definition duration_units :: "(string \<times> int) list" where
  "duration_units =
     [(''ns'', 1), (''us'', 1000), ([CHR 0xC2, CHR 0xB5, CHR ''s''], 1000),
      ([CHR 0xCE, CHR 0xBC, CHR ''s''], 1000), (''ms'', 1000000), (''s'', 1000000000),
      (''m'', 60000000000), (''h'', 3600000000000)]"

text \<open>The \<open>quote\<close> of the package \<open>time\<close>: bytes that are not printable ASCII as \<open>\x\<close> escapes.\<close>

definition time_quote :: "string \<Rightarrow> string" where
  "time_quote s =
     CHR 0x22 # concat (map (\<lambda>c.
         if byte_of c \<ge> 128 \<or> byte_of c < 32
         then [CHR 0x5C, CHR ''x'', hex_digit (byte_of c div 16), hex_digit (byte_of c mod 16)]
         else if c = CHR 0x22 \<or> c = CHR 0x5C then [CHR 0x5C, c] else [c]) s) @ [CHR 0x22]"

definition invalid_duration :: "string \<Rightarrow> go_error" where
  "invalid_duration orig = errors_new (''time: invalid duration '' @ time_quote orig)"

definition number_byte :: "char \<Rightarrow> bool" where
  "number_byte c \<longleftrightarrow> c = CHR ''.'' \<or> is_digit c"

definition optional_fraction :: "string \<Rightarrow> int \<times> go_float \<times> string \<times> bool" where
  "optional_fraction s =
     (case s of
        [] \<Rightarrow> (0, float_of_int 1, s, False)
      | c # t \<Rightarrow>
          if c = CHR ''.'' then
            (case leading_fraction False 0 (float_of_int 1) t of
               (f, scale, r) \<Rightarrow> (f, scale, r, length r \<noteq> length t))
          else (0, float_of_int 1, s, False))"

text \<open>One round of the loop: the nanoseconds of a term, and what follows it.\<close>

definition parse_term :: "string \<Rightarrow> string \<Rightarrow> go_error + int \<times> string" where
  "parse_term orig s =
     (if s = [] \<or> \<not> number_byte (hd s) then Inl (invalid_duration orig)
      else case leading_int 0 s of
        None \<Rightarrow> Inl (invalid_duration orig)
      | Some (v, s1) \<Rightarrow>
        (case optional_fraction s1 of
          (f, scale, s2, post) \<Rightarrow>
            if length s = length s1 \<and> \<not> post then Inl (invalid_duration orig)
            else
              let u = takeWhile (\<lambda>c. \<not> number_byte c) s2;
                  rest = dropWhile (\<lambda>c. \<not> number_byte c) s2
              in if u = [] then
                   Inl (errors_new (''time: missing unit in duration '' @ time_quote orig))
                 else case map_of duration_units u of
                   None \<Rightarrow> Inl (errors_new (''time: unknown unit '' @ time_quote u
                              @ '' in duration '' @ time_quote orig))
                 | Some unit \<Rightarrow>
                     if v > 2 ^ 63 div unit then Inl (invalid_duration orig)
                     else if f > 0 then
                       (let w = wrap_uint64 (v * unit + float_truncate
                            (float_times (float_of_int f) (float_divide (float_of_int unit) scale)))
                        in if w > 2 ^ 63 then Inl (invalid_duration orig) else Inr (w, rest))
                     else Inr (v * unit, rest)))"

lemma leading_int_length: "leading_int x s = Some (v, r) \<Longrightarrow> length r \<le> length s"
  by (induction x s rule: leading_int.induct) (auto simp: Let_def split: if_splits)

lemma leading_fraction_length: "leading_fraction b x sc s = (f, sc', r) \<Longrightarrow> length r \<le> length s"
  by (induction b x sc s rule: leading_fraction.induct) (auto simp: Let_def split: if_splits)

lemma optional_fraction_length: "optional_fraction s = (f, sc, r, p) \<Longrightarrow> length r \<le> length s"
  by (auto simp: optional_fraction_def dest!: leading_fraction_length
      split: list.splits if_splits prod.splits)

lemma dropWhile_shorter: "takeWhile P s \<noteq> [] \<Longrightarrow> length (dropWhile P s) < length s"
  by (cases s) (auto simp: length_dropWhile_le le_imp_less_Suc split: if_splits)

lemma parse_term_shorter:
  assumes "parse_term orig s = Inr (v, rest)"
  shows "length rest < length s"
proof -
  obtain w s1 where l: "leading_int 0 s = Some (w, s1)"
    using assms by (auto simp: parse_term_def split: if_splits option.splits)
  obtain f sc s2 p where o: "optional_fraction s1 = (f, sc, s2, p)" by (cases "optional_fraction s1")
  have "takeWhile (\<lambda>c. \<not> number_byte c) s2 \<noteq> [] \<and> rest = dropWhile (\<lambda>c. \<not> number_byte c) s2"
    using assms l o by (auto simp: parse_term_def Let_def split: if_splits option.splits)
  then have "length rest < length s2" using dropWhile_shorter by blast
  with leading_int_length [OF l] optional_fraction_length [OF o] show ?thesis by simp
qed

function parse_terms :: "string \<Rightarrow> int \<Rightarrow> string \<Rightarrow> go_error + int" where
  "parse_terms orig d s =
     (if s = [] then Inr d
      else case parse_term orig s of
        Inl e \<Rightarrow> Inl e
      | Inr (v, rest) \<Rightarrow>
          (let d' = wrap_uint64 (d + v) in
           if d' > 2 ^ 63 then Inl (invalid_duration orig) else parse_terms orig d' rest))"
  by pat_completeness auto
termination
  by (relation "measure (\<lambda>(orig, d, s). length s)") (auto dest: parse_term_shorter)

declare parse_terms.simps [simp del]

definition parse_duration :: "string \<Rightarrow> go_error + duration" where
  "parse_duration orig =
     (let neg = (orig \<noteq> [] \<and> hd orig = CHR ''-'');
          s = (if orig \<noteq> [] \<and> (hd orig = CHR ''-'' \<or> hd orig = CHR ''+'') then tl orig else orig)
      in if s = ''0'' then Inr 0
         else if s = [] then Inl (invalid_duration orig)
         else case parse_terms orig 0 s of
           Inl e \<Rightarrow> Inl e
         | Inr d \<Rightarrow>
             if neg then Inr (wrap64 (- d))
             else if d > 2 ^ 63 - 1 then Inl (invalid_duration orig)
             else Inr d)"

text \<open>Texts of the tests of the library, among them one of each kind of rounding and overflow.\<close>

lemma parse_duration_examples:
  "parse_duration ''1h2m3.5s'' = Inr 3723500000000"
  "parse_duration ''-.25s'' = Inr (- 250000000)"
  "parse_duration ''0.3333333333333333333h'' = Inr 1200000000000"
  "parse_duration ''9223372036854775.807us'' = Inr 9223372036854775807"
  "parse_duration ''0.830103483285477580700h'' = Inr 2988372539827"
  "parse_duration ''-9223372036854775808ns'' = Inr (- 9223372036854775808)"
  "parse_duration ''9223372036854775808ns'' = Inl (invalid_duration ''9223372036854775808ns'')"
  by code_simp+

subsection \<open>What is accepted fits 64 bits\<close>

lemma parse_terms_range:
  "parse_terms orig d s = Inr r \<Longrightarrow> 0 \<le> d \<Longrightarrow> d \<le> 2 ^ 63 \<Longrightarrow> 0 \<le> r \<and> r \<le> 2 ^ 63"
proof (induction orig d s rule: parse_terms.induct)
  case (1 orig d s)
  show ?case
  proof (cases "s = []")
    case True
    with "1.prems" show ?thesis by (simp add: parse_terms.simps)
  next
    case False
    with "1.prems" obtain v rest where t: "parse_term orig s = Inr (v, rest)"
      by (auto simp: parse_terms.simps [of orig d s] split: sum.splits)
    have "0 \<le> wrap_uint64 (d + v)" by (simp add: wrap_uint64_def)
    with False "1.prems" "1.IH" [OF False t refl refl] t show ?thesis
      by (simp add: parse_terms.simps [of orig d s] Let_def split: if_splits)
  qed
qed

lemma parse_duration_range: "parse_duration s = Inr d \<Longrightarrow> int64_range d"
  by (auto simp: parse_duration_def Let_def int64_range_def wrap64_id dest!: parse_terms_range
      split: if_splits sum.splits)

subsection \<open>Texts of whole numbers and units\<close>

text \<open>A text such as \<open>1h30m\<close>, and what it means.\<close>

definition duration_text :: "(nat \<times> string) list \<Rightarrow> string" where
  "duration_text ts = concat (map (\<lambda>(n, u). decimal n @ u) ts)"

definition unit_nanoseconds :: "string \<Rightarrow> int" where
  "unit_nanoseconds u = (case map_of duration_units u of None \<Rightarrow> 0 | Some k \<Rightarrow> k)"

definition duration_total :: "(nat \<times> string) list \<Rightarrow> int" where
  "duration_total ts = (\<Sum>(n, u) \<leftarrow> ts. int n * unit_nanoseconds u)"

definition ascii_units :: "string list" where
  "ascii_units = [''ns'', ''us'', ''ms'', ''s'', ''m'', ''h'']"

definition terms_ok :: "(nat \<times> string) list \<Rightarrow> bool" where
  "terms_ok ts \<longleftrightarrow> (\<forall>(n, u) \<in> set ts. u \<in> set ascii_units)"

lemma terms_simps [simp]:
  "duration_text [] = []" "duration_text ((n, u) # ts) = decimal n @ u @ duration_text ts"
  "duration_total [] = 0"
  "duration_total ((n, u) # ts) = int n * unit_nanoseconds u + duration_total ts"
  "terms_ok []" "terms_ok ((n, u) # ts) \<longleftrightarrow> u \<in> set ascii_units \<and> terms_ok ts"
  by (simp_all add: duration_text_def duration_total_def terms_ok_def)

lemma ascii_unit_facts:
  assumes "u \<in> set ascii_units"
  shows "map_of duration_units u = Some (unit_nanoseconds u)" "0 < unit_nanoseconds u"
    "u \<noteq> []" "\<forall>c \<in> set u. \<not> number_byte c" "graphic u"
  using assms
  by (auto simp: ascii_units_def duration_units_def unit_nanoseconds_def number_byte_def
      is_digit_def graphic_def)

lemma le_int_div_iff:
  assumes "0 < (k :: int)"
  shows "x * k \<le> z \<longleftrightarrow> x \<le> z div k"
proof
  assume "x * k \<le> z"
  with assms show "x \<le> z div k" using zdiv_mono1 [of "x * k" z k] by simp
next
  assume "x \<le> z div k"
  then have "x * k \<le> z div k * k" using assms by simp
  also have "\<dots> \<le> z" using assms pos_mod_sign [of k z] div_mult_mod_eq [of z k] by linarith
  finally show "x * k \<le> z" .
qed

lemma leading_int_decimal:
  "leading_int 0 (decimal n @ s) = (if int n \<le> 2 ^ 63 then leading_int (int n) s else None)"
proof (induction n arbitrary: s rule: decimal.induct)
  case (1 n)
  show ?case
  proof (cases "n < 10")
    case True
    then show ?thesis
      by (subst decimal.simps) (simp add: is_digit_def byte_of_digit_char wrap_uint64_def Let_def)
  next
    case False
    have n: "int n = int (n div 10) * 10 + int (n mod 10)"
      by (metis div_mult_mod_eq of_nat_add of_nat_mult of_nat_numeral)
    have d: "is_digit (digit_char (n mod 10))" "byte_of (digit_char (n mod 10)) = 48 + n mod 10"
      by (simp_all add: is_digit_def byte_of_digit_char)
    have "leading_int 0 (decimal n @ s) = leading_int 0 (decimal (n div 10) @ digit_char (n mod 10) # s)"
      using False by (subst decimal.simps) simp
    also have "\<dots> = (if int (n div 10) \<le> 2 ^ 63 then leading_int (int (n div 10)) (digit_char (n mod 10) # s) else None)"
      by (rule "1.IH" [OF False])
    also have "\<dots> = (if int n \<le> 2 ^ 63 then leading_int (int n) s else None)"
    proof (cases "int n \<le> 2 ^ 63")
      case True
      then have "int (n div 10) \<le> 2 ^ 63 div 10" by simp
      with True d n show ?thesis by (simp add: wrap_uint64_def Let_def)
    next
      case big: False
      show ?thesis
      proof (cases "int (n div 10) \<le> 2 ^ 63 div 10")
        case True
        then have "int n \<le> 2 ^ 63 + 9" using n by simp
        then have "wrap_uint64 (int (n div 10) * 10 + int (n mod 10)) = int n"
          by (simp add: wrap_uint64_def n [symmetric])
        with big True d n show ?thesis by (simp add: Let_def add.commute)
      qed (use big d in \<open>simp add: Let_def\<close>)
    qed
    finally show ?thesis .
  qed
qed

lemma duration_total_nonneg: "terms_ok ts \<Longrightarrow> 0 \<le> duration_total ts"
proof (induction ts)
  case (Cons t ts)
  then show ?case using ascii_unit_facts(2) [of "snd t"] by (cases t) simp
qed simp

lemma leading_int_stop: "s = [] \<or> \<not> is_digit (hd s) \<Longrightarrow> leading_int x s = Some (x, s)"
  by (cases s) auto

lemma duration_text_starts: "duration_text ts = [] \<or> is_digit (hd (duration_text ts))"
proof (cases ts)
  case (Cons t us)
  then show ?thesis
    using decimal_digits [of "hd (decimal (fst t))" "fst t"]
    by (cases t) (simp add: hd_append)
qed simp

lemma parse_term_text:
  assumes "u \<in> set ascii_units" "rest = [] \<or> is_digit (hd rest)"
  shows "parse_term orig (decimal n @ u @ rest) =
    (if int n * unit_nanoseconds u \<le> 2 ^ 63 then Inr (int n * unit_nanoseconds u, rest)
     else Inl (invalid_duration orig))"
proof -
  note u = ascii_unit_facts [OF assms(1)]
  obtain c d where "decimal n = c # d" by (cases "decimal n") auto
  moreover from this have "is_digit c" using decimal_digits [of c n] by simp
  ultimately have first: "number_byte (hd (decimal n @ u @ rest))" "decimal n @ u @ rest \<noteq> []"
    by (simp_all add: number_byte_def)
  obtain a w where uw: "u = a # w" "\<not> number_byte a" using u(3,4) by (cases u) auto
  have stop: "leading_int (int n) (u @ rest) = Some (int n, u @ rest)"
    using uw by (intro leading_int_stop) (simp add: number_byte_def)
  have frac: "optional_fraction (u @ rest) = (0, float_of_int 1, u @ rest, False)"
    using uw by (simp add: optional_fraction_def number_byte_def)
  have split: "takeWhile (\<lambda>c. \<not> number_byte c) (u @ rest) = u"
    "dropWhile (\<lambda>c. \<not> number_byte c) (u @ rest) = rest"
    using assms(2) u(4) by (cases rest; simp add: number_byte_def)+
  have len: "length (decimal n @ u @ rest) \<noteq> length (u @ rest)" by simp
  show ?thesis
  proof (cases "int n \<le> 2 ^ 63")
    case False
    moreover have "int n * 1 \<le> int n * unit_nanoseconds u"
      using u(2) by (intro mult_left_mono) simp_all
    ultimately have "\<not> int n * unit_nanoseconds u \<le> 2 ^ 63" by linarith
    with False first show ?thesis
      by (simp add: parse_term_def leading_int_decimal)
  next
    case True
    with first len u(1,3) show ?thesis
      by (simp only: parse_term_def leading_int_decimal stop frac split if_True if_False simp_thms
          option.case prod.case Let_def not_less le_int_div_iff [OF u(2)] less_irrefl not_le) simp
  qed
qed

lemma parse_terms_text:
  assumes "terms_ok ts" "0 \<le> d" "d \<le> 2 ^ 63" "d + duration_total ts < 2 ^ 64"
  shows "parse_terms orig d (duration_text ts) =
    (if d + duration_total ts \<le> 2 ^ 63 then Inr (d + duration_total ts)
     else Inl (invalid_duration orig))"
  using assms
proof (induction ts arbitrary: d)
  case Nil
  then show ?case by (simp add: parse_terms.simps)
next
  case (Cons t ts)
  obtain n u where t: "t = (n, u)" by (cases t)
  define v where "v = int n * unit_nanoseconds u"
  have u: "u \<in> set ascii_units" and ok: "terms_ok ts" using Cons.prems(1) t by simp_all
  have v: "0 \<le> v" using ascii_unit_facts(2) [OF u] by (simp add: v_def)
  have total: "duration_total (t # ts) = v + duration_total ts" by (simp add: t v_def)
  have nonneg: "0 \<le> duration_total ts"
    by (rule duration_total_nonneg [OF ok])
  have ne: "duration_text (t # ts) \<noteq> []" by (simp add: t)
  have step: "parse_term orig (duration_text (t # ts)) =
      (if v \<le> 2 ^ 63 then Inr (v, duration_text ts) else Inl (invalid_duration orig))"
    using parse_term_text [OF u duration_text_starts, of orig n ts] by (simp add: t v_def)
  have small: "wrap_uint64 (d + v) = d + v"
    using Cons.prems(2,4) v nonneg total by (simp add: wrap_uint64_def)
  show ?case
  proof (cases "d + v \<le> 2 ^ 63")
    case True
    then have "v \<le> 2 ^ 63" "0 \<le> d + v" using Cons.prems(2) v by simp_all
    with True ne step small Cons.IH [OF ok, of "d + v"] Cons.prems(4) total show ?thesis
      by (subst parse_terms.simps) (simp add: Let_def add.assoc)
  next
    case False
    with nonneg total have "\<not> d + duration_total (t # ts) \<le> 2 ^ 63" by linarith
    with False ne step small show ?thesis
      by (subst parse_terms.simps) (simp add: Let_def)
  qed
qed

text \<open>A text below \<open>2^64\<close> ns is read exactly, or refused when it does not fit a duration.\<close>

lemma parse_duration_text:
  assumes "terms_ok ts" "ts \<noteq> []" "duration_total ts < 2 ^ 64"
  shows "parse_duration (duration_text ts) =
    (if duration_total ts < 2 ^ 63 then Inr (duration_total ts)
     else Inl (invalid_duration (duration_text ts)))"
proof -
  let ?s = "duration_text ts"
  obtain n u us where ts: "ts = (n, u) # us" using assms(2) by (cases ts) auto
  have ne: "?s \<noteq> []" by (simp add: ts)
  with duration_text_starts [of ts] have "is_digit (hd ?s)" by simp
  then have sign: "hd ?s \<noteq> CHR ''-''" "hd ?s \<noteq> CHR ''+''" by (auto simp: is_digit_def)
  have "1 \<le> length (decimal n)" "1 \<le> length u"
    using assms(1) ts ascii_unit_facts(3) by (simp_all add: Suc_le_eq)
  then have "length ?s \<noteq> 1" by (simp add: ts)
  then have zero: "?s \<noteq> ''0''" by auto
  from parse_terms_text [OF assms(1), of 0 ?s] assms(3) ne sign zero show ?thesis
    by (auto simp: parse_duration_def Let_def)
qed

lemma duration_text_graphic: "terms_ok ts \<Longrightarrow> graphic (duration_text ts)"
proof (induction ts)
  case (Cons t ts)
  obtain n u where t: "t = (n, u)" by (cases t)
  have "graphic (decimal n)"
    using decimal_digits [of _ n] by (fastforce simp: graphic_def is_digit_def)
  with Cons t ascii_unit_facts(5) [of u] show ?case by (auto simp: graphic_def)
qed (simp add: graphic_def)

end
