(* ===== verification/Load.thy ===== *)
theory Load
  imports Validate Go_Duration
begin

section \<open>Loading the configuration file\<close>

text \<open>
  \<open>internal/config/load.go\<close>. Reading the file and decoding YAML with unknown fields rejected are
  parameters of the model: the operating system and the package yaml.v3. None of the results
  below needs a law about them.
\<close>

text \<open>\<open>ResolvePath\<close>, with the value of the environment variable \<open>MICROHOOK_CONFIG\<close>.\<close>

definition resolve_path :: "string \<Rightarrow> string \<Rightarrow> string" where
  "resolve_path env_path explicit =
     (if explicit \<noteq> [] then explicit else if env_path \<noteq> [] then env_path else default_path)"

record file_server_config =
  fs_listen :: string
  fs_log_format :: string

record file_token =
  ft_name :: string
  ft_value :: string
  ft_actions :: "string list"

record file_storage_config =
  fst_path :: string
  fst_retention_days :: int
  fst_max_runs :: int

record file_action =
  fa_name :: string
  fa_description :: string
  fa_command :: "string list"
  fa_shell_command :: string
  fa_cwd :: string
  fa_timeout :: string
  fa_env :: "string gomap"
  fa_concurrency_policy :: string
  fa_max_output_bytes :: "int option"
  fa_enabled :: "bool option"

record file_config =
  fc_server :: file_server_config
  fc_tokens :: "file_token list"
  fc_storage :: file_storage_config
  fc_actions :: "file_action list"

definition make_action_set :: "string list \<Rightarrow> string set" where
  "make_action_set names = set names"

definition normalize_action_names :: "string list \<Rightarrow> string list" where
  "normalize_action_names names = map trim_space names"

definition normalize_token :: "file_token \<Rightarrow> token" where
  "normalize_token ft =
     (let actions = normalize_action_names (ft_actions ft)
      in \<lparr>tk_name = trim_space (ft_name ft), tk_value = trim_space (ft_value ft),
          tk_actions = actions, tk_action_set = make_action_set actions\<rparr>)"

definition normalize_tokens :: "file_token list \<Rightarrow> token list" where
  "normalize_tokens fts = map normalize_token fts"

text \<open>One iteration of \<open>normalizeActions\<close>: the action, and the messages it adds.\<close>

definition normalize_action :: "nat \<Rightarrow> file_action \<Rightarrow> action \<times> validation_errors" where
  "normalize_action i fa =
     (let policy = trim_space (fa_concurrency_policy fa);
          timeout_text = trim_space (fa_timeout fa);
          (timeout, errs) =
            (if timeout_text = [] then (0, [])
             else case parse_duration timeout_text of
                 Inl e \<Rightarrow> (0, [action_prefix i @ [Txt ''.timeout must be a valid duration: '']
                             @ error_text e])
               | Inr d \<Rightarrow> (d, []));
          has_command = (fa_command fa \<noteq> []);
          has_shell_command = (trim_space (fa_shell_command fa) \<noteq> [])
      in (\<lparr>ac_name = trim_space (fa_name fa),
           ac_description = fa_description fa,
           ac_mode = (if has_command \<and> \<not> has_shell_command then action_mode_command
                      else if \<not> has_command \<and> has_shell_command then action_mode_shell
                      else []),
           ac_command = clone_strings (fa_command fa),
           ac_shell_command = fa_shell_command fa,
           ac_cwd = fa_cwd fa,
           ac_timeout = timeout,
           ac_env = clone_string_map (fa_env fa),
           ac_concurrency_policy = (if policy \<noteq> [] then policy else default_concurrency_policy),
           ac_max_output_bytes = (case fa_max_output_bytes fa of
               Some n \<Rightarrow> n | None \<Rightarrow> default_max_output_bytes),
           ac_enabled = (case fa_enabled fa of Some b \<Rightarrow> b | None \<Rightarrow> True)\<rparr>, errs))"

fun normalize_actions :: "nat \<Rightarrow> file_action list \<Rightarrow> action list \<times> validation_errors" where
  "normalize_actions i [] = ([], [])"
| "normalize_actions i (fa # fas) =
     (let (a, errs) = normalize_action i fa;
          (as, errs') = normalize_actions (Suc i) fas
      in (a # as, errs @ errs'))"

definition normalize_config :: "file_config \<Rightarrow> config \<times> validation_errors" where
  "normalize_config fc =
     (let listen = trim_space (fs_listen (fc_server fc));
          log_format = trim_space (fs_log_format (fc_server fc));
          (actions, errs) = normalize_actions 0 (fc_actions fc)
      in (\<lparr>cf_server = \<lparr>sv_listen = (if listen \<noteq> [] then listen else default_listen_address),
                        sv_log_format = (if log_format \<noteq> [] then log_format
                                         else default_log_format)\<rparr>,
           cf_auth = \<lparr>au_tokens = normalize_tokens (fc_tokens fc)\<rparr>,
           cf_storage = \<lparr>sc_path = trim_space (fst_path (fc_storage fc)),
                         sc_retention_days = fst_retention_days (fc_storage fc),
                         sc_max_runs = fst_max_runs (fc_storage fc)\<rparr>,
           cf_actions = actions,
           cf_registry = None\<rparr>, errs))"

definition load ::
    "(string \<Rightarrow> go_error + bytes) \<Rightarrow> (bytes \<Rightarrow> go_error + file_config) \<Rightarrow> string
       \<Rightarrow> go_error + config" where
  "load read_file yaml_decode path =
     (case read_file path of
        Inl e \<Rightarrow> Inl (wrap_error [Txt ''read config '', Quoted path, Txt '': ''] e [])
      | Inr data \<Rightarrow>
          (case yaml_decode data of
             Inl e \<Rightarrow> Inl (wrap_error [Txt ''parse config '', Quoted path, Txt '': ''] e [])
           | Inr fc \<Rightarrow>
               (let (cfg, errs) = normalize_config fc in
                case ve_or_nil (ve_append errs (validate cfg)) of
                  Some ve \<Rightarrow>
                    Inl (errorf ([Txt ''invalid config '', Quoted path, Txt '':\<newline>''] @ ve_error ve))
                | None \<Rightarrow>
                    (case new_action_registry (cf_actions cfg) of
                       Inl ve \<Rightarrow>
                         Inl (errorf ([Txt ''invalid config '', Quoted path, Txt '':\<newline>'']
                           @ ve_error ve))
                     | Inr registry \<Rightarrow> Inr (cfg\<lparr>cf_registry := Some registry\<rparr>)))))"

subsection \<open>Facts about normalised actions\<close>

text \<open>
  What normalisation establishes for every action, valid or not: a trimmed name, distinct
  environment keys, and a mode that names the one kind of command that is present.
\<close>

definition normalized :: "action \<Rightarrow> bool" where
  "normalized a \<longleftrightarrow>
     trimmed (ac_name a) \<and> gomap_wf (ac_env a)
     \<and> (ac_mode a = action_mode_command \<longleftrightarrow>
          ac_command a \<noteq> [] \<and> trim_space (ac_shell_command a) = [])
     \<and> (ac_mode a = action_mode_shell \<longleftrightarrow>
          ac_command a = [] \<and> trim_space (ac_shell_command a) \<noteq> [])"

lemma clone_string_map_wf: "gomap_wf (clone_string_map m)"
proof -
  have "gomap_wf ([] :: string gomap)" by (simp add: gomap_wf_def)
  then show ?thesis by (simp add: clone_string_map_def gomap_copy_wf)
qed

lemma normalize_action_normalized: "normalized (fst (normalize_action i fa))"
  by (simp add: normalize_action_def normalized_def Let_def trim_space_trimmed
      clone_string_map_wf action_mode_command_def action_mode_shell_def split_beta)

lemma normalize_actions_normalized: "a \<in> set (fst (normalize_actions i fas)) \<Longrightarrow> normalized a"
proof (induction i fas rule: normalize_actions.induct)
  case (1 i)
  then show ?case by simp
next
  case (2 i fa fas)
  then show ?case
    using normalize_action_normalized [of i fa] by (auto split: prod.splits)
qed

lemma normalize_config_actions: "a \<in> set (cf_actions (fst (normalize_config fc))) \<Longrightarrow> normalized a"
  using normalize_actions_normalized [of a 0 "fc_actions fc"]
  by (auto simp: normalize_config_def Let_def split: prod.splits)

lemma valid_actions_names_ok:
  "valid_actions as \<Longrightarrow> \<forall>a \<in> set as. normalized a \<Longrightarrow> action_names_ok as"
proof -
  assume "valid_actions as" and n: "\<forall>a \<in> set as. normalized a"
  moreover have "map (\<lambda>a. trim_space (ac_name a)) as = map ac_name as"
    using n by (simp add: normalized_def)
  moreover from this have "trim_space (ac_name a) = ac_name a" if "a \<in> set as" for a
    using that by simp
  ultimately show ?thesis
    unfolding action_names_ok_def valid_actions_def by metis
qed

lemma loaded_registry:
  assumes "valid_config cfg" and "cfg = fst (normalize_config fc)"
  shows "new_action_registry (cf_actions cfg) = Inr (registry_of (cf_actions cfg))"
proof (rule new_action_registry_ok)
  have n: "\<forall>a \<in> set (cf_actions cfg). normalized a"
    using normalize_config_actions assms(2) by blast
  then show "action_names_ok (cf_actions cfg)"
    using assms(1) by (simp add: valid_config_def valid_actions_names_ok)
  show "\<forall>a \<in> set (cf_actions cfg). trimmed (ac_name a) \<and> gomap_wf (ac_env a)"
    using n by (simp add: normalized_def)
qed

lemma validate_not_Nil: "validate c \<noteq> Some []"
  by (auto simp: validate_def Let_def ve_or_nil_def split: prod.splits)

lemma all_messages_nil:
  "ve_or_nil (ve_append errs (validate c)) = None \<longleftrightarrow> errs = [] \<and> valid_config c"
  using validate_nil_iff [of c] validate_not_Nil [of c] by (cases "validate c") auto

lemma load_reaches_registry:
  assumes "rf path = Inr data" "yd data = Inr fc" "normalize_config fc = (cfg, errs)"
    and "ve_or_nil (ve_append errs (validate cfg)) = None"
    and "new_action_registry (cf_actions cfg) = Inr r"
  shows "load rf yd path = Inr (cfg\<lparr>cf_registry := Some r\<rparr>)"
  unfolding load_def assms sum.case prod.case option.case Let_def by (rule refl)

lemma load_reports:
  assumes "rf path = Inr data" "yd data = Inr fc" "normalize_config fc = (cfg, errs)"
    and "ve_or_nil (ve_append errs (validate cfg)) = Some ve"
  shows "load rf yd path =
     Inl (errorf ([Txt ''invalid config '', Quoted path, Txt '':\<newline>''] @ ve_error ve))"
  unfolding load_def assms sum.case prod.case option.case Let_def by (rule refl)

lemma load_cases:
  "load rf yd path = Inr c \<longleftrightarrow>
     (\<exists>data fc. rf path = Inr data \<and> yd data = Inr fc \<and> snd (normalize_config fc) = []
        \<and> valid_config (fst (normalize_config fc))
        \<and> c = (fst (normalize_config fc))
                 \<lparr>cf_registry := Some (registry_of (cf_actions (fst (normalize_config fc))))\<rparr>)"
    (is "_ \<longleftrightarrow> ?rhs")
proof (cases "\<exists>data fc. rf path = Inr data \<and> yd data = Inr fc")
  case False
  then have "load rf yd path \<noteq> Inr c"
    by (cases "rf path"; cases "yd (projr (rf path))") (simp_all add: load_def)
  with False show ?thesis by blast
next
  case True
  then obtain data fc where rd: "rf path = Inr data" and yd: "yd data = Inr fc" by blast
  obtain cfg errs where n: "normalize_config fc = (cfg, errs)" by fastforce
  have rhs: "?rhs \<longleftrightarrow> errs = [] \<and> valid_config cfg
      \<and> c = cfg\<lparr>cf_registry := Some (registry_of (cf_actions cfg))\<rparr>"
    using rd yd n by (metis fst_conv snd_conv sum.inject(2))
  show ?thesis
  proof (cases "errs = [] \<and> valid_config cfg")
    case True
    then have nil: "ve_or_nil (ve_append errs (validate cfg)) = None"
      by (simp only: all_messages_nil)
    have "cfg = fst (normalize_config fc)" by (simp only: n fst_conv)
    with True have "new_action_registry (cf_actions cfg) = Inr (registry_of (cf_actions cfg))"
      by (metis loaded_registry)
    with nil have "load rf yd path =
        Inr (cfg\<lparr>cf_registry := Some (registry_of (cf_actions cfg))\<rparr>)"
      by (rule load_reaches_registry [where rf = rf and path = path and yd = yd, OF rd yd n])
    then have "load rf yd path = Inr c \<longleftrightarrow>
        c = cfg\<lparr>cf_registry := Some (registry_of (cf_actions cfg))\<rparr>"
      by (simp only: sum.inject) (rule eq_commute)
    with True rhs show ?thesis by blast
  next
    case False
    then obtain ve where "ve_or_nil (ve_append errs (validate cfg)) = Some ve"
      using all_messages_nil by fastforce
    with False rhs show ?thesis
      using load_reports [where rf = rf and path = path and yd = yd, OF rd yd n] by (metis sum.distinct(1))
  qed
qed

lemma valid_config_registry [simp]: "valid_config (c\<lparr>cf_registry := r\<rparr>) = valid_config c"
  by (simp add: valid_config_def)

lemma load_actions_normalized:
  "load rf yd path = Inr c \<Longrightarrow> a \<in> set (cf_actions c) \<Longrightarrow> normalized a"
  by (auto simp: load_cases intro: normalize_config_actions)

lemma load_registry:
  "load rf yd path = Inr c \<Longrightarrow> cf_registry c = Some (registry_of (cf_actions c))"
  by (auto simp: load_cases)

lemma load_valid: "load rf yd path = Inr c \<Longrightarrow> valid_config c"
  by (auto simp: load_cases)

text \<open>What loading says about the actions of the file, one by one.\<close>

lemma normalize_actions_nth:
  "length (fst (normalize_actions k fas)) = length fas
   \<and> (\<forall>i < length fas. fst (normalize_actions k fas) ! i = fst (normalize_action (k + i) (fas ! i)))
   \<and> (snd (normalize_actions k fas) = [] \<longrightarrow>
        (\<forall>i < length fas. snd (normalize_action (k + i) (fas ! i)) = []))"
proof (induction fas arbitrary: k)
  case (Cons fa fas)
  then show ?case
    using Cons.IH [of "Suc k"] by (auto simp: Let_def split_beta nth_Cons split: nat.splits)
qed simp

lemma load_action_nth:
  assumes "load rf yd path = Inr c" "rf path = Inr data" "yd data = Inr fc"
  shows "length (cf_actions c) = length (fc_actions fc)"
    and "i < length (fc_actions fc) \<Longrightarrow>
      normalize_action i (fc_actions fc ! i) = (cf_actions c ! i, [])"
proof -
  have "snd (normalize_config fc) = []" "cf_actions c = cf_actions (fst (normalize_config fc))"
    using assms by (auto simp: load_cases)
  then have "cf_actions c = fst (normalize_actions 0 (fc_actions fc))"
    "snd (normalize_actions 0 (fc_actions fc)) = []"
    by (auto simp: normalize_config_def Let_def split_beta)
  with normalize_actions_nth [of 0 "fc_actions fc"]
  show "length (cf_actions c) = length (fc_actions fc)"
    "i < length (fc_actions fc) \<Longrightarrow>
      normalize_action i (fc_actions fc ! i) = (cf_actions c ! i, [])"
    by (auto simp: prod_eq_iff)
qed

lemma normalize_action_timeout:
  assumes "normalize_action i fa = (a, [])"
  shows "if trim_space (fa_timeout fa) = [] then ac_timeout a = 0
    else parse_duration (trim_space (fa_timeout fa)) = Inr (ac_timeout a)"
  using assms by (auto simp: normalize_action_def Let_def split: prod.splits sum.splits if_splits)

end
