(* ===== verification/Auth.thy ===== *)
theory Auth
  imports Load Sha256
begin

section \<open>Authentication and authorisation\<close>

text \<open>
  \<open>internal/auth/service.go\<close>: the service keeps, for every configured token, the identity it
  stands for and the SHA-256 digest of its value; a request is authenticated by comparing the
  digest of its bearer token with all of them in constant time.
\<close>

record identity =
  id_name :: string
  id_global :: bool
  id_action_set :: "string set"

definition zero_identity :: identity where
  "zero_identity = \<lparr>id_name = [], id_global = False, id_action_set = {}\<rparr>"

definition identity_allows_action :: "identity \<Rightarrow> string \<Rightarrow> bool" where
  "identity_allows_action i action_name =
     (if id_global i then True else action_name \<in> id_action_set i)"

record token_credential =
  cr_identity :: identity
  cr_digest :: bytes

record auth_service =
  as_credentials :: "token_credential list"

definition new_identity :: "token \<Rightarrow> identity" where
  "new_identity t =
     (let i = \<lparr>id_name = tk_name t, id_global = token_is_global t, id_action_set = {}\<rparr>
      in if tk_actions t = [] then i
         else i\<lparr>id_action_set := fold insert (tk_actions t) {}\<rparr>)"

definition credential_of :: "token \<Rightarrow> token_credential" where
  "credential_of t = \<lparr>cr_identity = new_identity t, cr_digest = sha256 (tk_value t)\<rparr>"

text \<open>The loop of \<open>New\<close>: the first token that fails a check ends it with an error.\<close>

fun auth_credentials :: "token list \<Rightarrow> go_error + token_credential list" where
  "auth_credentials [] = Inr []"
| "auth_credentials (t # ts) =
     (if tk_name t = [] then Inl (errors_new ''auth token name is required'')
      else if tk_value t = [] then Inl (errors_new ''auth token value is required'')
      else if validate_token (tk_value t) \<noteq> None then
        Inl (errors_new ''auth token value must be a valid Microhook token generated by `microhook generate-token`'')
      else case auth_credentials ts of
          Inl e \<Rightarrow> Inl e
        | Inr cs \<Rightarrow> Inr (credential_of t # cs))"

definition auth_new :: "auth_config \<Rightarrow> go_error + auth_service" where
  "auth_new cfg =
     (case auth_credentials (au_tokens cfg) of
        Inl e \<Rightarrow> Inl e
      | Inr cs \<Rightarrow> Inr \<lparr>as_credentials = cs\<rparr>)"

text \<open>\<open>subtle.ConstantTimeCompare\<close> gives 1 for equal slices and 0 otherwise.\<close>

definition constant_time_compare :: "bytes \<Rightarrow> bytes \<Rightarrow> int" where
  "constant_time_compare x y = (if x = y then 1 else 0)"

text \<open>
  The loop of \<open>AuthenticateToken\<close>. It never stops early: every credential is compared, the
  first match is kept, and \<open>matched\<close> accumulates the comparisons.
\<close>

fun match_credentials ::
    "bytes \<Rightarrow> identity \<Rightarrow> int \<Rightarrow> token_credential list \<Rightarrow> identity \<times> int" where
  "match_credentials digest i matched [] = (i, matched)"
| "match_credentials digest i matched (c # cs) =
     (let eq = constant_time_compare digest (cr_digest c);
          i' = (if eq = 1 \<and> matched = 0 then cr_identity c else i)
      in match_credentials digest i' (or matched eq) cs)"

definition authenticate_token :: "auth_service \<Rightarrow> string \<Rightarrow> go_error + identity" where
  "authenticate_token s token_value =
     (if token_value = [] then Inl (sentinel_error ErrInvalidBearerToken)
      else let (i, matched) =
             match_credentials (sha256 token_value) zero_identity 0 (as_credentials s)
        in if matched \<noteq> 1 then Inl (sentinel_error ErrInvalidBearerToken) else Inr i)"

definition parse_bearer_token :: "string \<Rightarrow> go_error + string" where
  "parse_bearer_token header =
     (case strings_fields header of
        [] \<Rightarrow> Inl (sentinel_error ErrMissingBearerToken)
      | [scheme, token] \<Rightarrow>
          if \<not> equal_fold scheme ''Bearer'' \<or> token = []
          then Inl (sentinel_error ErrInvalidBearerToken) else Inr token
      | _ \<Rightarrow> Inl (sentinel_error ErrInvalidBearerToken))"

definition authenticate_header :: "auth_service \<Rightarrow> string \<Rightarrow> go_error + identity" where
  "authenticate_header s header =
     (case parse_bearer_token header of
        Inl e \<Rightarrow> Inl e
      | Inr token_value \<Rightarrow> authenticate_token s token_value)"

text \<open>
  A request header is a map from canonical keys to the list of values given for the key;
  \<open>Header.Get\<close> returns the first value, or the empty string.
\<close>

type_synonym http_header = "string list gomap"

definition header_get :: "http_header \<Rightarrow> string \<Rightarrow> string" where
  "header_get h key = (case map_of h key of Some (v # _) \<Rightarrow> v | _ \<Rightarrow> [])"

definition authenticate_request :: "auth_service \<Rightarrow> http_header \<Rightarrow> go_error + identity" where
  "authenticate_request s h = authenticate_header s (header_get h ''Authorization'')"

definition authorize_action :: "identity \<Rightarrow> string \<Rightarrow> go_error option" where
  "authorize_action i action_name =
     (if identity_allows_action i (trim_space action_name) then None
      else Some (sentinel_error ErrForbiddenAction))"

subsection \<open>Identities\<close>

lemma fold_insert_set: "fold insert xs A = A \<union> set xs"
  by (induction xs arbitrary: A) auto

lemma new_identity_allows:
  "identity_allows_action (new_identity t) n \<longleftrightarrow> tk_actions t = [] \<or> n \<in> set (tk_actions t)"
  by (auto simp: new_identity_def identity_allows_action_def token_is_global_def
      fold_insert_set Let_def)

lemma new_identity_name [simp]: "id_name (new_identity t) = tk_name t"
  by (simp add: new_identity_def Let_def)

lemma new_identity_global [simp]: "id_global (new_identity t) \<longleftrightarrow> tk_actions t = []"
  by (simp add: new_identity_def Let_def token_is_global_def)

subsection \<open>The comparison loop finds the first matching credential\<close>

lemma match_credentials_found:
  "match_credentials d i 1 cs = (i, 1)"
  by (induction cs) (auto simp: constant_time_compare_def Let_def)

lemma match_credentials_find:
  "match_credentials d i 0 cs =
     (case List.find (\<lambda>c. cr_digest c = d) cs of
        None \<Rightarrow> (i, 0) | Some c \<Rightarrow> (cr_identity c, 1))"
  by (induction cs arbitrary: i)
    (auto simp: constant_time_compare_def Let_def match_credentials_found)

lemma authenticate_token_find:
  "authenticate_token s v =
     (case (if v = [] then None
            else List.find (\<lambda>c. cr_digest c = sha256 v) (as_credentials s)) of
        None \<Rightarrow> Inl (sentinel_error ErrInvalidBearerToken)
      | Some c \<Rightarrow> Inr (cr_identity c))"
  by (auto simp: authenticate_token_def match_credentials_find split: option.splits)

subsection \<open>Building the service\<close>

definition token_usable :: "token \<Rightarrow> bool" where
  "token_usable t \<longleftrightarrow> tk_name t \<noteq> [] \<and> token_shape (tk_value t)"

lemma not_token_shape_Nil [simp]: "\<not> token_shape []"
  by (simp add: token_shape_def)

lemma auth_credentials_usable:
  "(\<forall>t \<in> set ts. token_usable t) \<Longrightarrow> auth_credentials ts = Inr (map credential_of ts)"
  by (induction ts) (auto simp: token_usable_def validate_token_iff)

lemma auth_credentials_unusable:
  "\<not> (\<forall>t \<in> set ts. token_usable t) \<Longrightarrow> \<exists>e. auth_credentials ts = Inl e"
proof (induction ts)
  case Nil
  then show ?case by simp
next
  case (Cons t ts)
  show ?case
  proof (cases "token_usable t")
    case True
    with Cons obtain e where "auth_credentials ts = Inl e" by auto
    then show ?thesis by simp
  next
    case False
    then show ?thesis using validate_token_iff [of "tk_value t"] by (auto simp: token_usable_def)
  qed
qed

lemma auth_new_ok:
  "auth_new cfg = Inr s \<longleftrightarrow>
     (\<forall>t \<in> set (au_tokens cfg). token_usable t)
     \<and> as_credentials s = map credential_of (au_tokens cfg)"
proof (cases "\<forall>t \<in> set (au_tokens cfg). token_usable t")
  case True
  then have "auth_credentials (au_tokens cfg) = Inr (map credential_of (au_tokens cfg))"
    by (rule auth_credentials_usable)
  with True show ?thesis by (cases s) (auto simp: auth_new_def)
next
  case False
  then obtain e where "auth_credentials (au_tokens cfg) = Inl e"
    using auth_credentials_unusable by blast
  with False show ?thesis by (auto simp: auth_new_def)
qed

lemma valid_config_auth:
  assumes "valid_config c"
  shows "auth_new (cf_auth c) = Inr \<lparr>as_credentials = map credential_of (au_tokens (cf_auth c))\<rparr>"
  using assms
  by (simp add: auth_new_ok valid_config_def valid_tokens_def valid_token_def token_usable_def)

text \<open>Authentication against a service built from a token list.\<close>

lemma find_credential:
  "List.find (\<lambda>c. cr_digest c = d) (map credential_of ts) =
     map_option credential_of (List.find (\<lambda>t. sha256 (tk_value t) = d) ts)"
  by (induction ts) (auto simp: credential_of_def)

lemma authenticate_configured:
  assumes "auth_new cfg = Inr s" and "v \<noteq> []"
  shows "authenticate_token s v =
     (case List.find (\<lambda>t. sha256 (tk_value t) = sha256 v) (au_tokens cfg) of
        None \<Rightarrow> Inl (sentinel_error ErrInvalidBearerToken)
      | Some t \<Rightarrow> Inr (new_identity t))"
proof -
  have "as_credentials s = map credential_of (au_tokens cfg)"
    using assms(1) by (simp add: auth_new_ok)
  with assms(2) show ?thesis
    by (simp add: authenticate_token_find find_credential credential_of_def split: option.split)
qed

lemma parse_bearer_graphic:
  "graphic v \<Longrightarrow> v \<noteq> [] \<Longrightarrow> parse_bearer_token (''Bearer '' @ v) = Inr v"
proof -
  assume "graphic v" "v \<noteq> []"
  moreover have "graphic ''Bearer''" by (simp add: graphic_def)
  ultimately have "strings_fields (''Bearer'' @ '' '' @ v) = [''Bearer'', v]"
    by (intro fields_two_words) simp_all
  with \<open>v \<noteq> []\<close> show ?thesis by (simp add: parse_bearer_token_def)
qed

lemma parse_bearer_not_Nil: "parse_bearer_token h = Inr v \<Longrightarrow> v \<noteq> []"
  by (auto simp: parse_bearer_token_def split: list.splits if_splits)

subsection \<open>Properties\<close>

lemma normalize_config_tokens:
  "au_tokens (cf_auth (fst (normalize_config fc))) = map normalize_token (fc_tokens fc)"
  by (simp add: normalize_config_def normalize_tokens_def Let_def split_beta)

lemma loaded_token_set:
  assumes "load rf yd path = Inr c" and "t \<in> set (au_tokens (cf_auth c))"
  shows "tk_action_set t = set (tk_actions t)"
proof -
  from assms obtain ft where "t = normalize_token ft"
    by (auto simp: load_cases normalize_config_tokens)
  then show ?thesis by (simp add: normalize_token_def make_action_set_def Let_def)
qed

text \<open>
  The comparison loop, which never stops early and accumulates its result in an integer,
  computes the first credential whose digest is the digest of the presented token, and
  rejects the empty token and every token with no such credential.
\<close>

theorem authenticate_token_first_match:
  "authenticate_token s v =
     (case (if v = [] then None
            else List.find (\<lambda>c. cr_digest c = sha256 v) (as_credentials s)) of
        None \<Rightarrow> Inl (sentinel_error ErrInvalidBearerToken)
      | Some c \<Rightarrow> Inr (cr_identity c))"
  by (rule authenticate_token_find)

end
