(* ===== verification/Logging.thy ===== *)
theory Logging
  imports Go_Strings
begin

section \<open>The log\<close>

text \<open>
  The part of the package \<open>log/slog\<close> that the program uses: levels, which are ordered, records with
  their attributes, and a logger that drops the records below its level. \<open>newLogger\<close> of
  \<open>internal/app/app.go\<close> chooses the handler.
\<close>

datatype log_level = Level_Debug | Level_Info | Level_Warn | Level_Error

fun level_value :: "log_level \<Rightarrow> int" where
  "level_value Level_Debug = - 4"
| "level_value Level_Info = 0"
| "level_value Level_Warn = 4"
| "level_value Level_Error = 8"

lemma level_value_inject: "level_value a = level_value b \<longleftrightarrow> a = b"
  by (cases a; cases b) simp_all

instantiation log_level :: linorder
begin

definition less_eq_log_level :: "log_level \<Rightarrow> log_level \<Rightarrow> bool" where
  "less_eq_log_level a b \<longleftrightarrow> level_value a \<le> level_value b"

definition less_log_level :: "log_level \<Rightarrow> log_level \<Rightarrow> bool" where
  "less_log_level a b \<longleftrightarrow> level_value a < level_value b"

instance
  by standard (auto simp: less_eq_log_level_def less_log_level_def level_value_inject)

end

datatype log_value = Log_String string | Log_Int int | Log_Bool bool

record log_record =
  lr_level :: log_level
  lr_message :: string
  lr_attrs :: "(string \<times> log_value) list"

datatype log_handler = Text_Handler | Json_Handler

record logger =
  lg_handler :: log_handler
  lg_level :: log_level

definition new_logger :: "string \<Rightarrow> logger" where
  "new_logger format =
     \<lparr>lg_handler = (if format = ''text'' then Text_Handler else Json_Handler), lg_level = Level_Info\<rparr>"

text \<open>Logging through a logger that may be nil (None); the log is in the order of the calls.\<close>

definition emit :: "logger option \<Rightarrow> log_record \<Rightarrow> log_record list \<Rightarrow> log_record list" where
  "emit lg rec log =
     (case lg of
        None \<Rightarrow> log
      | Some l \<Rightarrow> if lg_level l \<le> lr_level rec then log @ [rec] else log)"

lemma new_logger_level [simp]: "lg_level (new_logger format) = Level_Info"
  by (simp add: new_logger_def)

lemma info_enabled [simp]: "Level_Info \<le> l \<longleftrightarrow> l \<noteq> Level_Debug"
  by (cases l) (simp_all add: less_eq_log_level_def)

lemma emit_None [simp]: "emit None rec log = log"
  by (simp add: emit_def)

lemma emit_new_logger [simp]:
  "lr_level rec \<noteq> Level_Debug \<Longrightarrow> emit (Some (new_logger format)) rec log = log @ [rec]"
  by (simp add: emit_def)

end
