(* ===== verification/Http_Api.thy ===== *)
theory Http_Api
  imports Exec Auth Logging
begin

section \<open>The HTTP API\<close>

text \<open>
  \<open>internal/httpapi/server.go\<close>: the handlers, the authentication middleware, the decoding of
  request bodies and the mapping of errors to status codes. Routing is \<open>chi\<close>'s, a third-party
  package: a request comes with the route it was matched to and its path parameter. A response is
  its status, its header fields and the value handed to the encoder; it carries the log records
  written while the request was served.
\<close>

definition max_invoke_action_request_body_bytes :: nat where
  "max_invoke_action_request_body_bytes = 2 ^ 20"

definition status_ok :: int where "status_ok = 200"
definition status_accepted :: int where "status_accepted = 202"
definition status_bad_request :: int where "status_bad_request = 400"
definition status_unauthorized :: int where "status_unauthorized = 401"
definition status_forbidden :: int where "status_forbidden = 403"
definition status_not_found :: int where "status_not_found = 404"
definition status_method_not_allowed :: int where "status_method_not_allowed = 405"
definition status_conflict :: int where "status_conflict = 409"
definition status_request_entity_too_large :: int where "status_request_entity_too_large = 413"
definition status_internal_server_error :: int where "status_internal_server_error = 500"

lemmas status_codes = status_ok_def status_accepted_def status_bad_request_def
  status_unauthorized_def status_forbidden_def status_not_found_def status_method_not_allowed_def
  status_conflict_def status_request_entity_too_large_def status_internal_server_error_def

text \<open>\<open>http.StatusText\<close> for the codes the handlers print.\<close>

definition status_text :: "int \<Rightarrow> string" where
  "status_text c =
     (if c = status_unauthorized then ''Unauthorized''
      else if c = status_forbidden then ''Forbidden''
      else if c = status_conflict then ''Conflict''
      else if c = status_internal_server_error then ''Internal Server Error''
      else [])"

subsection \<open>Requests and responses\<close>

text \<open>
  A request body is its bytes, and whether reading fails after them (a client that goes away).
  The query is the parsed query of the URL; the pattern is what the router's context reports for
  the matched route, if there is such a context.
\<close>

record http_request =
  rq_method :: string
  rq_path :: string
  rq_pattern :: "string option"
  rq_header :: http_header
  rq_query :: "string list gomap"
  rq_body :: bytes
  rq_body_broken :: bool

record run_response =
  wr_id :: string
  wr_action :: string
  wr_status :: string
  wr_exit_code :: "int option"
  wr_created_at :: time
  wr_started_at :: "time option"
  wr_finished_at :: "time option"
  wr_timed_out :: bool
  wr_request_metadata :: bytes
  wr_stdout_tail :: string
  wr_stderr_tail :: string
  wr_error_summary :: string

datatype response_body =
    No_Body
  | Body_Text string
  | Body_Error string
  | Body_Run run_response
  | Body_Runs "run_response list"

text \<open>
  What the handlers of one request share: the header fields set so far, the \<open>requestLogState\<close> of the
  request's context (None when there is none), and the log records. A response adds the status
  and the body.
\<close>

record http_writer =
  hw_header :: "string gomap"
  hw_log_state :: "string option"
  hw_log :: "log_record list"

record http_response = http_writer +
  re_status :: int
  re_body :: response_body

text \<open>
  The route of a request, with its path parameter. What the router itself answers to a path or a
  method that no route has is a parameter, given the header fields that are set already.
\<close>

type_synonym router_answer = "string gomap \<Rightarrow> string gomap \<times> int \<times> response_body"

datatype v1_route =
    V1_List_Runs
  | V1_Get_Run string
  | V1_Invoke_Action string
  | V1_Unmatched router_answer

datatype http_route =
    Route_Healthz
  | Route_V1 v1_route
  | Route_Unmatched router_answer

definition new_run_response :: "run \<Rightarrow> run_response" where
  "new_run_response r =
     \<lparr>wr_id = rn_id r, wr_action = rn_action_name r, wr_status = rn_status r,
      wr_exit_code = rn_exit_code r, wr_created_at = rn_created_at r,
      wr_started_at = rn_started_at r, wr_finished_at = rn_finished_at r,
      wr_timed_out = rn_timed_out r, wr_request_metadata = rn_request_metadata r,
      wr_stdout_tail = rn_stdout_tail r, wr_stderr_tail = rn_stderr_tail r,
      wr_error_summary = rn_error_summary r\<rparr>"

text \<open>\<open>Header().Set\<close>, \<open>WriteHeader\<close> followed by the body, and what is written from them.\<close>

definition set_header :: "string \<Rightarrow> string \<Rightarrow> http_writer \<Rightarrow> http_writer" where
  "set_header key v w = w\<lparr>hw_header := AList.update key v (hw_header w)\<rparr>"

definition respond :: "http_writer \<Rightarrow> int \<Rightarrow> response_body \<Rightarrow> http_response" where
  "respond w status b =
     \<lparr>hw_header = hw_header w, hw_log_state = hw_log_state w, hw_log = hw_log w,
      re_status = status, re_body = b\<rparr>"

definition router_respond :: "router_answer \<Rightarrow> http_writer \<Rightarrow> http_response" where
  "router_respond answer w =
     (case answer (hw_header w) of (hdr, status, b) \<Rightarrow> respond (w\<lparr>hw_header := hdr\<rparr>) status b)"

definition write_json :: "http_writer \<Rightarrow> int \<Rightarrow> response_body \<Rightarrow> http_response" where
  "write_json w status b = respond (set_header ''Content-Type'' ''application/json'' w) status b"

definition write_json_error :: "http_writer \<Rightarrow> int \<Rightarrow> string \<Rightarrow> http_response" where
  "write_json_error w status msg = write_json w status (Body_Error msg)"

definition write_status_error :: "http_writer \<Rightarrow> int \<Rightarrow> http_response" where
  "write_status_error w status = write_json_error w status (status_text status)"

definition write_unauthorized :: "http_writer \<Rightarrow> http_response" where
  "write_unauthorized w =
     write_status_error (set_header ''WWW-Authenticate'' ''Bearer'' w) status_unauthorized"

subsection \<open>Decoding an invocation\<close>

record invoke_action_request =
  ir_mode :: string
  ir_input :: bytes

definition empty_invoke_request :: invoke_action_request where
  "empty_invoke_request = \<lparr>ir_mode = [], ir_input = []\<rparr>"

text \<open>How the readable part of a body ends, after \<open>MaxBytesReader\<close> has cut it.\<close>

datatype body_end = At_Eof | At_Limit | At_Failure

definition limit_body :: "bytes \<Rightarrow> bool \<Rightarrow> bytes \<times> body_end" where
  "limit_body body broken =
     (take max_invoke_action_request_body_bytes body,
      if max_invoke_action_request_body_bytes < length body then At_Limit
      else if broken then At_Failure else At_Eof)"

text \<open>
  One call of \<open>Decoder.Decode\<close> as far as finding the value goes: the value and what follows it,
  or the error the end of the body stands for.
\<close>

datatype decode_outcome = Decoded bytes bytes | Body_Too_Large | Body_Ended | Body_Malformed

definition decode_next :: "body_end \<Rightarrow> bytes \<Rightarrow> decode_outcome" where
  "decode_next fin data =
     (case read_value BeginValue [] data of
        ReadDone raw rest \<Rightarrow> Decoded raw rest
      | ReadError \<Rightarrow> Body_Malformed
      | ReadMore complete \<Rightarrow>
          (case fin of
             At_Limit \<Rightarrow> Body_Too_Large
           | At_Failure \<Rightarrow> Body_Malformed
           | At_Eof \<Rightarrow>
               if complete then Decoded data []
               else if list_all json_space data then Body_Ended else Body_Malformed))"

text \<open>
  Unmarshalling into the struct, with unknown fields disallowed: keys match a field name up to
  case, a later member replaces an earlier one, \<open>null\<close> leaves \<open>mode\<close> alone, and \<open>input\<close> keeps the bytes of its value.
\<close>

fun payload_members ::
    "invoke_action_request \<Rightarrow> (bytes \<times> bytes) list \<Rightarrow> invoke_action_request option" where
  "payload_members p [] = Some p"
| "payload_members p ((key, raw) # kvs) =
     (case json_unquote key of
        None \<Rightarrow> None
      | Some k \<Rightarrow>
          if equal_fold k ''mode'' then
            (if raw = ''null'' then payload_members p kvs
             else case json_unquote raw of
                 None \<Rightarrow> None
               | Some m \<Rightarrow> payload_members (p\<lparr>ir_mode := m\<rparr>) kvs)
          else if equal_fold k ''input'' then payload_members (p\<lparr>ir_input := raw\<rparr>) kvs
          else None)"

definition unmarshal_payload :: "bytes \<Rightarrow> invoke_action_request option" where
  "unmarshal_payload raw =
     (case skip_json_space raw of
        [] \<Rightarrow> None
      | c # r \<Rightarrow>
          if c = CHR ''{'' then payload_members empty_invoke_request (object_items r)
          else if c = CHR ''n'' then Some empty_invoke_request
          else None)"

definition body_too_large_error :: go_error where
  "body_too_large_error =
     wrap_error [Txt ''request body must be at most '',
       Num (int max_invoke_action_request_body_bytes), Txt '' bytes: '']
       (sentinel_error ErrRequestBodyTooLarge) []"

definition decode_invoke_action_request ::
    "http_request \<Rightarrow> go_error + invoke_action_request" where
  "decode_invoke_action_request rq =
     (let (data, fin) = limit_body (rq_body rq) (rq_body_broken rq) in
      case decode_next fin data of
        Body_Too_Large \<Rightarrow> Inl body_too_large_error
      | Body_Ended \<Rightarrow> Inl (errors_new ''request body must be valid JSON'')
      | Body_Malformed \<Rightarrow> Inl (errors_new ''request body must be valid JSON'')
      | Decoded raw rest \<Rightarrow>
          (case unmarshal_payload raw of
             None \<Rightarrow> Inl (errors_new ''request body must be valid JSON'')
           | Some payload \<Rightarrow>
               (case decode_next fin rest of
                  Body_Ended \<Rightarrow> Inr payload
                | Body_Too_Large \<Rightarrow> Inl body_too_large_error
                | _ \<Rightarrow> Inl (errors_new ''request body must contain a single JSON object''))))"

subsection \<open>Request ids\<close>

definition header_request_id :: "http_request \<Rightarrow> string" where
  "header_request_id rq = trim_space (header_get (rq_header rq) ''X-Request-Id'')"

text \<open>The members of an object as raw values, and the last one of a name; other values have none.\<close>

fun raw_members :: "bytes gomap \<Rightarrow> (bytes \<times> bytes) list \<Rightarrow> bytes gomap option" where
  "raw_members m [] = Some m"
| "raw_members m ((key, raw) # kvs) =
     (case json_unquote key of
        None \<Rightarrow> None
      | Some k \<Rightarrow> raw_members (AList.update k raw m) kvs)"

definition unmarshal_raw_map :: "bytes \<Rightarrow> bytes gomap option" where
  "unmarshal_raw_map data =
     (if \<not> json_valid data then None
      else case skip_json_space data of
        c # r \<Rightarrow>
          if c = CHR ''{'' then raw_members [] (object_items r)
          else if c = CHR ''n'' then Some [] else None
      | [] \<Rightarrow> None)"

definition extract_request_id :: "http_request \<Rightarrow> bytes \<Rightarrow> string" where
  "extract_request_id rq input =
     (if header_request_id rq \<noteq> [] then header_request_id rq
      else if input = [] then []
      else case unmarshal_raw_map input of
        None \<Rightarrow> []
      | Some values \<Rightarrow>
          (case map_of values ''request_id'' of
             None \<Rightarrow> []
           | Some raw \<Rightarrow>
               (case decode_string raw of Inl e \<Rightarrow> [] | Inr request_id \<Rightarrow> trim_space request_id)))"

definition set_request_id :: "http_writer \<Rightarrow> string \<Rightarrow> http_writer" where
  "set_request_id w request_id =
     (let i = trim_space request_id in
      if i = [] then w
      else (set_header ''X-Request-Id'' i w)\<lparr>hw_log_state := map_option (\<lambda>_. i) (hw_log_state w)\<rparr>)"

definition marshal_request_metadata :: "string \<Rightarrow> string \<Rightarrow> bytes" where
  "marshal_request_metadata mode request_id =
     ''{'' @ marshal_member ''mode'' mode
       @ (if request_id = [] then [] else '','' @ marshal_member ''request_id'' request_id) @ ''}''"

subsection \<open>The server\<close>

text \<open>The interfaces \<open>actionInvoker\<close> and \<open>runReader\<close>, over the state \<open>'x\<close> of what implements them.\<close>

record 'x action_invoker =
  ai_has_action :: "string \<Rightarrow> bool"
  ai_invoke :: "host \<Rightarrow> invoke_params \<Rightarrow> 'x \<Rightarrow> (go_error + run) \<times> 'x"

record 'x run_reader_ops =
  rd_get_run :: "string \<Rightarrow> 'x \<Rightarrow> (go_error + run) \<times> 'x"
  rd_list_runs :: "run_filter \<Rightarrow> 'x \<Rightarrow> (go_error + run list) \<times> 'x"

text \<open>A nil dependency is None.\<close>

record 'x server =
  sr_logger :: "logger option"
  sr_auth :: "auth_service option"
  sr_runs :: "'x run_reader_ops option"
  sr_exec :: "'x action_invoker option"

definition new_server ::
    "logger option \<Rightarrow> auth_service option \<Rightarrow> 'x action_invoker option \<Rightarrow> 'x run_reader_ops option
       \<Rightarrow> 'x server" where
  "new_server logger auth executor runs =
     \<lparr>sr_logger = logger, sr_auth = auth, sr_runs = runs, sr_exec = executor\<rparr>"

text \<open>The identity of a request: the one the middleware put in its context, if there is a service.\<close>

definition request_identity :: "'x server \<Rightarrow> identity option \<Rightarrow> identity option" where
  "request_identity sv ctx_identity = (if sr_auth sv = None then None else ctx_identity)"

definition healthz :: "http_request \<Rightarrow> http_writer \<Rightarrow> http_response" where
  "healthz rq w =
     (if rq_method rq \<noteq> ''GET''
      then respond (set_header ''Allow'' ''GET'' w) status_method_not_allowed No_Body
      else respond (set_header ''Content-Type'' ''text/plain; charset=utf-8'' w) status_ok
             (Body_Text ''ok\<newline>''))"

definition write_invocation_error ::
    "(nat \<Rightarrow> bool) \<Rightarrow> http_writer \<Rightarrow> go_error \<Rightarrow> http_response" where
  "write_invocation_error is_print w e =
     (if errors_is e ErrActionNotFound \<or> errors_is e ErrActionDisabled
      then write_json_error w status_not_found ''action not found''
      else if errors_is e ErrActionConflict then write_status_error w status_conflict
      else if errors_is e ErrInvalidMode \<or> errors_is e ErrInvalidRunState
      then write_json_error w status_bad_request (error_string is_print e)
      else write_status_error w status_internal_server_error)"

text \<open>The record of an invocation that was answered with a run.\<close>

definition invocation_record :: "run \<Rightarrow> string \<Rightarrow> string \<Rightarrow> log_record" where
  "invocation_record r mode request_id =
     \<lparr>lr_level = Level_Info, lr_message = ''action invocation handled'',
      lr_attrs = [(''action'', Log_String (rn_action_name r)), (''mode'', Log_String mode),
          (''run_id'', Log_String (rn_id r)), (''run_status'', Log_String (rn_status r))]
        @ (if request_id \<noteq> [] then [(''request_id'', Log_String request_id)] else [])
        @ (case rn_exit_code r of Some c \<Rightarrow> [(''exit_code'', Log_Int c)] | None \<Rightarrow> [])
        @ (if rn_timed_out r then [(''timed_out'', Log_Bool True)] else [])\<rparr>"

definition log_action_invocation ::
    "'x server \<Rightarrow> run \<Rightarrow> string \<Rightarrow> string \<Rightarrow> http_writer \<Rightarrow> http_writer" where
  "log_action_invocation sv r mode request_id w =
     w\<lparr>hw_log := emit (sr_logger sv) (invocation_record r mode request_id) (hw_log w)\<rparr>"

text \<open>
  The handler up to the call of \<open>Invoke\<close>: it answers by itself, or it goes on with the writer and the
  parameters of the call.
\<close>

definition prepare_invocation ::
    "'x server \<Rightarrow> host \<Rightarrow> http_request \<Rightarrow> identity option \<Rightarrow> string \<Rightarrow> http_writer
       \<Rightarrow> http_response + http_writer \<times> invoke_params" where
  "prepare_invocation sv h rq ctx_identity name_param w =
     (case sr_exec sv of
        None \<Rightarrow> Inl (write_status_error w status_internal_server_error)
      | Some ex \<Rightarrow>
      (let action_name = trim_space name_param in
       if \<not> ai_has_action ex action_name
       then Inl (write_json_error w status_not_found ''action not found'')
       else case request_identity sv ctx_identity of
        None \<Rightarrow> Inl (write_unauthorized w)
      | Some identity \<Rightarrow>
       if authorize_action identity action_name \<noteq> None
       then Inl (write_status_error w status_forbidden)
       else case decode_invoke_action_request rq of
        Inl e \<Rightarrow>
          (if errors_is e ErrRequestBodyTooLarge
           then Inl (write_json_error w status_request_entity_too_large (error_string (h_is_print h) e))
           else Inl (write_json_error w status_bad_request (error_string (h_is_print h) e)))
      | Inr payload \<Rightarrow>
       (let mode = trim_space (ir_mode payload) in
        if mode \<noteq> invoke_mode_sync \<and> mode \<noteq> invoke_mode_async
        then Inl (write_json_error w status_bad_request ''mode must be one of: sync, async'')
        else
          let request_id = extract_request_id rq (ir_input payload)
          in Inr (set_request_id w request_id,
               \<lparr>iv_action_name = action_name, iv_mode = mode, iv_input = ir_input payload,
                iv_request_metadata = marshal_request_metadata mode request_id,
                iv_request_id = request_id\<rparr>))))"

text \<open>The handler after the call, by what the call returned.\<close>

definition answer_invocation ::
    "'x server \<Rightarrow> host \<Rightarrow> http_writer \<Rightarrow> invoke_params \<Rightarrow> go_error + run \<Rightarrow> http_response" where
  "answer_invocation sv h w p res =
     (case res of
        Inl e \<Rightarrow> write_invocation_error (h_is_print h) w e
      | Inr r \<Rightarrow>
          write_json (log_action_invocation sv r (iv_mode p) (iv_request_id p) w)
            (if iv_mode p = invoke_mode_async then status_accepted else status_ok)
            (Body_Run (new_run_response r)))"

definition invoke_action ::
    "'x server \<Rightarrow> host \<Rightarrow> http_request \<Rightarrow> identity option \<Rightarrow> string \<Rightarrow> http_writer \<Rightarrow> 'x
       \<Rightarrow> http_response \<times> 'x" where
  "invoke_action sv h rq ctx_identity name_param w x =
     (case prepare_invocation sv h rq ctx_identity name_param w of
        Inl resp \<Rightarrow> (resp, x)
      | Inr (w1, p) \<Rightarrow>
          (case sr_exec sv of
             None \<Rightarrow> (write_status_error w status_internal_server_error, x)
           | Some ex \<Rightarrow> apfst (answer_invocation sv h w1 p) (ai_invoke ex h p x)))"

lemmas invoke_action_defs = invoke_action_def prepare_invocation_def answer_invocation_def

definition get_run ::
    "'x server \<Rightarrow> identity option \<Rightarrow> string \<Rightarrow> http_writer \<Rightarrow> 'x \<Rightarrow> http_response \<times> 'x" where
  "get_run sv ctx_identity id_param w x =
     (case sr_runs sv of
        None \<Rightarrow> (write_status_error w status_internal_server_error, x)
      | Some runs \<Rightarrow>
        (case rd_get_run runs id_param x of
           (Inl e, x') \<Rightarrow>
             (if errors_is e ErrRunNotFound
              then (write_json_error w status_not_found ''run not found'', x')
              else (write_status_error w status_internal_server_error, x'))
         | (Inr r, x') \<Rightarrow>
             (case request_identity sv ctx_identity of
                None \<Rightarrow> (write_unauthorized w, x')
              | Some identity \<Rightarrow>
                  if \<not> identity_allows_action identity (rn_action_name r)
                  then (write_status_error w status_forbidden, x')
                  else (write_json w status_ok (Body_Run (new_run_response r)), x'))))"

definition list_runs ::
    "'x server \<Rightarrow> (nat \<Rightarrow> bool) \<Rightarrow> http_request \<Rightarrow> identity option \<Rightarrow> http_writer \<Rightarrow> 'x
       \<Rightarrow> http_response \<times> 'x" where
  "list_runs sv is_print rq ctx_identity w x =
     (case sr_runs sv of
        None \<Rightarrow> (write_status_error w status_internal_server_error, x)
      | Some runs \<Rightarrow>
        (case request_identity sv ctx_identity of
           None \<Rightarrow> (write_unauthorized w, x)
         | Some identity \<Rightarrow>
           (let action_name = trim_space (header_get (rq_query rq) ''action'') in
            if action_name \<noteq> [] \<and> \<not> identity_allows_action identity action_name
            then (write_status_error w status_forbidden, x)
            else case rd_list_runs runs
                \<lparr>ff_action_name = action_name, ff_status = header_get (rq_query rq) ''status''\<rparr> x of
              (Inl e, x') \<Rightarrow>
                (if errors_is e ErrInvalidRunState
                 then (write_json_error w status_bad_request (error_string is_print e), x')
                 else (write_status_error w status_internal_server_error, x'))
            | (Inr rs, x') \<Rightarrow>
                (let visible = (if id_global identity then rs
                       else filter (\<lambda>r. identity_allows_action identity (rn_action_name r)) rs)
                 in (write_json w status_ok (Body_Runs (map new_run_response visible)), x')))))"

text \<open>The middleware of the \<open>/v1\<close> routes, and the dispatch inside it.\<close>

definition serve_v1 ::
    "'x server \<Rightarrow> host \<Rightarrow> v1_route \<Rightarrow> http_request \<Rightarrow> identity option \<Rightarrow> http_writer \<Rightarrow> 'x
       \<Rightarrow> http_response \<times> 'x" where
  "serve_v1 sv h route rq ctx_identity w x =
     (case route of
        V1_List_Runs \<Rightarrow> list_runs sv (h_is_print h) rq ctx_identity w x
      | V1_Get_Run i \<Rightarrow> get_run sv ctx_identity i w x
      | V1_Invoke_Action name \<Rightarrow> invoke_action sv h rq ctx_identity name w x
      | V1_Unmatched answer \<Rightarrow> (router_respond answer w, x))"

definition authenticate ::
    "auth_service option \<Rightarrow> (identity option \<Rightarrow> http_writer \<Rightarrow> 'x \<Rightarrow> http_response \<times> 'x)
       \<Rightarrow> http_request \<Rightarrow> http_writer \<Rightarrow> 'x \<Rightarrow> http_response \<times> 'x" where
  "authenticate auth next rq w x =
     (case auth of
        None \<Rightarrow> (write_unauthorized w, x)
      | Some service \<Rightarrow>
          (case authenticate_request service (rq_header rq) of
             Inl e \<Rightarrow> (write_unauthorized w, x)
           | Inr identity \<Rightarrow> next (Some identity) w x))"

text \<open>
  The outermost middleware: it echoes the request id of the header, and logs the request once it is
  served. \<open>h_request_time\<close> is how long that took.
\<close>

definition level_for_http_status :: "int \<Rightarrow> log_level" where
  "level_for_http_status status =
     (if status_internal_server_error \<le> status then Level_Error
      else if status_bad_request \<le> status then Level_Warn else Level_Info)"

definition duration_milliseconds :: "duration \<Rightarrow> int" where
  "duration_milliseconds d = (if 0 \<le> d then d div 1000000 else - (- d div 1000000))"

definition request_route :: "http_request \<Rightarrow> string" where
  "request_route rq =
     (case rq_pattern rq of
        Some p \<Rightarrow> if trim_space p \<noteq> [] then trim_space p else rq_path rq
      | None \<Rightarrow> rq_path rq)"

definition request_record :: "host \<Rightarrow> http_request \<Rightarrow> int \<Rightarrow> string \<Rightarrow> log_record" where
  "request_record h rq status request_id =
     \<lparr>lr_level = level_for_http_status status, lr_message = ''http request completed'',
      lr_attrs = [(''method'', Log_String (rq_method rq)), (''route'', Log_String (request_route rq)),
          (''status'', Log_Int status),
          (''duration_ms'', Log_Int (duration_milliseconds (h_request_time h)))]
        @ (if request_id \<noteq> [] then [(''request_id'', Log_String request_id)] else [])\<rparr>"

definition new_writer :: "http_request \<Rightarrow> http_writer" where
  "new_writer rq =
     (let i = header_request_id rq
      in \<lparr>hw_header = (if i \<noteq> [] then [(''X-Request-Id'', i)] else []),
          hw_log_state = Some i, hw_log = []\<rparr>)"

definition log_request :: "'x server \<Rightarrow> host \<Rightarrow> http_request \<Rightarrow> http_response \<Rightarrow> http_response" where
  "log_request sv h rq resp =
     resp\<lparr>hw_log := emit (sr_logger sv)
       (request_record h rq (re_status resp) (case hw_log_state resp of Some i \<Rightarrow> i | None \<Rightarrow> []))
       (hw_log resp)\<rparr>"

definition observe_requests ::
    "'x server \<Rightarrow> host \<Rightarrow> (http_writer \<Rightarrow> 'x \<Rightarrow> http_response \<times> 'x) \<Rightarrow> http_request \<Rightarrow> 'x
       \<Rightarrow> http_response \<times> 'x" where
  "observe_requests sv h next rq x = apfst (log_request sv h rq) (next (new_writer rq) x)"

definition serve ::
    "'x server \<Rightarrow> host \<Rightarrow> http_route \<Rightarrow> http_request \<Rightarrow> 'x \<Rightarrow> http_response \<times> 'x" where
  "serve sv h route rq x =
     observe_requests sv h
       (\<lambda>w x. case route of
            Route_Healthz \<Rightarrow> (healthz rq w, x)
          | Route_V1 r \<Rightarrow>
              authenticate (sr_auth sv) (\<lambda>i w x. serve_v1 sv h r rq i w x) rq w x
          | Route_Unmatched answer \<Rightarrow> (router_respond answer w, x)) rq x"

subsection \<open>The server of the program\<close>

text \<open>
  \<open>Bootstrap\<close> passes the execution service as the invoker and the SQLite store as the reader; in
  the model the store is a component of the execution state.
\<close>

definition on_store ::
    "('s \<Rightarrow> 'r \<times> 's) \<Rightarrow> 's exec_state \<Rightarrow> 'r \<times> 's exec_state" where
  "on_store f x = (case f (xs_store x) of (r, s') \<Rightarrow> (r, x\<lparr>xs_store := s'\<rparr>))"

definition service_invoker :: "'s service \<Rightarrow> 's exec_state action_invoker" where
  "service_invoker v = \<lparr>ai_has_action = has_action v, ai_invoke = invoke v\<rparr>"

definition store_reader_ops :: "store exec_state run_reader_ops" where
  "store_reader_ops =
     \<lparr>rd_get_run = (\<lambda>i. on_store (store_get_run i)),
      rd_list_runs = (\<lambda>f. on_store (store_list_runs f))\<rparr>"

text \<open>The server that \<open>Bootstrap\<close> builds.\<close>

definition api_server ::
    "logger option \<Rightarrow> time \<Rightarrow> action_registry \<Rightarrow> auth_service \<Rightarrow> store exec_state server" where
  "api_server logger now reg auth =
     new_server logger (Some auth)
       (Some (service_invoker (new_service (Some (store_ops now)) reg))) (Some store_reader_ops)"

end
