(* ===== verification/Buildinfo.thy ===== *)
theory Buildinfo
  imports Prelude
begin

section \<open>Build information\<close>

text \<open>
  \<open>internal/buildinfo/buildinfo.go\<close>: the variables that the linker may set are the arguments of
  \<open>current_build\<close>, with the Go version and the platform the binary was built for.
\<close>

record build_info =
  bi_version :: string
  bi_commit :: string
  bi_build_time :: string
  bi_built_by :: string
  bi_go_version :: string
  bi_platform :: string

definition current_build ::
    "string \<Rightarrow> string \<Rightarrow> string \<Rightarrow> string \<Rightarrow> string \<Rightarrow> string \<Rightarrow> string \<Rightarrow> build_info" where
  "current_build version commit build_time built_by go_version goos goarch =
     \<lparr>bi_version = version, bi_commit = commit, bi_build_time = build_time,
      bi_built_by = built_by, bi_go_version = go_version, bi_platform = goos @ ''/'' @ goarch\<rparr>"

definition build_lines :: "build_info \<Rightarrow> string list" where
  "build_lines i =
     [''version='' @ bi_version i, ''commit='' @ bi_commit i, ''build_time='' @ bi_build_time i,
      ''built_by='' @ bi_built_by i, ''go_version='' @ bi_go_version i,
      ''platform='' @ bi_platform i]"

end
