(* ===== verification/App.thy ===== *)
theory App
  imports Sqlite Http_Api Buildinfo
begin

section \<open>The application\<close>

text \<open>
  \<open>internal/app/app.go\<close>: \<open>Bootstrap\<close> puts the components together, in the order of the code, and
  closes the store on every later failure; \<open>Shutdown\<close> and \<open>Close\<close> take them down. The host is
  the file system and the driver, and what the clock shows: once when retention runs, and
  while recovery finishes runs.
\<close>

record app_host =
  ah_sqlite :: sqlite_host
  ah_pruned_at :: time
  ah_clock :: "nat \<Rightarrow> time"
  ah_now :: time

record app =
  ap_config :: config
  ap_build :: build_info
  ap_logger :: logger
  ap_auth :: auth_service
  ap_executor :: "store service option"
  ap_storage :: "sqlite_store option"
  ap_http :: "store exec_state server"
  ap_state :: "store exec_state"

text \<open>\<open>time.Duration(days) * 24 * time.Hour\<close>, with the wrap-around of 64-bit integers.\<close>

definition retention_max_age :: "int \<Rightarrow> duration" where
  "retention_max_age days = wrap64 (wrap64 (days * 24) * 3600000000000)"

definition retention_policy_of :: "storage_config \<Rightarrow> retention_policy" where
  "retention_policy_of c =
     \<lparr>rp_max_age = retention_max_age (sc_retention_days c), rp_max_runs = sc_max_runs c\<rparr>"

text \<open>The deferred close: the error joined with that of closing, and how often it closed.\<close>

definition close_after ::
    "sqlite_host \<Rightarrow> sqlite_store \<Rightarrow> string \<Rightarrow> go_error \<Rightarrow> go_error \<times> nat" where
  "close_after h st close_context e =
     (case storage_close h (Some st) of
        (None, n) \<Rightarrow> (e, n)
      | (Some c, n) \<Rightarrow>
          (the (errors_join (Some e) (Some (wrap_error
            [Txt ''close storage after '', Txt close_context, Txt '' failure: ''] c []))), n))"

text \<open>The number is how often the opened handle has been closed.\<close>

definition bootstrap :: "app_host \<Rightarrow> config \<Rightarrow> build_info \<Rightarrow> (go_error + app) \<times> nat" where
  "bootstrap h cfg build =
     (case storage_open (ah_sqlite h) (sc_path (cf_storage cfg)) of
        (Inl e, n) \<Rightarrow> (Inl e, n)
      | (Inr st, n) \<Rightarrow>
      (case store_apply_retention (ah_pruned_at h) (retention_policy_of (cf_storage cfg)) (ss_db st) of
        (Inl e, s) \<Rightarrow> map_prod Inl ((+) n) (close_after (ah_sqlite h) st ''retention'' e)
      | (Inr _, s) \<Rightarrow>
      (case auth_new (cf_auth cfg) of
        Inl e \<Rightarrow> map_prod Inl ((+) n) (close_after (ah_sqlite h) st ''auth bootstrap'' e)
      | Inr auth \<Rightarrow>
      (let ops = store_ops (ah_now h);
           executor = new_service (Some ops) (config_action_registry cfg)
       in case recover executor (ah_clock h) (new_exec_state s) of
        (Some e, x) \<Rightarrow> map_prod Inl ((+) n) (close_after (ah_sqlite h) st ''execution recovery'' e)
      | (None, x) \<Rightarrow>
          (Inr \<lparr>ap_config = cfg, ap_build = build, ap_logger = new_logger (sv_log_format (cf_server cfg)),
                ap_auth = auth, ap_executor = Some executor,
                ap_storage = Some (st\<lparr>ss_db := xs_store x\<rparr>),
                ap_http = api_server (Some (new_logger (sv_log_format (cf_server cfg)))) (ah_now h)
                  (config_action_registry cfg) auth,
                ap_state = x\<rparr>, n)))))"

text \<open>\<open>Service.Close\<close> of the executor has nothing to close.\<close>

definition service_close :: "'s service \<Rightarrow> go_error option" where
  "service_close v = None"

definition app_close :: "sqlite_host \<Rightarrow> app \<Rightarrow> go_error option \<times> nat" where
  "app_close h a =
     (let close_err = (case ap_executor a of None \<Rightarrow> None | Some v \<Rightarrow> errors_join None (service_close v))
      in case ap_storage a of
           None \<Rightarrow> (close_err, 0)
         | Some st \<Rightarrow> apfst (errors_join close_err) (storage_close h (Some st)))"

text \<open>\<open>http_result\<close> is what \<open>http.Server.Shutdown\<close> returns.\<close>

definition app_shutdown :: "sqlite_host \<Rightarrow> go_error option \<Rightarrow> app \<Rightarrow> go_error option \<times> nat" where
  "app_shutdown h http_result a =
     (let shutdown_err =
        (case http_result of
           None \<Rightarrow> None
         | Some e \<Rightarrow>
             if errors_is e ErrServerClosed then None
             else errors_join None (Some (wrap_error [Txt ''shutdown http server: ''] e [])))
      in apfst (errors_join shutdown_err) (app_close h a))"

end
