(* ===== verification/Cli.thy ===== *)
theory Cli
  imports App
begin

section \<open>The command line\<close>

text \<open>
  \<open>internal/cli/cli.go\<close>: the commands and their exit codes. Parsing the arguments and printing
  help is the third-party package's: a run comes with the command it was dispatched to, its
  positional arguments and the value of its \<open>--config\<close> flag. The host says what every write
  returns, what the file system, the network and the signals do, and what loading needs.
\<close>

datatype stream = Stdout | Stderr

type_synonym writes = "(stream \<times> string) list"

text \<open>\<open>urfavecli.Exit\<close> with an empty text, or any other error.\<close>

datatype cli_error = Exit_Error int | Plain_Error go_error

text \<open>How the wait of \<open>serve\<close> ends: \<open>Serve\<close> returns first, or a signal comes first.\<close>

datatype serve_event = Serve_Returned "go_error option" | Signalled

record cli_host =
  cl_write_error :: "nat \<Rightarrow> go_error option"
  cl_show_help :: "cli_error option"
  cl_is_print :: "nat \<Rightarrow> bool"
  cl_env_config :: string
  cl_read_file :: "string \<Rightarrow> go_error + bytes"
  cl_yaml_decode :: "bytes \<Rightarrow> go_error + file_config"
  cl_random :: "go_error + bytes"
  cl_build :: build_info
  cl_app :: app_host
  cl_listen :: "string \<Rightarrow> go_error option"
  cl_event :: serve_event
  cl_http_shutdown :: "go_error option"
  cl_serve_result :: "go_error option"

record command =
  cm_args :: "string list"
  cm_config :: string

text \<open>\<open>writef\<close> and \<open>writeln\<close>: the text is handed to the stream; the write may report an error.\<close>

definition write_text :: "cli_host \<Rightarrow> stream \<Rightarrow> string \<Rightarrow> writes \<Rightarrow> cli_error option \<times> writes" where
  "write_text h st text out =
     (map_option Plain_Error (cl_write_error h (length out)), out @ [(st, text)])"

definition exit_with :: "int \<Rightarrow> cli_error option" where
  "exit_with code = Some (Exit_Error code)"

text \<open>The way every handler fails: a line on the standard error, then an exit code.\<close>

definition report :: "cli_host \<Rightarrow> string \<Rightarrow> int \<Rightarrow> writes \<Rightarrow> cli_error option \<times> writes" where
  "report h text code out =
     (case write_text h Stderr text out of
        (Some e, out') \<Rightarrow> (Some e, out')
      | (None, out') \<Rightarrow> (exit_with code, out'))"

definition command_exit_code :: "cli_error option \<Rightarrow> int" where
  "command_exit_code err =
     (case err of None \<Rightarrow> 0 | Some (Exit_Error code) \<Rightarrow> code | Some (Plain_Error e) \<Rightarrow> 1)"

definition reject_positional_args ::
    "cli_host \<Rightarrow> string \<Rightarrow> command \<Rightarrow> writes \<Rightarrow> cli_error option \<times> writes" where
  "reject_positional_args h name cmd out =
     (if cm_args cmd = [] then (None, out)
      else report h (name @ '' does not accept positional arguments: ''
             @ strings_join (cm_args cmd) '' '' @ ''\<newline>'') 2 out)"

definition cli_load :: "cli_host \<Rightarrow> command \<Rightarrow> go_error + config" where
  "cli_load h cmd =
     load (cl_read_file h) (cl_yaml_decode h)
       (resolve_path (cl_env_config h) (cm_config cmd))"

definition run_root :: "cli_host \<Rightarrow> command \<Rightarrow> writes \<Rightarrow> cli_error option \<times> writes" where
  "run_root h cmd out =
     (case cm_args cmd of
        [] \<Rightarrow> (case cl_show_help h of Some e \<Rightarrow> (Some e, out) | None \<Rightarrow> (exit_with 2, out))
      | arg # _ \<Rightarrow>
          (case write_text h Stderr (''unknown command '' @ go_quote (cl_is_print h) arg @ ''\<newline>\<newline>'') out of
             (Some e, out') \<Rightarrow> (Some e, out')
           | (None, out') \<Rightarrow>
               (case cl_show_help h of Some e \<Rightarrow> (Some e, out') | None \<Rightarrow> (exit_with 2, out'))))"

definition on_usage_error :: "cli_host \<Rightarrow> string \<Rightarrow> writes \<Rightarrow> cli_error option \<times> writes" where
  "on_usage_error h text out =
     (case write_text h Stderr (''Incorrect Usage: '' @ text @ ''\<newline>\<newline>'') out of
        (Some e, out') \<Rightarrow> (Some e, out')
      | (None, out') \<Rightarrow>
          (case cl_show_help h of Some e \<Rightarrow> (Some e, out') | None \<Rightarrow> (exit_with 2, out')))"

definition run_validate_config :: "cli_host \<Rightarrow> command \<Rightarrow> writes \<Rightarrow> cli_error option \<times> writes" where
  "run_validate_config h cmd out =
     (case reject_positional_args h ''validate-config'' cmd out of
        (Some e, out1) \<Rightarrow> (Some e, out1)
      | (None, out1) \<Rightarrow>
          (case cli_load h cmd of
             Inl e \<Rightarrow> report h (error_string (cl_is_print h) e @ ''\<newline>'') 1 out1
           | Inr c \<Rightarrow>
               write_text h Stdout (''config is valid: ''
                 @ resolve_path (cl_env_config h) (cm_config cmd) @ ''\<newline>'') out1))"

definition run_generate_token :: "cli_host \<Rightarrow> command \<Rightarrow> writes \<Rightarrow> cli_error option \<times> writes" where
  "run_generate_token h cmd out =
     (case reject_positional_args h ''generate-token'' cmd out of
        (Some e, out1) \<Rightarrow> (Some e, out1)
      | (None, out1) \<Rightarrow>
          (case generate_token (cl_random h) of
             Inl e \<Rightarrow> report h (''generate token: '' @ error_string (cl_is_print h) e @ ''\<newline>'') 1 out1
           | Inr token \<Rightarrow> write_text h Stdout (token @ ''\<newline>'') out1))"

fun write_lines :: "cli_host \<Rightarrow> string list \<Rightarrow> writes \<Rightarrow> cli_error option \<times> writes" where
  "write_lines h [] out = (None, out)"
| "write_lines h (line # ls) out =
     (case write_text h Stdout (line @ ''\<newline>'') out of
        (Some e, out') \<Rightarrow> (Some e, out')
      | (None, out') \<Rightarrow> write_lines h ls out')"

definition run_version :: "cli_host \<Rightarrow> command \<Rightarrow> writes \<Rightarrow> cli_error option \<times> writes" where
  "run_version h cmd out =
     (case reject_positional_args h ''version'' cmd out of
        (Some e, out1) \<Rightarrow> (Some e, out1)
      | (None, out1) \<Rightarrow> write_lines h (build_lines (cl_build h)) out1)"

text \<open>
  \<open>serve\<close>. The number is how often the handle of the store is closed; \<open>served\<close> is the wait and
  what follows it, from the point where the listener is open.
\<close>

definition closing_error :: "string \<Rightarrow> go_error \<Rightarrow> go_error option \<Rightarrow> go_error" where
  "closing_error what e close_err =
     (case close_err of
        None \<Rightarrow> e
      | Some c \<Rightarrow> the (errors_join (Some e) (Some (wrap_error
          [Txt ''close service after '', Txt what, Txt '' failure: ''] c []))))"

definition serve_failed :: "go_error option \<Rightarrow> bool" where
  "serve_failed res = (case res of None \<Rightarrow> False | Some e \<Rightarrow> \<not> errors_is e ErrServerClosed)"

definition served ::
    "cli_host \<Rightarrow> app \<Rightarrow> writes \<Rightarrow> (cli_error option \<times> writes) \<times> nat" where
  "served h a out =
     (let sq = ah_sqlite (cl_app h); p = cl_is_print h in
      case cl_event h of
        Serve_Returned res \<Rightarrow>
          (case app_close sq a of (close_err, n) \<Rightarrow>
             (if serve_failed res then
                report h (''serve: ''
                  @ error_string p (closing_error ''serve'' (the res) close_err) @ ''\<newline>'') 1 out
              else case close_err of
                  Some e \<Rightarrow> report h (''close service: '' @ error_string p e @ ''\<newline>'') 1 out
                | None \<Rightarrow> (None, out), n))
      | Signalled \<Rightarrow>
          (case app_shutdown sq (cl_http_shutdown h) a of (shutdown_err, n) \<Rightarrow>
             (let serve_err = cl_serve_result h in
              if serve_failed serve_err then
                report h (''serve: '' @ error_string p (the serve_err) @ ''\<newline>'') 1 out
              else case shutdown_err of
                  Some e \<Rightarrow> report h (''shutdown service: '' @ error_string p e @ ''\<newline>'') 1 out
                | None \<Rightarrow> (None, out), n)))"

definition run_serve ::
    "cli_host \<Rightarrow> command \<Rightarrow> writes \<Rightarrow> (cli_error option \<times> writes) \<times> nat" where
  "run_serve h cmd out =
     (case reject_positional_args h ''serve'' cmd out of
        (Some e, out1) \<Rightarrow> ((Some e, out1), 0)
      | (None, out1) \<Rightarrow>
      (case cli_load h cmd of
        Inl e \<Rightarrow> (report h (error_string (cl_is_print h) e @ ''\<newline>'') 1 out1, 0)
      | Inr cfg \<Rightarrow>
      (case bootstrap (cl_app h) cfg (cl_build h) of
        (Inl e, n) \<Rightarrow>
          (report h (''bootstrap service: '' @ error_string (cl_is_print h) e @ ''\<newline>'') 1 out1, n)
      | (Inr a, n) \<Rightarrow>
      (case cl_listen h (sv_listen (cf_server cfg)) of
        Some e \<Rightarrow>
          (case app_close (ah_sqlite (cl_app h)) a of (close_err, m) \<Rightarrow>
             (report h (''listen on '' @ go_quote (cl_is_print h) (sv_listen (cf_server cfg)) @ '': ''
                @ error_string (cl_is_print h) (closing_error ''listen'' e close_err) @ ''\<newline>'') 1 out1,
              n + m))
      | None \<Rightarrow> apsnd ((+) n) (served h a out1)))))"

text \<open>What a command line is dispatched to.\<close>

datatype dispatch =
    Run_Root command | Run_Serve command | Run_Generate_Token command
  | Run_Validate_Config command | Run_Version command | Usage_Error string

definition run_command :: "cli_host \<Rightarrow> dispatch \<Rightarrow> cli_error option \<times> writes" where
  "run_command h d =
     (case d of
        Run_Root cmd \<Rightarrow> run_root h cmd []
      | Run_Serve cmd \<Rightarrow> fst (run_serve h cmd [])
      | Run_Generate_Token cmd \<Rightarrow> run_generate_token h cmd []
      | Run_Validate_Config cmd \<Rightarrow> run_validate_config h cmd []
      | Run_Version cmd \<Rightarrow> run_version h cmd []
      | Usage_Error text \<Rightarrow> on_usage_error h text [])"

definition run_cli :: "cli_host \<Rightarrow> dispatch \<Rightarrow> int \<times> writes" where
  "run_cli h d = (case run_command h d of (err, out) \<Rightarrow> (command_exit_code err, out))"

text \<open>The completion command: the package's action, with its error printed.\<close>

definition completion_action :: "cli_host \<Rightarrow> cli_error option \<Rightarrow> writes \<Rightarrow> cli_error option \<times> writes" where
  "completion_action h err out =
     (case err of
        Some (Plain_Error e) \<Rightarrow>
          (if error_string (cl_is_print h) e = [] then (err, out)
           else case write_text h Stderr (error_string (cl_is_print h) e @ ''\<newline>'') out of
               (Some w, out') \<Rightarrow> (Some w, out')
             | (None, out') \<Rightarrow> (err, out'))
      | _ \<Rightarrow> (err, out))"

end
