(* ===== verification/Exec_Spec.thy ===== *)
theory Exec_Spec
  imports Exec
begin

section \<open>What the execution service guarantees\<close>

text \<open>
  The lemmas about the runner that hold for every store that keeps the contract of
  \<open>run_store\<close>: they are proved in its locale. The decision the runner takes about a finished
  process is separated from the store operations that record it.
\<close>

definition terminal_status :: "string \<Rightarrow> bool" where
  "terminal_status st \<longleftrightarrow>
     st \<in> {run_status_succeeded, run_status_failed, run_status_timed_out, run_status_cancelled}"

lemma status_distinct [simp]:
  "run_status_succeeded \<noteq> run_status_running" "run_status_failed \<noteq> run_status_running"
  "run_status_timed_out \<noteq> run_status_running" "run_status_cancelled \<noteq> run_status_running"
  "run_status_succeeded \<noteq> run_status_timed_out" "run_status_failed \<noteq> run_status_timed_out"
  "run_status_cancelled \<noteq> run_status_timed_out" "run_status_succeeded \<noteq> run_status_failed"
  "run_status_succeeded \<noteq> run_status_cancelled" "run_status_failed \<noteq> run_status_cancelled"
  by (simp_all add: run_status_defs)

lemmas status_distinct_sym [simp] = status_distinct [symmetric]

lemma terminal_not_running: "terminal_status st \<Longrightarrow> st \<noteq> run_status_running"
  by (auto simp: terminal_status_def)

subsection \<open>The decision about a process\<close>

text \<open>
  What is recorded of a process: a script that was interrupted counts as interrupted only when
  the process left neither a clean exit nor an exit code behind.
\<close>

definition was_interrupted :: "process_script \<Rightarrow> bool" where
  "was_interrupted os \<longleftrightarrow>
     os_select os = Interrupted \<and> os_wait_error os \<noteq> None
     \<and> process_exit_code (os_process_state os) = None"

definition kill_error :: "process_script \<Rightarrow> go_error option" where
  "kill_error os = terminate_process_group False (os_kill_group os) (os_kill_process os)"

definition completed_outcome :: "host \<Rightarrow> action \<Rightarrow> process_script \<Rightarrow> string \<times> process_result" where
  "completed_outcome h a os =
     (let exit_code = process_exit_code (os_process_state os) in
      (if os_wait_error os = None then run_status_succeeded else run_status_failed,
       \<lparr>pr_exit_code = exit_code, pr_finished_at = h_finished_at h, pr_timed_out = False,
        pr_stdout_tail = captured (ac_max_output_bytes a) (os_stdout os),
        pr_stderr_tail = captured (ac_max_output_bytes a) (os_stderr os),
        pr_error_summary = (case os_wait_error os of
            None \<Rightarrow> [] | Some e \<Rightarrow> failure_summary (h_is_print h) e exit_code)\<rparr>))"

definition interrupted_outcome :: "host \<Rightarrow> action \<Rightarrow> process_script \<Rightarrow> string \<times> process_result" where
  "interrupted_outcome h a os =
     (let (status, summary) = interrupted_status (os_exec_ctx_error os) (os_run_ctx_error os)
            (ac_timeout a)
      in (status,
       \<lparr>pr_exit_code = None, pr_finished_at = h_finished_at h,
        pr_timed_out = (status = run_status_timed_out),
        pr_stdout_tail = captured (ac_max_output_bytes a) (os_stdout os),
        pr_stderr_tail = captured (ac_max_output_bytes a) (os_stderr os),
        pr_error_summary = (case kill_error os of
            None \<Rightarrow> summary
          | Some e \<Rightarrow> join_summary
              [summary, ''terminate process group: '' @ error_string (h_is_print h) e])\<rparr>))"

definition unstarted_outcome :: "host \<Rightarrow> string \<Rightarrow> string \<times> process_result" where
  "unstarted_outcome h summary =
     (run_status_failed,
      \<lparr>pr_exit_code = None, pr_finished_at = h_finished_at h, pr_timed_out = False,
       pr_stdout_tail = [], pr_stderr_tail = [], pr_error_summary = summary\<rparr>)"

text \<open>The outcome, and the error that \<open>execute\<close> returns even when the run was recorded.\<close>

definition execution_outcome ::
    "host \<Rightarrow> go_context \<Rightarrow> run \<Rightarrow> action \<Rightarrow> bytes \<Rightarrow> string
       \<Rightarrow> (string \<times> process_result) \<times> go_error option" where
  "execution_outcome h ctx r a input request_id =
     (case build_command a of
        Inl e \<Rightarrow> (unstarted_outcome h (error_string (h_is_print h) e), None)
      | Inr argv \<Rightarrow>
        (let os = h_spawn h (process_spec_of h ctx argv r a input request_id)
         in case os_start_error os of
           Some e \<Rightarrow> (unstarted_outcome h (''start process: '' @ error_string (h_is_print h) e), None)
         | None \<Rightarrow>
           if was_interrupted os then (interrupted_outcome h a os, kill_error os)
           else (completed_outcome h a os, None)))"

lemma finish_completion_outcome:
  "finish_completion ops h r (captured (ac_max_output_bytes a) (os_stdout os))
     (captured (ac_max_output_bytes a) (os_stderr os)) (os_process_state os) (os_wait_error os) s =
   (let (status, result) = completed_outcome h a os in finish_run ops r status result s)"
  by (simp add: finish_completion_def completed_outcome_def Let_def split: option.split)

lemma captured_eq:
  "tail_string (tail_write_all (new_tail_buffer n) chunks) = captured n chunks"
  "tail_string (new_tail_buffer n) = []"
  by (simp_all add: captured_def new_tail_buffer_def tail_string_def)

text \<open>\<open>execute\<close> is the decision followed by \<open>finishRun\<close>.\<close>

lemma execute_outcome:
  "execute ops h ctx r a input request_id s =
    (let ((status, result), kill_err) = execution_outcome h ctx r a input request_id in
     case finish_run ops r status result s of
       (Inl e, s') \<Rightarrow> (Inl e, s')
     | (Inr finished, s') \<Rightarrow>
         (case kill_err of
            None \<Rightarrow> (Inr finished, s')
          | Some e \<Rightarrow> (Inl (wrap_error [Txt ''invoke action '', Quoted (ac_name a), Txt '' run '',
              Quoted (rn_id r), Txt '': ''] e []), s')))"
proof (cases "build_command a")
  case (Inl e)
  then show ?thesis
    by (simp add: execute_def execution_outcome_def unstarted_outcome_def split: prod.split sum.split)
next
  case (Inr argv)
  define os where "os = h_spawn h (process_spec_of h ctx argv r a input request_id)"
  show ?thesis
  proof (cases "os_start_error os")
    case (Some e)
    with Inr show ?thesis
      by (simp add: execute_def execution_outcome_def unstarted_outcome_def os_def Let_def
          captured_eq split: prod.split sum.split)
  next
    case None
    show ?thesis
    proof (cases "was_interrupted os")
      case True
      then obtain we where i: "os_select os = Interrupted" "os_wait_error os = Some we"
          "process_exit_code (os_process_state os) = None"
        by (auto simp: was_interrupted_def)
      with True None Inr show ?thesis
        unfolding execute_def execution_outcome_def
        by (simp add: os_def [symmetric] Let_def captured_eq interrupted_outcome_def
            kill_error_def [symmetric] split: prod.split)
    next
      case False
      have "execute ops h ctx r a input request_id s =
          finish_completion ops h r (captured (ac_max_output_bytes a) (os_stdout os))
            (captured (ac_max_output_bytes a) (os_stderr os)) (os_process_state os)
            (os_wait_error os) s"
        using False None Inr
        unfolding execute_def was_interrupted_def
        by (auto simp: os_def [symmetric] Let_def captured_eq)
      with False None Inr show ?thesis
        by (cases "completed_outcome h a os")
          (simp add: execution_outcome_def os_def [symmetric] finish_completion_outcome
            split: prod.split sum.split)
    qed
  qed
qed

text \<open>Every recorded outcome is terminal and within the bounds of the action.\<close>

definition outcome_ok :: "action \<Rightarrow> string \<Rightarrow> process_result \<Rightarrow> bool" where
  "outcome_ok a status result \<longleftrightarrow>
     terminal_status status
     \<and> (pr_timed_out result \<longleftrightarrow> status = run_status_timed_out)
     \<and> int (length (pr_stdout_tail result)) \<le> max 0 (ac_max_output_bytes a)
     \<and> int (length (pr_stderr_tail result)) \<le> max 0 (ac_max_output_bytes a)
     \<and> (\<forall>c. pr_exit_code result = Some c \<longrightarrow> 0 \<le> c)
     \<and> (status = run_status_timed_out \<longrightarrow> 0 < ac_timeout a)"

lemma captured_length_int: "int (length (captured n chunks)) \<le> max 0 n"
  using captured_length [of n chunks] by (simp add: le_nat_iff)

lemma interrupted_status_cases:
  "interrupted_status e r t = (st, summary) \<Longrightarrow>
     st = run_status_timed_out \<and> 0 < t \<or> st = run_status_cancelled"
  by (auto simp: interrupted_status_def split: if_splits)

lemma unstarted_outcome_ok:
  "unstarted_outcome h summary = (status, result) \<Longrightarrow> outcome_ok a status result"
  by (auto simp: unstarted_outcome_def outcome_ok_def terminal_status_def)

lemma completed_outcome_ok:
  "completed_outcome h a os = (status, result) \<Longrightarrow> outcome_ok a status result"
  by (auto simp: completed_outcome_def outcome_ok_def terminal_status_def captured_length_int
      process_exit_code_def Let_def split: option.splits if_splits)

lemma interrupted_outcome_ok:
  "interrupted_outcome h a os = (status, result) \<Longrightarrow> outcome_ok a status result"
  by (auto simp: interrupted_outcome_def outcome_ok_def terminal_status_def captured_length_int
      dest!: interrupted_status_cases split: prod.splits)

lemma execution_outcome_ok:
  assumes "execution_outcome h ctx r a input request_id = ((status, result), kill_err)"
  shows "outcome_ok a status result"
  using assms
  by (auto simp: execution_outcome_def Let_def split: sum.splits option.splits if_splits
      intro: unstarted_outcome_ok completed_outcome_ok interrupted_outcome_ok)


subsection \<open>The environment of a process\<close>

definition base_path :: "string option \<Rightarrow> string" where
  "base_path path =
     (case path of Some p \<Rightarrow> if trim_space p \<noteq> [] then p else default_exec_path
      | None \<Rightarrow> default_exec_path)"

lemma env_entries_wf: "gomap_wf (env_entries path configured i n q)"
proof -
  have "gomap_wf [(''PATH'', v)]" for v :: string by (simp add: gomap_wf_def)
  then show ?thesis unfolding env_entries_def Let_def by (intro gomap_update_wf gomap_copy_wf)
qed

lemma env_entries_lookup:
  assumes "gomap_wf configured"
  shows "map_of (env_entries path configured i n q) =
    ([''PATH'' \<mapsto> base_path path] ++ map_of configured)
      (env_run_id \<mapsto> i, env_action \<mapsto> n, env_request_id \<mapsto> q)"
  using gomap_copy_lookup [OF assms, of "[(''PATH'', base_path path)]"]
  by (simp add: env_entries_def base_path_def [symmetric] update_conv' Let_def)

text \<open>Sorting the keys makes the printed entries a function of the map alone.\<close>

definition print_env :: "string gomap \<Rightarrow> string list" where
  "print_env env = map (\<lambda>key. key @ ''='' @ (case map_of env key of Some v \<Rightarrow> v | None \<Rightarrow> []))
     (sort (map fst env))"

lemma build_env_print: "build_env path configured i n q = print_env (env_entries path configured i n q)"
  by (simp add: build_env_def print_env_def Let_def)

lemma print_env_eq:
  assumes "gomap_wf m1" "gomap_wf m2" "map_of m1 = map_of m2"
  shows "print_env m1 = print_env m2"
  using sorted_keys_unique [of m1 m2] assms by (simp add: print_env_def gomap_wf_def)

lemma build_env_same_map:
  assumes "gomap_wf e1" "gomap_wf e2" "map_of e1 = map_of e2"
  shows "build_env path e1 i n q = build_env path e2 i n q"
  unfolding build_env_print
  by (rule print_env_eq [OF env_entries_wf env_entries_wf])
    (simp only: env_entries_lookup [OF assms(1)] env_entries_lookup [OF assms(2)] assms(3))

lemma print_env_set:
  "set (print_env m) = {k @ ''='' @ w |k w. map_of m k = Some w}"
proof -
  have "set (print_env m)
      = (\<lambda>key. key @ ''='' @ (case map_of m key of Some v \<Rightarrow> v | None \<Rightarrow> [])) ` dom (map_of m)"
    by (simp add: print_env_def dom_map_of_conv_image_fst)
  then show ?thesis by force
qed

subsection \<open>Run ids\<close>

lemma hex_digit_inj: "a < 16 \<Longrightarrow> b < 16 \<Longrightarrow> hex_digit a = hex_digit b \<Longrightarrow> a = b"
  by (auto simp: hex_digit_def char_of_eq_iff take_bit_eq_mod split: if_splits)

lemma hex_digit_graphic: "d < 16 \<Longrightarrow> graphic [hex_digit d]"
  by (simp add: graphic_def hex_digit_def)

lemma graphic_append [simp]: "graphic (s @ t) \<longleftrightarrow> graphic s \<and> graphic t"
  by (auto simp: graphic_def)

lemma hex_digits_graphic: "graphic (hex_digits w n)"
proof (induction w n rule: hex_digits.induct)
  case (1 n)
  then show ?case by (simp add: graphic_def)
next
  case (2 w n)
  then show ?case using hex_digit_graphic [of "n mod 16"] by simp
qed

lemma run_id_graphic:
  assumes "generate_run_id r = Inr i"
  shows "graphic i" "i \<noteq> []" "trim_space i = i"
proof -
  have "graphic (concat (map (\<lambda>c. hex_digits 2 (byte_of c)) bs))" for bs
    by (induction bs) (simp_all add: hex_digits_graphic, simp add: graphic_def)
  moreover have "graphic ''run_''" by (simp add: graphic_def)
  ultimately have "graphic (''run_'' @ concat (map (\<lambda>c. hex_digits 2 (byte_of c)) bs))" for bs
    by (simp only: graphic_append)
  then show g: "graphic i" and "i \<noteq> []"
    using assms by (auto simp: generate_run_id_def split: sum.splits)
  show "trim_space i = i" by (rule trim_space_id [OF graphic_trimmed [OF g]])
qed

lemma nibbles_eq:
  assumes "(a :: nat) < 256" "b < 256" "a div 16 mod 16 = b div 16 mod 16" "a mod 16 = b mod 16"
  shows "a = b"
proof -
  have "a div 16 = b div 16" using assms(1-3) by (simp add: less_mult_imp_div_less)
  with assms(4) show ?thesis by (metis div_mult_mod_eq)
qed

lemma hex_byte_inj:
  assumes "hex_digits 2 (byte_of c) = hex_digits 2 (byte_of d)"
  shows "c = d"
proof -
  have b: "byte_of x < 256" for x :: char
    by (metis mod_less_divisor of_char_mod_256 zero_less_numeral)
  have "hex_digits 2 n = [hex_digit (n div 16 mod 16), hex_digit (n mod 16)]" for n
    by (simp add: numeral_2_eq_2)
  with assms have "byte_of c div 16 mod 16 = byte_of d div 16 mod 16" "byte_of c mod 16 = byte_of d mod 16"
    using hex_digit_inj by simp_all
  then have "byte_of c = byte_of d"
    using nibbles_eq [OF b b] by blast
  then show ?thesis by simp
qed

lemma hex_bytes_inj:
  "length xs = length ys \<Longrightarrow>
   concat (map (\<lambda>c. hex_digits 2 (byte_of c)) xs) = concat (map (\<lambda>c. hex_digits 2 (byte_of c)) ys) \<Longrightarrow>
   xs = ys"
proof (induction xs ys rule: list_induct2)
  case Nil
  then show ?case by simp
next
  case (Cons x xs y ys)
  have "length (hex_digits w n) = w" for w n by (induction w n rule: hex_digits.induct) simp_all
  with Cons.prems have "hex_digits 2 (byte_of x) = hex_digits 2 (byte_of y)"
      "concat (map (\<lambda>c. hex_digits 2 (byte_of c)) xs) = concat (map (\<lambda>c. hex_digits 2 (byte_of c)) ys)"
    by simp_all
  with Cons.IH hex_byte_inj show ?case by simp
qed

subsection \<open>Recording runs in a store that keeps the contract\<close>

lemma finish_params_id [simp]: "up_id (finish_params r status result) = rn_id r"
  by (simp add: finish_params_def)

definition finished_run :: "run \<Rightarrow> string \<Rightarrow> process_result \<Rightarrow> run \<Rightarrow> run" where
  "finished_run r status result stored = updated_run (finish_params r status result) stored"

lemma finished_run_columns [simp]:
  "rn_status (finished_run r status result stored) = status"
  "rn_id (finished_run r status result stored) = rn_id stored"
  "rn_action_name (finished_run r status result stored) = rn_action_name stored"
  "rn_snapshot (finished_run r status result stored) = rn_snapshot stored"
  "rn_created_at (finished_run r status result stored) = rn_created_at stored"
  "rn_timed_out (finished_run r status result stored) = pr_timed_out result"
  "rn_exit_code (finished_run r status result stored) = pr_exit_code result"
  "rn_stdout_tail (finished_run r status result stored) = pr_stdout_tail result"
  "rn_stderr_tail (finished_run r status result stored) = pr_stderr_tail result"
  "rn_error_summary (finished_run r status result stored) = pr_error_summary result"
  "rn_finished_at (finished_run r status result stored)
     = Some (stored_time (pr_finished_at result))"
  by (simp_all add: finished_run_def updated_run_def finish_params_def)

text \<open>
  What recovery leaves of a store: a run that was running may have been cancelled, any other is
  as it was; when it reports success no running run is left.
\<close>

definition recovered :: "run option \<Rightarrow> run option \<Rightarrow> bool" where
  "recovered before after \<longleftrightarrow>
     (case before of
        None \<Rightarrow> after = None
      | Some r \<Rightarrow>
          if rn_status r = run_status_running
          then \<exists>t. after = Some (finished_run r run_status_cancelled (recovery_result t) r)
          else after = Some r)"

lemma filter_running:
  "filter_accepts \<lparr>ff_action_name = [], ff_status = run_status_running\<rparr> r \<longleftrightarrow>
     rn_status r = run_status_running"
proof -
  have "trim_space run_status_running = run_status_running"
    unfolding run_status_running_def by code_simp
  moreover have "trim_space [] = []" by simp
  moreover have "run_status_running \<noteq> []" by (simp add: run_status_running_def)
  ultimately show ?thesis by (simp add: filter_accepts_def run_matches_def)
qed

context run_store
begin

text \<open>
  What is left of a run by an operation that finishes it: the store records the whole result or
  nothing, and an answer with a run is that run as recorded.
\<close>

lemma finish_run_cases:
  assumes inv: "inv s" and op: "finish_run ops r status result s = (res, s')"
  obtains (unrecorded) e where "res = Inl e" "inv s'" "lookup s' = lookup s"
  | (recorded) stored where "inv s'" "lookup s (rn_id r) = Some stored"
      "lookup s' = (lookup s)(rn_id r \<mapsto> finished_run r status result stored)"
      "\<And>run. res = Inr run \<Longrightarrow> run = finished_run r status result stored"
proof -
  obtain e1 s1 where up: "op_update_run ops (finish_params r status result) s = (e1, s1)"
    by (cases "op_update_run ops (finish_params r status result) s")
  show thesis
  proof (cases e1)
    case (Some e)
    with op up update_failed [OF inv, of "finish_params r status result" e s1] show thesis
      by (intro unrecorded) (auto simp: finish_run_def)
  next
    case None
    with up update_stored [OF inv, of "finish_params r status result" s1] obtain stored where
      st: "inv s1" "lookup s (rn_id r) = Some stored"
        "lookup s1 = (lookup s)(rn_id r \<mapsto> finished_run r status result stored)"
      by (auto simp: finished_run_def)
    obtain g s2 where get: "op_get_run ops (rn_id r) s1 = (g, s2)"
      by (cases "op_get_run ops (rn_id r) s1")
    note keep = get_keeps [OF st(1) get]
    have out: "s' = s2" "\<And>run. res = Inr run \<Longrightarrow> g = Inr run"
      using op up None get by (auto simp: finish_run_def split: sum.splits)
    show thesis
    proof (rule recorded)
      show "inv s'" "lookup s (rn_id r) = Some stored"
        "lookup s' = (lookup s)(rn_id r \<mapsto> finished_run r status result stored)"
        using keep st out(1) by simp_all
      show "run = finished_run r status result stored" if "res = Inr run" for run
        using get_found [OF st(1), of "rn_id r" run s2] get out(2) [OF that] st(3) by simp
    qed
  qed
qed

lemma execute_cases:
  assumes inv: "inv s" and op: "execute ops h ctx r a input request_id s = (res, s')"
  obtains (unrecorded) e where "res = Inl e" "inv s'" "lookup s' = lookup s"
  | (recorded) stored status result kill_err where "inv s'" "lookup s (rn_id r) = Some stored"
      "execution_outcome h ctx r a input request_id = ((status, result), kill_err)"
      "lookup s' = (lookup s)(rn_id r \<mapsto> finished_run r status result stored)"
      "\<And>run. res = Inr run \<Longrightarrow> run = finished_run r status result stored \<and> kill_err = None"
proof -
  obtain status result kill_err where
    out: "execution_outcome h ctx r a input request_id = ((status, result), kill_err)"
    by (metis prod.exhaust)
  obtain res1 s1 where fin: "finish_run ops r status result s = (res1, s1)"
    by (cases "finish_run ops r status result s")
  have eq: "s' = s1" "\<And>e. res1 = Inl e \<Longrightarrow> res = Inl e"
    "\<And>run. res = Inr run \<Longrightarrow> res1 = Inr run \<and> kill_err = None"
    using op out fin by (auto simp: execute_outcome split: sum.splits option.splits)
  from inv fin show thesis
  proof (cases rule: finish_run_cases)
    case (unrecorded e)
    with eq show thesis using that(1) by blast
  next
    case (recorded stored)
    with eq out show thesis using that(2) [of stored status result kill_err] by blast
  qed
qed

text \<open>A run that is answered is terminal; the other runs of the store are untouched.\<close>

lemma execute_frame:
  assumes "inv s" "execute ops h ctx r a input request_id s = (res, s')"
  shows "inv s' \<and> (i \<noteq> rn_id r \<longrightarrow> lookup s' i = lookup s i) \<and> dom (lookup s') = dom (lookup s)"
  using assms by (cases rule: execute_cases) (auto simp: fun_upd_apply)

lemma execute_answer:
  assumes "inv s" "execute ops h ctx r a input request_id s = (Inr run, s')"
  shows "lookup s' (rn_id r) = Some run \<and> terminal_status (rn_status run)
    \<and> (rn_timed_out run \<longleftrightarrow> rn_status run = run_status_timed_out)
    \<and> int (length (rn_stdout_tail run)) \<le> max 0 (ac_max_output_bytes a)
    \<and> int (length (rn_stderr_tail run)) \<le> max 0 (ac_max_output_bytes a)"
  using assms
proof (cases rule: execute_cases)
  case (recorded stored status result kill_err)
  have "outcome_ok a status result" by (rule execution_outcome_ok [OF recorded(3)])
  with recorded(4,5) show ?thesis by (simp add: outcome_ok_def)
qed simp

lemma create_run_cases:
  assumes inv: "inv s" and op: "create_run ops h a status md started s = (res, s')"
  obtains (no_id) e where "generate_run_id (h_random h) = Inl e" "res = Inl (invoke_error (ac_name a)
        [Txt ''generate run id: ''] e)" "s' = s"
  | (failed) i e where "generate_run_id (h_random h) = Inr i" "res = Inl e" "inv s'"
      "\<And>j. j \<noteq> i \<Longrightarrow> lookup s' j = lookup s j"
  | (created) i run where "generate_run_id (h_random h) = Inr i" "res = Inr run" "inv s'"
      "lookup s i = None" "lookup s' = (lookup s)(i \<mapsto> run)" "rn_id run = i"
      "rn_status run = status" "rn_action_name run = ac_name a"
proof (cases "generate_run_id (h_random h)")
  case (Inl e)
  then show thesis using op by (intro no_id) (auto simp: create_run_def)
next
  case (Inr i)
  let ?p = "create_params_of h a status md started i"
  obtain r1 s1 where cr: "op_create_run ops ?p s = (r1, s1)" by (cases "op_create_run ops ?p s")
  have p: "cp_id ?p = i" "cp_status ?p = status" "cp_action_name ?p = ac_name a"
    by (simp_all add: create_params_of_def)
  show thesis
  proof (cases r1)
    case (Inl e)
    with Inr op cr create_failed [OF inv, of ?p e s1] show thesis
      by (intro failed) (auto simp: create_run_def p)
  next
    case (Inr run)
    with \<open>generate_run_id (h_random h) = Inr i\<close> op cr create_stored [OF inv, of ?p run s1]
    show thesis by (intro created) (auto simp: create_run_def p)
  qed
qed

lemma create_run_Inr:
  assumes "inv s" "create_run ops h a status md started s = (Inr r, s')"
  shows "\<exists>k. inv s' \<and> lookup s k = None \<and> lookup s' = (lookup s)(k \<mapsto> r) \<and> rn_id r = k
    \<and> rn_status r = status \<and> rn_action_name r = ac_name a
    \<and> generate_run_id (h_random h) = Inr k"
  using assms by (cases rule: create_run_cases) auto

text \<open>A creation that fails leaves every stored run as it was.\<close>

lemma create_failed_frame:
  assumes inv: "inv s" and op: "create_run ops h a status md started s = (Inl e, s')"
  shows "inv s' \<and> (lookup s i \<noteq> None \<longrightarrow> lookup s' i = lookup s i)"
proof (cases "generate_run_id (h_random h)")
  case (Inl e')
  with assms show ?thesis by (auto simp: create_run_def)
next
  case (Inr k)
  let ?p = "create_params_of h a status md started k"
  have k: "cp_id ?p = k" by (simp add: create_params_of_def)
  obtain r1 s1 where cr: "op_create_run ops ?p s = (r1, s1)" by (cases "op_create_run ops ?p s")
  with Inr op obtain e1 where "r1 = Inl e1" "s1 = s'"
    by (auto simp: create_run_def split: sum.splits)
  with create_failed [OF inv, of ?p e1 s'] cr show ?thesis
    unfolding k by (cases "i = k") auto
qed

text \<open>Recovery: the loop finishes exactly the runs it is given, in order.\<close>

lemma cancel_runs_spec:
  "inv s \<Longrightarrow> \<forall>r \<in> set rs. lookup s (rn_id r) = Some r \<Longrightarrow> distinct (map rn_id rs) \<Longrightarrow>
   cancel_runs ops clock n rs s = (res, s') \<Longrightarrow>
   inv s' \<and> (\<forall>i. i \<notin> rn_id ` set rs \<longrightarrow> lookup s' i = lookup s i)
   \<and> (res = None \<longrightarrow> (\<forall>r \<in> set rs. \<exists>t. lookup s' (rn_id r) =
        Some (finished_run r run_status_cancelled (recovery_result t) r)))"
proof (induction rs arbitrary: n s)
  case Nil
  then show ?case by simp
next
  case (Cons r rs)
  let ?fin = "finished_run r run_status_cancelled (recovery_result (clock n)) r"
  obtain res1 s1 where
    fin: "finish_run ops r run_status_cancelled (recovery_result (clock n)) s = (res1, s1)"
    by (cases "finish_run ops r run_status_cancelled (recovery_result (clock n)) s")
  from Cons.prems(1) fin show ?case
  proof (cases rule: finish_run_cases)
    case (unrecorded e)
    with fin Cons.prems(4) have "res \<noteq> None" "s' = s1" by auto
    with unrecorded show ?thesis by auto
  next
    case (recorded stored)
    then have l1: "lookup s1 = (lookup s)(rn_id r \<mapsto> ?fin)" using Cons.prems(2) by simp
    show ?thesis
    proof (cases res1)
      case (Inl e)
      with fin Cons.prems(4) have "res \<noteq> None" "s' = s1" by auto
      with recorded(1) l1 show ?thesis by auto
    next
      case (Inr run)
      with fin Cons.prems(4) have rest: "cancel_runs ops clock (Suc n) rs s1 = (res, s')" by simp
      have new: "rn_id r \<notin> rn_id ` set rs" using Cons.prems(3) by simp
      have "rn_id q \<noteq> rn_id r" if "q \<in> set rs" for q
        using new that by (metis image_eqI)
      then have "\<forall>q \<in> set rs. lookup s1 (rn_id q) = Some q"
        using Cons.prems(2) by (simp add: l1)
      note IH = Cons.IH [OF recorded(1) this _ rest]
      then have IH': "inv s'" "\<And>i. i \<notin> rn_id ` set rs \<Longrightarrow> lookup s' i = lookup s1 i"
        "res = None \<Longrightarrow> \<forall>q \<in> set rs. \<exists>t. lookup s' (rn_id q) =
          Some (finished_run q run_status_cancelled (recovery_result t) q)"
        using Cons.prems(3) by simp_all
      have "lookup s' (rn_id r) = Some ?fin" using IH'(2) [OF new] by (simp add: l1)
      with IH' show ?thesis by (auto simp: l1)
    qed
  qed
qed

lemma cancel_interrupted_runs_spec:
  assumes inv: "inv s" and op: "cancel_interrupted_runs ops clock s = (res, s')"
  shows "inv s'"
    and "lookup s' i = lookup s i \<or> (\<exists>r. lookup s i = Some r \<and> rn_status r = run_status_running)"
    and "res = None \<Longrightarrow> recovered (lookup s i) (lookup s' i)"
proof -
  let ?f = "\<lparr>ff_action_name = [], ff_status = run_status_running\<rparr>"
  obtain res1 s1 where list: "op_list_runs ops ?f s = (res1, s1)"
    by (cases "op_list_runs ops ?f s")
  note keep = list_keeps [OF inv list]
  have "inv s' \<and> (lookup s' i = lookup s i \<or> (\<exists>r. lookup s i = Some r \<and> rn_status r = run_status_running))
    \<and> (res = None \<longrightarrow> recovered (lookup s i) (lookup s' i))"
  proof (cases res1)
    case (Inl e)
    with op list keep show ?thesis by (auto simp: cancel_interrupted_runs_def)
  next
    case (Inr runs)
    with op list have loop: "cancel_runs ops clock 0 runs s1 = (res, s')"
      by (simp add: cancel_interrupted_runs_def)
    note found = list_found [OF inv, of ?f runs s1] list [unfolded Inr]
    then have set: "set runs = {r. lookup s (rn_id r) = Some r \<and> rn_status r = run_status_running}"
      and d: "distinct (map rn_id runs)"
      by (simp_all add: filter_running)
    have all: "\<forall>r \<in> set runs. lookup s1 (rn_id r) = Some r"
      using keep set by simp
    note spec = cancel_runs_spec [OF conjunct1 [OF keep] all d loop]
    show ?thesis
    proof (cases "\<exists>r. lookup s i = Some r \<and> rn_status r = run_status_running")
      case True
      then obtain r where r: "lookup s i = Some r" "rn_status r = run_status_running" by blast
      then have "r \<in> set runs" "rn_id r = i" using set lookup_id [OF inv, of i r] by auto
      with spec r show ?thesis by (fastforce simp: recovered_def)
    next
      case False
      then have "i \<notin> rn_id ` set runs" using set lookup_id [OF inv] by auto
      then have "lookup s' i = lookup s i" using spec keep by simp
      with False spec show ?thesis by (auto simp: recovered_def split: option.split)
    qed
  qed
  then show "inv s'"
    "lookup s' i = lookup s i \<or> (\<exists>r. lookup s i = Some r \<and> rn_status r = run_status_running)"
    "res = None \<Longrightarrow> recovered (lookup s i) (lookup s' i)"
    by simp_all
qed

end

end
