(* ===== verification/Exec_Machine.thy ===== *)
theory Exec_Machine
  imports Exec_Spec
begin

section \<open>Concurrent invocations\<close>

text \<open>
  Requests are served concurrently and asynchronous invocations run in goroutines. This theory
  has the interleavings as a step relation. A thread is an invocation between two of its
  effects on the shared state: the reject flags (under the mutex) and the store (whose
  operations are transactions). A restart drops the threads and the flags and recovers the store.
\<close>

text \<open>
  Admitted: past the checks of \<open>Invoke\<close>, before \<open>createRun\<close>, with the name whose flag it holds.
  Executing: the run is created and its process runs. Releasing: only the flag is left to clear.
\<close>

datatype thread =
    Admitted "string option" action bytes bytes string
  | Executing job
  | Releasing "string option"

fun holds :: "thread \<Rightarrow> string option" where
  "holds (Admitted f a input md rid) = f"
| "holds (Executing j) = jb_on_finish j"
| "holds (Releasing f) = f"

fun flags :: "thread list \<Rightarrow> string list" where
  "flags [] = []"
| "flags (t # ts) = (case holds t of None \<Rightarrow> flags ts | Some n \<Rightarrow> n # flags ts)"

fun jobs_of :: "thread list \<Rightarrow> job list" where
  "jobs_of [] = []"
| "jobs_of (Executing j # ts) = j # jobs_of ts"
| "jobs_of (t # ts) = jobs_of ts"

definition release_flag :: "string option \<Rightarrow> 's exec_state \<Rightarrow> 's exec_state" where
  "release_flag f x = (case f of None \<Rightarrow> x | Some n \<Rightarrow> finish_reject_action n x)"

type_synonym 's machine = "'s exec_state \<times> thread list"

definition started_job :: "run \<Rightarrow> bytes \<Rightarrow> string \<Rightarrow> string option \<Rightarrow> job" where
  "started_job r input rid f =
     \<lparr>jb_action = action_from_stored_run r, jb_run = r, jb_input = clone_json input,
      jb_request_id = rid, jb_on_finish = f\<rparr>"

inductive exec_step :: "'s run_store_ops \<Rightarrow> action_registry \<Rightarrow> 's machine \<Rightarrow> 's machine \<Rightarrow> bool"
    for ops :: "'s run_store_ops" and reg :: action_registry where
  admit_allow:
    "registry_get reg name = Some a \<Longrightarrow> is_enabled a \<Longrightarrow> ac_concurrency_policy a = ''allow'' \<Longrightarrow>
     exec_step ops reg (x, ts) (x, ts @ [Admitted None a input md rid])"
| admit_reject:
    "registry_get reg name = Some a \<Longrightarrow> is_enabled a \<Longrightarrow> ac_concurrency_policy a = ''reject'' \<Longrightarrow>
     begin_reject_action (ac_name a) x = (True, x') \<Longrightarrow>
     exec_step ops reg (x, ts) (x', ts @ [Admitted (Some (ac_name a)) a input md rid])"
| create:
    "create_run ops h a run_status_running md True (xs_store x) = (Inr r, s') \<Longrightarrow>
     exec_step ops reg (x, us @ Admitted f a input md rid # vs)
       (x\<lparr>xs_store := s'\<rparr>, us @ Executing (started_job r input rid f) # vs)"
| create_failed:
    "create_run ops h a run_status_running md True (xs_store x) = (Inl e, s') \<Longrightarrow>
     exec_step ops reg (x, us @ Admitted f a input md rid # vs)
       (x\<lparr>xs_store := s'\<rparr>, us @ Releasing f # vs)"
| finish:
    "execute ops h ctx (jb_run j) (jb_action j) (jb_input j) (jb_request_id j) (xs_store x)
       = (res, s') \<Longrightarrow>
     exec_step ops reg (x, us @ Executing j # vs)
       (x\<lparr>xs_store := s'\<rparr>, us @ Releasing (jb_on_finish j) # vs)"
| release:
    "exec_step ops reg (x, us @ Releasing f # vs) (release_flag f x, us @ vs)"

text \<open>A crash at any point, followed by a restart whose recovery succeeds.\<close>

inductive machine_step ::
    "'s run_store_ops \<Rightarrow> action_registry \<Rightarrow> 's machine \<Rightarrow> 's machine \<Rightarrow> bool"
    for ops :: "'s run_store_ops" and reg :: action_registry where
  exec: "exec_step ops reg m m' \<Longrightarrow> machine_step ops reg m m'"
| restart:
    "recover (new_service (Some ops) reg) clock (new_exec_state (xs_store x)) = (None, x') \<Longrightarrow>
     machine_step ops reg (x, ts) (x', [])"

inductive_cases exec_stepE: "exec_step ops reg (x, ts) m'"

lemmas release_defs = release_flag_def finish_reject_action_def

subsection \<open>Lists of threads\<close>

lemma flags_append [simp]: "flags (us @ vs) = flags us @ flags vs"
  by (induction us) (auto split: option.split)

lemma held_flags: "t \<in> set ts \<Longrightarrow> holds t = Some n \<Longrightarrow> n \<in> set (flags ts)"
  by (induction ts) (auto split: option.split)

lemma jobs_of_append [simp]: "jobs_of (us @ vs) = jobs_of us @ jobs_of vs"
  by (induction us rule: jobs_of.induct) auto

lemma jobs_of_in: "j \<in> set (jobs_of ts) \<longleftrightarrow> Executing j \<in> set ts"
  by (induction ts rule: jobs_of.induct) auto

lemma release_flag_store [simp]: "xs_store (release_flag f x) = xs_store x"
  by (simp add: release_defs split: option.split)

subsection \<open>The invariant\<close>

text \<open>
  A registry files every action under its own name. A thread holds the flag of its action
  exactly when the action's policy is reject.
\<close>

definition registry_wf :: "action_registry \<Rightarrow> bool" where
  "registry_wf reg \<longleftrightarrow> (\<forall>n a. registry_get reg n = Some a \<longrightarrow> ac_name a = n)"

definition flag_of :: "action \<Rightarrow> string option" where
  "flag_of a = (if ac_concurrency_policy a = ''reject'' then Some (ac_name a) else None)"

fun thread_ok :: "action_registry \<Rightarrow> thread \<Rightarrow> bool" where
  "thread_ok reg (Admitted f a input md rid) \<longleftrightarrow>
     registry_get reg (ac_name a) = Some a \<and> f = flag_of a"
| "thread_ok reg (Executing j) \<longleftrightarrow>
     (case registry_get reg (rn_action_name (jb_run j)) of
        None \<Rightarrow> False | Some a \<Rightarrow> jb_on_finish j = flag_of a)"
| "thread_ok reg (Releasing f) \<longleftrightarrow> True"

definition flags_inv :: "'s machine \<Rightarrow> bool" where
  "flags_inv m \<longleftrightarrow>
     distinct (flags (snd m)) \<and> xs_reject_running (fst m) = set (flags (snd m))"

definition jobs_inv :: "('s \<Rightarrow> string \<Rightarrow> run option) \<Rightarrow> 's machine \<Rightarrow> bool" where
  "jobs_inv lookup m \<longleftrightarrow>
     distinct (map (\<lambda>j. rn_id (jb_run j)) (jobs_of (snd m)))
     \<and> (\<forall>j \<in> set (jobs_of (snd m)). \<exists>r. lookup (xs_store (fst m)) (rn_id (jb_run j)) = Some r
          \<and> rn_status r = run_status_running)"

lemma flags_inv_cong:
  "flags ts' = flags ts \<Longrightarrow> xs_reject_running x' = xs_reject_running x \<Longrightarrow>
     flags_inv (x', ts') = flags_inv (x, ts)"
  by (simp add: flags_inv_def)

lemma started_job_on_finish [simp]: "jb_on_finish (started_job r input rid f) = f"
  by (simp add: started_job_def)

lemma flags_started_job [simp]:
  "flags (Executing (started_job r input rid f) # vs) = flags (Releasing f # vs)"
  "flags (Admitted f a input md rid # vs) = flags (Releasing f # vs)"
  "flags (Executing j # vs) = flags (Releasing (jb_on_finish j) # vs)"
  by (simp_all add: started_job_def)

lemma flags_inv_release:
  assumes "flags_inv (x, us @ Releasing f # vs)"
  shows "flags_inv (release_flag f x, us @ vs)"
proof (cases f)
  case None
  with assms show ?thesis by (simp add: flags_inv_def release_flag_def)
next
  case (Some n)
  with assms have "distinct (flags us @ n # flags vs)"
    "xs_reject_running x = set (flags us @ n # flags vs)"
    by (simp_all add: flags_inv_def)
  then show ?thesis using Some by (auto simp: flags_inv_def release_defs)
qed

lemma flags_inv_admit:
  assumes "flags_inv (x, ts)" "begin_reject_action n x = (True, x')"
  shows "flags_inv (x', ts @ [Admitted (Some n) a input md rid])"
proof -
  have "n \<notin> xs_reject_running x" "xs_reject_running x' = insert n (xs_reject_running x)"
    using assms(2) by (auto simp: begin_reject_action_def split: if_splits)
  with assms(1) show ?thesis by (simp add: flags_inv_def)
qed

lemma thread_ok_created:
  assumes "thread_ok reg (Admitted f a input md rid)" "rn_action_name r = ac_name a"
  shows "thread_ok reg (Executing (started_job r input rid f))"
  using assms by (simp add: started_job_def)

lemma jobs_inv_same:
  assumes "jobs_inv lookup (x, ts)" "jobs_of ts' = jobs_of ts"
    and "\<And>i. lookup (xs_store x) i \<noteq> None \<Longrightarrow> lookup (xs_store x') i = lookup (xs_store x) i"
  shows "jobs_inv lookup (x', ts')"
  unfolding jobs_inv_def fst_conv snd_conv assms(2)
proof (intro conjI ballI)
  show "distinct (map (\<lambda>j. rn_id (jb_run j)) (jobs_of ts))"
    using assms(1) by (simp add: jobs_inv_def)
  fix j
  assume "j \<in> set (jobs_of ts)"
  then obtain r where "lookup (xs_store x) (rn_id (jb_run j)) = Some r" "rn_status r = run_status_running"
    using assms(1) by (auto simp: jobs_inv_def)
  with assms(3) [of "rn_id (jb_run j)"]
  show "\<exists>r. lookup (xs_store x') (rn_id (jb_run j)) = Some r \<and> rn_status r = run_status_running"
    by simp
qed

text \<open>The whole invariant, for a store that keeps its contract.\<close>

definition machine_inv ::
    "('s \<Rightarrow> bool) \<Rightarrow> ('s \<Rightarrow> string \<Rightarrow> run option) \<Rightarrow> action_registry \<Rightarrow> 's machine \<Rightarrow> bool" where
  "machine_inv ok lookup reg m \<longleftrightarrow>
     ok (xs_store (fst m)) \<and> flags_inv m \<and> jobs_inv lookup m
     \<and> (\<forall>t \<in> set (snd m). thread_ok reg t)"

lemma machine_invI:
  "ok (xs_store x) \<Longrightarrow> flags_inv (x, ts) \<Longrightarrow> jobs_inv lookup (x, ts) \<Longrightarrow>
     (\<And>t. t \<in> set ts \<Longrightarrow> thread_ok reg t) \<Longrightarrow> machine_inv ok lookup reg (x, ts)"
  by (simp add: machine_inv_def)

lemma machine_inv_jobs: "machine_inv ok lookup reg m \<Longrightarrow> jobs_inv lookup m"
  by (simp add: machine_inv_def)

lemma machine_inv_flags: "machine_inv ok lookup reg m \<Longrightarrow> flags_inv m"
  by (simp add: machine_inv_def)

text \<open>What a step may do to a run that is stored: it may finish it if it is running.\<close>

definition run_progress :: "run option \<Rightarrow> run option \<Rightarrow> bool" where
  "run_progress before after \<longleftrightarrow>
     (case before of
        None \<Rightarrow> True
      | Some r \<Rightarrow>
          (case after of
             None \<Rightarrow> False
           | Some r' \<Rightarrow> r' = r
               \<or> rn_status r = run_status_running \<and> terminal_status (rn_status r')
                 \<and> rn_snapshot r' = rn_snapshot r \<and> rn_action_name r' = rn_action_name r
                 \<and> rn_created_at r' = rn_created_at r))"

lemma run_progress_refl [simp]: "run_progress r r"
  by (simp add: run_progress_def split: option.split)

lemma run_progress_trans:
  "run_progress a b \<Longrightarrow> run_progress b c \<Longrightarrow> run_progress a c"
  using terminal_not_running
  by (auto simp: run_progress_def split: option.splits)

lemma run_progress_finished:
  "rn_status r = run_status_running \<Longrightarrow> terminal_status st \<Longrightarrow>
     run_progress (Some r) (Some (finished_run q st result r))"
  by (simp add: run_progress_def)

context run_store
begin

lemma create_step:
  assumes m: "machine_inv inv lookup reg (x, us @ Admitted f a input md rid # vs)"
    and op: "create_run ops h a run_status_running md True (xs_store x) = (Inr r, s')"
  shows "machine_inv inv lookup reg
      (x\<lparr>xs_store := s'\<rparr>, us @ Executing (started_job r input rid f) # vs)"
    and "run_progress (lookup (xs_store x) i) (lookup s' i)"
proof -
  have inv: "inv (xs_store x)" using m by (simp add: machine_inv_def)
  obtain k where k: "inv s'" "lookup (xs_store x) k = None" "lookup s' = (lookup (xs_store x))(k \<mapsto> r)"
      "rn_id r = k" "rn_status r = run_status_running" "rn_action_name r = ac_name a"
    using create_run_Inr [OF inv op] by blast
  let ?ids = "(\<lambda>j. rn_id (jb_run j)) ` (set (jobs_of us) \<union> set (jobs_of vs))"
  have run: "\<exists>r. lookup (xs_store x) (rn_id (jb_run j)) = Some r \<and> rn_status r = run_status_running"
    if "j \<in> set (jobs_of us) \<union> set (jobs_of vs)" for j
    using machine_inv_jobs [OF m] that by (auto simp: jobs_inv_def)
  have new: "k \<notin> ?ids"
  proof
    assume "k \<in> ?ids"
    then obtain j where "k = rn_id (jb_run j)" "j \<in> set (jobs_of us) \<union> set (jobs_of vs)" by blast
    with run [of j] k(2) show False by simp
  qed
  show "machine_inv inv lookup reg
      (x\<lparr>xs_store := s'\<rparr>, us @ Executing (started_job r input rid f) # vs)"
  proof (rule machine_invI)
    show "flags_inv (x\<lparr>xs_store := s'\<rparr>, us @ Executing (started_job r input rid f) # vs)"
      using machine_inv_flags [OF m] by (simp add: flags_inv_def del: flags.simps)
    show "jobs_inv lookup (x\<lparr>xs_store := s'\<rparr>, us @ Executing (started_job r input rid f) # vs)"
      using machine_inv_jobs [OF m] new run k(4,5)
      by (auto simp: jobs_inv_def started_job_def k(3) image_Un)
    show "thread_ok reg t" if "t \<in> set (us @ Executing (started_job r input rid f) # vs)" for t
      using that m thread_ok_created [of reg f a input md rid r] k(6)
      by (auto simp: machine_inv_def)
  qed (use k(1) in simp)
  show "run_progress (lookup (xs_store x) i) (lookup s' i)"
    using k(2,3) by (simp add: run_progress_def split: option.split)
qed

lemma create_failed_step:
  assumes m: "machine_inv inv lookup reg (x, us @ Admitted f a input md rid # vs)"
    and op: "create_run ops h a run_status_running md True (xs_store x) = (Inl e, s')"
  shows "machine_inv inv lookup reg (x\<lparr>xs_store := s'\<rparr>, us @ Releasing f # vs)"
    and "run_progress (lookup (xs_store x) i) (lookup s' i)"
proof -
  have inv: "inv (xs_store x)" using m by (simp add: machine_inv_def)
  have frame: "inv s' \<and> (lookup (xs_store x) i \<noteq> None \<longrightarrow> lookup s' i = lookup (xs_store x) i)" for i
    using create_failed_frame [OF inv op] .
  show "machine_inv inv lookup reg (x\<lparr>xs_store := s'\<rparr>, us @ Releasing f # vs)"
  proof (rule machine_invI)
    show "flags_inv (x\<lparr>xs_store := s'\<rparr>, us @ Releasing f # vs)"
      using machine_inv_flags [OF m] by (simp add: flags_inv_def del: flags.simps)
    show "jobs_inv lookup (x\<lparr>xs_store := s'\<rparr>, us @ Releasing f # vs)"
      by (rule jobs_inv_same [OF machine_inv_jobs [OF m]]) (use frame in simp_all)
    show "thread_ok reg t" if "t \<in> set (us @ Releasing f # vs)" for t
      using that m by (auto simp: machine_inv_def)
  qed (use frame in simp)
  show "run_progress (lookup (xs_store x) i) (lookup s' i)"
    using frame [of i] by (auto simp: run_progress_def split: option.split)
qed

lemma finish_step:
  assumes m: "machine_inv inv lookup reg (x, us @ Executing j # vs)"
    and op: "execute ops h ctx (jb_run j) (jb_action j) (jb_input j) (jb_request_id j) (xs_store x)
      = (res, s')"
  shows "machine_inv inv lookup reg (x\<lparr>xs_store := s'\<rparr>, us @ Releasing (jb_on_finish j) # vs)"
    and "run_progress (lookup (xs_store x) i) (lookup s' i)"
proof -
  let ?k = "rn_id (jb_run j)"
  have inv: "inv (xs_store x)" using m by (simp add: machine_inv_def)
  obtain r where r: "lookup (xs_store x) ?k = Some r" "rn_status r = run_status_running"
    using m by (auto simp: machine_inv_def jobs_inv_def)
  have frame: "inv s'" "\<And>i. i \<noteq> ?k \<Longrightarrow> lookup s' i = lookup (xs_store x) i"
    using execute_frame [OF inv op] by simp_all
  have other: "rn_id (jb_run q) \<noteq> ?k" if "q \<in> set (jobs_of us) \<union> set (jobs_of vs)" for q
    using m that by (auto simp: machine_inv_def jobs_inv_def image_iff)
  show "machine_inv inv lookup reg (x\<lparr>xs_store := s'\<rparr>, us @ Releasing (jb_on_finish j) # vs)"
  proof (rule machine_invI)
    show "flags_inv (x\<lparr>xs_store := s'\<rparr>, us @ Releasing (jb_on_finish j) # vs)"
      using machine_inv_flags [OF m] by (simp add: flags_inv_def del: flags.simps)
    show "jobs_inv lookup (x\<lparr>xs_store := s'\<rparr>, us @ Releasing (jb_on_finish j) # vs)"
      using m frame(2) other by (auto simp: machine_inv_def jobs_inv_def)
    show "thread_ok reg t" if "t \<in> set (us @ Releasing (jb_on_finish j) # vs)" for t
      using that m by (auto simp: machine_inv_def)
  qed (use frame(1) in simp)
  show "run_progress (lookup (xs_store x) i) (lookup s' i)"
  proof (cases "i = ?k")
    case False
    then show ?thesis using frame(2) by simp
  next
    case True
    from inv op show ?thesis
    proof (cases rule: execute_cases)
      case (unrecorded e)
      then show ?thesis by simp
    next
      case (recorded stored status result kill_err)
      have "terminal_status status"
        using execution_outcome_ok [OF recorded(3)] by (simp add: outcome_ok_def)
      then show ?thesis
        using r True recorded(2,4) run_progress_finished [of r status "jb_run j" result] by simp
    qed
  qed
qed

lemma exec_step_invariant:
  assumes "exec_step ops reg m m'" "machine_inv inv lookup reg m" "registry_wf reg"
  shows "machine_inv inv lookup reg m'
    \<and> run_progress (lookup (xs_store (fst m)) i) (lookup (xs_store (fst m')) i)"
  using assms
proof (induction rule: exec_step.induct)
  case (admit_allow name a x ts input md rid)
  then show ?case
    by (auto simp: machine_inv_def flags_inv_def jobs_inv_def registry_wf_def flag_of_def)
next
  case (admit_reject name a x x' ts input md rid)
  have s: "xs_store x' = xs_store x"
    using admit_reject.hyps(4) by (auto simp: begin_reject_action_def split: if_splits)
  have "flags_inv (x', ts @ [Admitted (Some (ac_name a)) a input md rid])"
    using flags_inv_admit [OF machine_inv_flags [OF admit_reject.prems(1)] admit_reject.hyps(4)] .
  moreover have "jobs_inv lookup (x', ts @ [Admitted (Some (ac_name a)) a input md rid])"
    using admit_reject.prems(1) by (simp add: machine_inv_def jobs_inv_def s)
  moreover have "thread_ok reg (Admitted (Some (ac_name a)) a input md rid)"
    using admit_reject by (auto simp: registry_wf_def flag_of_def)
  ultimately show ?case
    using admit_reject.prems(1) by (auto simp: machine_inv_def s)
next
  case (create h a md x r s' us f input rid vs)
  then show ?case using create_step [OF create.prems(1) create.hyps] by simp
next
  case (create_failed h a md x e s' us f input rid vs)
  then show ?case using create_failed_step [OF create_failed.prems(1) create_failed.hyps] by simp
next
  case (finish h j x res s' us vs)
  then show ?case using finish_step [OF finish.prems(1) finish.hyps] by simp
next
  case (release x us f vs)
  then have "flags_inv (release_flag f x, us @ vs)"
    by (intro flags_inv_release) (rule machine_inv_flags)
  with release show ?case by (auto simp: machine_inv_def jobs_inv_def)
qed

lemma restart_invariant:
  assumes inv: "inv (xs_store x)"
    and op: "recover (new_service (Some ops) reg) clock (new_exec_state (xs_store x)) = (None, x')"
  shows "machine_inv inv lookup reg (x', [])"
    and "recovered (lookup (xs_store x) i) (lookup (xs_store x') i)"
proof -
  have c: "cancel_interrupted_runs ops clock (xs_store x) = (None, xs_store x')"
    and f: "xs_reject_running x' = {}"
    using op by (auto simp: recover_def new_service_def new_exec_state_def split: prod.splits)
  note spec = cancel_interrupted_runs_spec [OF inv c]
  show "machine_inv inv lookup reg (x', [])"
    by (rule machine_invI) (simp_all add: spec(1) flags_inv_def jobs_inv_def f)
  show "recovered (lookup (xs_store x) i) (lookup (xs_store x') i)" by (rule spec(3) [OF refl])
qed

lemma recovered_progress: "recovered a b \<Longrightarrow> run_progress a b"
  by (auto simp: recovered_def run_progress_def terminal_status_def split: option.splits if_splits)

lemma machine_step_invariant:
  assumes "machine_step ops reg m m'" "machine_inv inv lookup reg m" "registry_wf reg"
  shows "machine_inv inv lookup reg m'
    \<and> run_progress (lookup (xs_store (fst m)) i) (lookup (xs_store (fst m')) i)"
  using assms
proof (induction rule: machine_step.induct)
  case (exec m m')
  then show ?case by (rule exec_step_invariant)
next
  case (restart clock x x' ts)
  have "inv (xs_store x)" using restart.prems(1) by (simp add: machine_inv_def)
  then show ?case using restart_invariant restart.hyps recovered_progress by fastforce
qed

lemma machine_reachable:
  assumes "(machine_step ops reg)\<^sup>*\<^sup>* m m'" "machine_inv inv lookup reg m" "registry_wf reg"
  shows "machine_inv inv lookup reg m'
    \<and> run_progress (lookup (xs_store (fst m)) i) (lookup (xs_store (fst m')) i)"
  using assms
proof (induction rule: rtranclp_induct)
  case base
  then show ?case by simp
next
  case (step y z)
  then have y: "machine_inv inv lookup reg y"
    and p: "run_progress (lookup (xs_store (fst m)) i) (lookup (xs_store (fst y)) i)"
    by simp_all
  note z = machine_step_invariant [OF step.hyps(2) y step.prems(2), of i]
  then show ?case using run_progress_trans [OF p] by blast
qed

end


subsection \<open>At most one job of a reject action\<close>

lemma jobs_count_flags:
  assumes "\<forall>t \<in> set ts. thread_ok reg t" "registry_get reg n = Some a" "flag_of a = Some n"
  shows "length (filter (\<lambda>j. rn_action_name (jb_run j) = n) (jobs_of ts)) \<le> count_list (flags ts) n"
  using assms(1)
proof (induction ts)
  case Nil
  then show ?case by simp
next
  case (Cons t ts)
  then have IH: "length (filter (\<lambda>j. rn_action_name (jb_run j) = n) (jobs_of ts))
      \<le> count_list (flags ts) n" by simp
  show ?case
  proof (cases t)
    case (Executing j)
    with Cons.prems assms(2,3) have "rn_action_name (jb_run j) = n \<Longrightarrow> jb_on_finish j = Some n"
      by auto
    with IH Executing show ?thesis by (auto split: option.split)
  qed (use IH in \<open>auto split: option.split\<close>)
qed

lemma count_list_distinct: "distinct xs \<Longrightarrow> count_list xs x \<le> 1"
  by (induction xs) auto

lemma reject_exclusive:
  assumes "machine_inv ok lookup reg (x, ts)" "registry_wf reg"
    and "registry_get reg n = Some a" "ac_concurrency_policy a = ''reject''"
  shows "length (filter (\<lambda>j. rn_action_name (jb_run j) = n) (jobs_of ts)) \<le> 1"
proof -
  have "flag_of a = Some n" using assms(2-4) by (simp add: flag_of_def registry_wf_def)
  then have "length (filter (\<lambda>j. rn_action_name (jb_run j) = n) (jobs_of ts)) \<le> count_list (flags ts) n"
    using assms(1,3) by (intro jobs_count_flags) (simp_all add: machine_inv_def)
  also have "count_list (flags ts) n \<le> 1"
    using machine_inv_flags [OF assms(1)] by (intro count_list_distinct) (simp add: flags_inv_def)
  finally show ?thesis .
qed

subsection \<open>Every invocation can finish, and no flag is left behind\<close>

lemma flags_inv_step:
  assumes "exec_step ops reg m m'" "flags_inv m"
  shows "flags_inv m'"
  using assms
proof (induction rule: exec_step.induct)
  case (admit_allow name a x ts input md rid)
  then show ?case by (simp add: flags_inv_def)
next
  case (admit_reject name a x x' ts input md rid)
  then show ?case by (intro flags_inv_admit)
next
  case (release x us f vs)
  then show ?case by (intro flags_inv_release)
qed (simp_all add: flags_inv_def del: flags.simps)

lemma flags_inv_steps: "(exec_step ops reg)\<^sup>*\<^sup>* m m' \<Longrightarrow> flags_inv m \<Longrightarrow> flags_inv m'"
  by (induction rule: rtranclp_induct) (auto intro: flags_inv_step)

lemma releasing_drains: "(exec_step ops reg)\<^sup>*\<^sup>* (x, Releasing f # ts) (release_flag f x, ts)"
  using release [of ops reg x "[]" f ts] by (simp add: r_into_rtranclp)

lemma executing_drains: "\<exists>x'. (exec_step ops reg)\<^sup>*\<^sup>* (x, Executing j # ts) (x', ts)"
proof -
  obtain res s' where "execute ops undefined Background (jb_run j) (jb_action j) (jb_input j) (jb_request_id j)
      (xs_store x) = (res, s')"
    by (cases "execute ops undefined Background (jb_run j) (jb_action j) (jb_input j) (jb_request_id j)
      (xs_store x)")
  then have "exec_step ops reg (x, [] @ Executing j # ts)
      (x\<lparr>xs_store := s'\<rparr>, [] @ Releasing (jb_on_finish j) # ts)" by (rule finish)
  then have "exec_step ops reg (x, Executing j # ts)
      (x\<lparr>xs_store := s'\<rparr>, Releasing (jb_on_finish j) # ts)" by simp
  from converse_rtranclp_into_rtranclp [OF this releasing_drains] show ?thesis by blast
qed

lemma thread_drains: "\<exists>x'. (exec_step ops reg)\<^sup>*\<^sup>* (x, t # ts) (x', ts)"
proof (cases t)
  case (Admitted f a input md rid)
  obtain res s' where cr: "create_run ops undefined a run_status_running md True (xs_store x) = (res, s')"
    by (cases "create_run ops undefined a run_status_running md True (xs_store x)")
  show ?thesis
  proof (cases res)
    case (Inl e)
    have "exec_step ops reg (x, [] @ t # ts) (x\<lparr>xs_store := s'\<rparr>, [] @ Releasing f # ts)"
      unfolding Admitted using cr Inl by (intro create_failed) simp
    then have "exec_step ops reg (x, t # ts) (x\<lparr>xs_store := s'\<rparr>, Releasing f # ts)" by simp
    from converse_rtranclp_into_rtranclp [OF this releasing_drains] show ?thesis by blast
  next
    case (Inr r)
    have "exec_step ops reg (x, [] @ t # ts)
        (x\<lparr>xs_store := s'\<rparr>, [] @ Executing (started_job r input rid f) # ts)"
      unfolding Admitted using cr Inr by (intro create) simp
    then have first: "exec_step ops reg (x, t # ts)
        (x\<lparr>xs_store := s'\<rparr>, Executing (started_job r input rid f) # ts)" by simp
    obtain x' where "(exec_step ops reg)\<^sup>*\<^sup>*
        (x\<lparr>xs_store := s'\<rparr>, Executing (started_job r input rid f) # ts) (x', ts)"
      using executing_drains by blast
    from converse_rtranclp_into_rtranclp [OF first this] show ?thesis by blast
  qed
qed (use executing_drains releasing_drains in blast)+

lemma machine_drains: "\<exists>x'. (exec_step ops reg)\<^sup>*\<^sup>* (x, ts) (x', [])"
proof (induction ts arbitrary: x)
  case Nil
  then show ?case by blast
next
  case (Cons t ts)
  obtain x1 where "(exec_step ops reg)\<^sup>*\<^sup>* (x, t # ts) (x1, ts)" using thread_drains by blast
  moreover obtain x2 where "(exec_step ops reg)\<^sup>*\<^sup>* (x1, ts) (x2, [])" using Cons by blast
  ultimately show ?case by (meson rtranclp_trans)
qed

subsection \<open>The operations are sequences of steps\<close>

lemma clone_json_id [simp]: "clone_json x = x"
  by (simp add: clone_json_def)

definition shared_state :: "'s exec_state \<Rightarrow> 's exec_state" where
  "shared_state x = x\<lparr>xs_jobs := []\<rparr>"

definition machine_of :: "thread list \<Rightarrow> 's exec_state \<Rightarrow> 's machine" where
  "machine_of ts x = (shared_state x, ts @ map Executing (xs_jobs x))"


lemma created_steps:
  assumes "create_run ops h a run_status_running md True (xs_store x) = (Inr r, s')"
  shows "(exec_step ops reg)\<^sup>*\<^sup>* (x, ts @ [Admitted f a input md rid])
    (x\<lparr>xs_store := s'\<rparr>, ts @ [Executing (started_job r input rid f)])"
  using create [of ops h a md x r s' reg ts f input rid "[]"] assms by (simp add: r_into_rtranclp)

lemma failed_steps:
  assumes "create_run ops h a run_status_running md True (xs_store x) = (Inl e, s')"
  shows "(exec_step ops reg)\<^sup>*\<^sup>* (x, ts @ [Admitted f a input md rid])
    (release_flag f (x\<lparr>xs_store := s'\<rparr>), ts)"
proof -
  have "exec_step ops reg (x, ts @ [Admitted f a input md rid])
      (x\<lparr>xs_store := s'\<rparr>, ts @ [Releasing f])"
    using create_failed [of ops h a md x e s' reg ts f input rid "[]"] assms by simp
  moreover have "exec_step ops reg (x\<lparr>xs_store := s'\<rparr>, ts @ [Releasing f])
      (release_flag f (x\<lparr>xs_store := s'\<rparr>), ts)"
    using release [of ops reg _ ts f "[]"] by simp
  ultimately show ?thesis by (meson rtranclp.rtrancl_into_rtrancl rtranclp.rtrancl_refl)
qed

lemma job_steps:
  assumes "execute ops h ctx (jb_run j) (jb_action j) (jb_input j) (jb_request_id j) (xs_store x)
      = (res, s')"
  shows "(exec_step ops reg)\<^sup>*\<^sup>* (x, us @ Executing j # vs)
    (release_flag (jb_on_finish j) (x\<lparr>xs_store := s'\<rparr>), us @ vs)"
proof -
  have "exec_step ops reg (x, us @ Executing j # vs)
      (x\<lparr>xs_store := s'\<rparr>, us @ Releasing (jb_on_finish j) # vs)"
    using finish [OF assms] .
  moreover have "exec_step ops reg (x\<lparr>xs_store := s'\<rparr>, us @ Releasing (jb_on_finish j) # vs)
      (release_flag (jb_on_finish j) (x\<lparr>xs_store := s'\<rparr>), us @ vs)"
    by (rule release)
  ultimately show ?thesis by (meson rtranclp.rtrancl_into_rtrancl rtranclp.rtrancl_refl)
qed

text \<open>From the admission on, both policies go through the same steps.\<close>

lemma admitted_steps:
  assumes "case create_run ops h a run_status_running md True (xs_store y) of
      (Inl e, s') \<Rightarrow> (res = Inl e \<and> z = (release_flag f (y\<lparr>xs_store := s'\<rparr>), ts))
    | (Inr r, s') \<Rightarrow>
        if mode = invoke_mode_async
        then z = (y\<lparr>xs_store := s'\<rparr>, ts @ [Executing (started_job r input rid f)])
        else z = (release_flag f (y\<lparr>xs_store :=
               snd (execute ops h Request_Context r (action_from_stored_run r) input rid s')\<rparr>), ts)"
  shows "(exec_step ops reg)\<^sup>*\<^sup>* (y, ts @ [Admitted f a input md rid]) z"
proof -
  obtain c s' where cr: "create_run ops h a run_status_running md True (xs_store y) = (c, s')"
    by (cases "create_run ops h a run_status_running md True (xs_store y)")
  show ?thesis
  proof (cases c)
    case (Inl e)
    with assms cr failed_steps [of ops h a md y e s' reg ts f input rid] show ?thesis by simp
  next
    case (Inr r)
    note cs = created_steps [OF cr [unfolded Inr], of reg ts f input rid]
    show ?thesis
    proof (cases "mode = invoke_mode_async")
      case True
      with assms cr Inr cs show ?thesis by simp
    next
      case False
      let ?j = "started_job r input rid f"
      have "execute ops h Request_Context (jb_run ?j) (jb_action ?j) (jb_input ?j) (jb_request_id ?j)
          (xs_store (y\<lparr>xs_store := s'\<rparr>))
          = (fst (execute ops h Request_Context r (action_from_stored_run r) input rid s'),
             snd (execute ops h Request_Context r (action_from_stored_run r) input rid s'))"
        by (simp add: started_job_def)
      note js = job_steps [OF this, of reg ts "[]"]
      have "z = (release_flag (jb_on_finish ?j) (y\<lparr>xs_store := s'\<rparr>\<lparr>xs_store :=
          snd (execute ops h Request_Context r (action_from_stored_run r) input rid s')\<rparr>), ts @ [])"
        using assms cr Inr False by simp
      with cs js show ?thesis by (metis rtranclp_trans)
    qed
  qed
qed

lemma shared_state_simps [simp]:
  "xs_store (shared_state x) = xs_store x"
  "xs_reject_running (shared_state x) = xs_reject_running x"
  "xs_jobs (shared_state x) = []"
  by (simp_all add: shared_state_def)

lemma invoke_allow_steps:
  assumes "invoke_allow ops h a mode input md rid x = (res, x')"
    and "registry_get reg name = Some a" "is_enabled a" "ac_concurrency_policy a = ''allow''"
  shows "(exec_step ops reg)\<^sup>*\<^sup>* (machine_of ts x) (machine_of ts x')"
proof -
  let ?ts = "ts @ map Executing (xs_jobs x)"
  have "exec_step ops reg (shared_state x, ?ts) (shared_state x, ?ts @ [Admitted None a input md rid])"
    using assms(2-4) by (rule admit_allow)
  moreover have "(exec_step ops reg)\<^sup>*\<^sup>* (shared_state x, ?ts @ [Admitted None a input md rid])
      (machine_of ts x')"
    using assms(1)
    by (intro admitted_steps [where h = h and mode = mode and res = res])
      (auto simp: invoke_allow_def machine_of_def shared_state_def start_async_invocation_def
        started_job_def release_flag_def split: prod.splits sum.splits)
  ultimately show ?thesis
    unfolding machine_of_def [of ts x] by (rule converse_rtranclp_into_rtranclp)
qed

lemma invoke_reject_steps:
  assumes "invoke_reject ops h a mode input md rid x = (res, x')"
    and "registry_get reg name = Some a" "is_enabled a" "ac_concurrency_policy a = ''reject''"
  shows "(exec_step ops reg)\<^sup>*\<^sup>* (machine_of ts x) (machine_of ts x')"
proof (cases "ac_name a \<in> xs_reject_running x")
  case True
  with assms(1) have "x' = x" by (simp add: invoke_reject_def begin_reject_action_def)
  then show ?thesis by simp
next
  case False
  let ?ts = "ts @ map Executing (xs_jobs x)"
  let ?y = "(shared_state x)\<lparr>xs_reject_running := insert (ac_name a) (xs_reject_running x)\<rparr>"
  have "begin_reject_action (ac_name a) (shared_state x) = (True, ?y)"
    using False by (simp add: begin_reject_action_def)
  with assms(2-4) have "exec_step ops reg (shared_state x, ?ts)
      (?y, ?ts @ [Admitted (Some (ac_name a)) a input md rid])" by (rule admit_reject)
  moreover have "(exec_step ops reg)\<^sup>*\<^sup>* (?y, ?ts @ [Admitted (Some (ac_name a)) a input md rid])
      (machine_of ts x')"
    using assms(1) False
    by (intro admitted_steps [where h = h and mode = mode and res = res])
      (auto simp: invoke_reject_def machine_of_def shared_state_def start_async_invocation_def
        started_job_def release_defs begin_reject_action_def split: prod.splits sum.splits)
  ultimately show ?thesis
    unfolding machine_of_def [of ts x] by (rule converse_rtranclp_into_rtranclp)
qed

lemma invoke_steps:
  assumes "invoke v h p x = (res, x')" "se_store v = Some ops"
  shows "(exec_step ops (se_registry v))\<^sup>*\<^sup>* (machine_of ts x) (machine_of ts x')"
proof -
  consider "x' = x"
    | (allow) a name mode where "registry_get (se_registry v) name = Some a" "is_enabled a"
        "ac_concurrency_policy a = ''allow''"
        "invoke_allow ops h a mode (clone_json (iv_input p)) (clone_json (iv_request_metadata p))
          (iv_request_id p) x = (res, x')"
    | (reject) a name mode where "registry_get (se_registry v) name = Some a" "is_enabled a"
        "ac_concurrency_policy a = ''reject''"
        "invoke_reject ops h a mode (clone_json (iv_input p)) (clone_json (iv_request_metadata p))
          (iv_request_id p) x = (res, x')"
    using assms
    by (auto simp: invoke_defs Let_def simp del: clone_json_id
        split: if_splits option.splits sum.splits)
  then show ?thesis
  proof cases
    case 1
    then show ?thesis by simp
  next
    case allow
    then show ?thesis by (intro invoke_allow_steps)
  next
    case reject
    then show ?thesis by (intro invoke_reject_steps)
  qed
qed

lemma run_job_steps:
  assumes "xs_jobs x = us @ j # vs"
  shows "(exec_step ops reg)\<^sup>*\<^sup>* (machine_of ts x) (machine_of ts (run_job ops h j (x\<lparr>xs_jobs := us @ vs\<rparr>)))"
proof -
  obtain res s' where ex: "execute ops h Background (jb_run j) (jb_action j) (jb_input j) (jb_request_id j)
      (xs_store (shared_state x)) = (res, s')"
    by (cases "execute ops h Background (jb_run j) (jb_action j) (jb_input j) (jb_request_id j)
      (xs_store (shared_state x))")
  have "machine_of ts (run_job ops h j (x\<lparr>xs_jobs := us @ vs\<rparr>))
      = (release_flag (jb_on_finish j) ((shared_state x)\<lparr>xs_store := s'\<rparr>),
         (ts @ map Executing us) @ map Executing vs)"
    using ex by (simp add: run_job_def machine_of_def release_defs shared_state_def Let_def
        split: option.split)
  with job_steps [OF ex, of reg "ts @ map Executing us" "map Executing vs"] assms
  show ?thesis by (simp add: machine_of_def)
qed

end
