(* ===== verification/Http_Spec.thy ===== *)
theory Http_Spec
  imports Http_Api Exec_Machine
begin

section \<open>What the API relies on\<close>

text \<open>
  The two interfaces of the HTTP server as locales: \<open>actionInvoker\<close> is \<open>action_api\<close>,
  \<open>runReader\<close> is \<open>run_reader\<close>, and \<open>run_api\<close> joins them over one state. The execution service and
  the SQLite store are their interpretation.
\<close>

text \<open>
  What one invocation of an action does to the stored runs: those that are there stay as they
  are, and the run that is answered is a new run of the action.
\<close>

definition invocation_effect ::
    "('s \<Rightarrow> string \<Rightarrow> run option) \<Rightarrow> ('s \<Rightarrow> bool) \<Rightarrow> string \<Rightarrow> bool \<Rightarrow> 's \<Rightarrow> go_error + run \<Rightarrow> 's \<Rightarrow> bool"
where
  "invocation_effect lookup ok name async s res s' \<longleftrightarrow>
     ok s' \<and> (\<forall>i q. lookup s i = Some q \<longrightarrow> lookup s' i = Some q)
     \<and> (\<forall>r. res = Inr r \<longrightarrow> lookup s (rn_id r) = None \<and> lookup s' (rn_id r) = Some r
          \<and> rn_action_name r = name
          \<and> (if async then rn_status r = run_status_running else terminal_status (rn_status r)))"

lemma invocation_effect_refl: "ok s \<Longrightarrow> invocation_effect lookup ok name async s (Inl e) s"
  by (simp add: invocation_effect_def)

context run_store
begin

lemma create_failed_effect:
  assumes "inv s" "create_run ops h a run_status_running md True s = (Inl e, s')"
  shows "invocation_effect lookup inv name async s (Inl e) s'"
  using create_failed_frame [OF assms] by (simp add: invocation_effect_def)

lemma created_effect:
  assumes "inv s" "create_run ops h a run_status_running md True s = (Inr r, s')"
  shows "invocation_effect lookup inv (ac_name a) True s (Inr r) s'"
  using create_run_Inr [OF assms] by (auto simp: invocation_effect_def)

lemma executed_effect:
  assumes inv: "inv s" and cr: "create_run ops h a run_status_running md True s = (Inr r, s1)"
    and ex: "execute ops h ctx r b input rid s1 = (res, s2)"
  shows "invocation_effect lookup inv (ac_name a) False s res s2"
proof -
  have new: "inv s1" "lookup s (rn_id r) = None" "lookup s1 = (lookup s)(rn_id r \<mapsto> r)"
    "rn_action_name r = ac_name a"
    using create_run_Inr [OF inv cr] by auto
  from new(1) ex show ?thesis
  proof (cases rule: execute_cases)
    case (unrecorded e)
    with new(2,3) show ?thesis by (simp add: invocation_effect_def)
  next
    case (recorded stored status result kill_err)
    let ?run = "finished_run r status result r"
    have "stored = r" using recorded(2) new(3) by simp
    then have l: "lookup s2 = (lookup s)(rn_id r \<mapsto> ?run)"
      and res: "\<And>q. res = Inr q \<Longrightarrow> q = ?run"
      using recorded(4,5) new(3) by simp_all
    have "terminal_status (rn_status ?run)" "rn_action_name ?run = ac_name a" "rn_id ?run = rn_id r"
      using execution_outcome_ok [OF recorded(3)] new(4) by (simp_all add: outcome_ok_def)
    then show ?thesis
      unfolding invocation_effect_def using recorded(1) l res new(2)
      by (simp only: fun_upd_apply) (metis option.distinct(1))
  qed
qed

lemma invoke_allow_effect:
  assumes "inv (xs_store x)" "invoke_allow ops h a mode input md rid x = (res, x')"
  shows "invocation_effect lookup inv (ac_name a) (mode = invoke_mode_async)
     (xs_store x) res (xs_store x')"
proof -
  obtain c s1 where cr: "create_run ops h a run_status_running md True (xs_store x) = (c, s1)"
    by fastforce
  show ?thesis
  proof (cases c)
    case (Inl e)
    with create_failed_effect [OF assms(1)] assms(2) cr show ?thesis
      by (auto simp: invoke_allow_def)
  next
    case (Inr r)
    note cr' = cr [unfolded Inr]
    from created_effect [OF assms(1) cr'] executed_effect [OF assms(1) cr'] assms(2) cr'
    show ?thesis
      by (auto simp: invoke_allow_def start_async_invocation_def Let_def split: prod.splits if_splits)
  qed
qed

lemma invoke_reject_effect:
  assumes "inv (xs_store x)" "invoke_reject ops h a mode input md rid x = (res, x')"
  shows "invocation_effect lookup inv (ac_name a) (mode = invoke_mode_async)
     (xs_store x) res (xs_store x')"
proof (cases "ac_name a \<in> xs_reject_running x")
  case True
  with assms show ?thesis
    by (auto simp: invoke_reject_def begin_reject_action_def intro: invocation_effect_refl)
next
  case False
  obtain c s1 where cr: "create_run ops h a run_status_running md True (xs_store x) = (c, s1)"
    by fastforce
  show ?thesis
  proof (cases c)
    case (Inl e)
    with create_failed_effect [OF assms(1)] assms(2) False cr show ?thesis
      by (auto simp: invoke_reject_def begin_reject_action_def finish_reject_action_def)
  next
    case (Inr r)
    note cr' = cr [unfolded Inr]
    from created_effect [OF assms(1) cr'] executed_effect [OF assms(1) cr'] assms(2) False cr'
    show ?thesis
      by (auto simp: invoke_reject_def begin_reject_action_def finish_reject_action_def
          start_async_invocation_def Let_def split: prod.splits if_splits)
  qed
qed

lemma invoke_effect:
  assumes inv: "inv (xs_store x)" and op: "invoke v h p x = (res, x')"
    and v: "se_store v = Some ops" and reg: "registry_wf (se_registry v)"
  shows "invocation_effect lookup inv (trim_space (iv_action_name p))
     (trim_space (iv_mode p) = invoke_mode_async) (xs_store x) res (xs_store x')"
proof -
  let ?name = "trim_space (iv_action_name p)"
  have mode: "m = invoke_mode_async \<longleftrightarrow> trim_space (iv_mode p) = invoke_mode_async"
    if "normalize_invoke_mode (iv_mode p) = Inr m" for m
    using that by (auto simp: normalize_invoke_mode_def Let_def invoke_mode_sync_def
        invoke_mode_async_def split: if_splits)
  consider e where "res = Inl e" "x' = x"
    | (allow) a m where "registry_get (se_registry v) ?name = Some a"
        "normalize_invoke_mode (iv_mode p) = Inr m"
        "invoke_allow ops h a m (clone_json (iv_input p)) (clone_json (iv_request_metadata p))
          (iv_request_id p) x = (res, x')"
    | (reject) a m where "registry_get (se_registry v) ?name = Some a"
        "normalize_invoke_mode (iv_mode p) = Inr m"
        "invoke_reject ops h a m (clone_json (iv_input p)) (clone_json (iv_request_metadata p))
          (iv_request_id p) x = (res, x')"
    using op v
    by (auto simp: invoke_defs Let_def simp del: clone_json_id
        split: if_splits option.splits sum.splits)
  then show ?thesis
  proof cases
    case 1
    with inv show ?thesis by (simp add: invocation_effect_refl)
  next
    case allow
    have "ac_name a = ?name" using reg allow(1) by (simp add: registry_wf_def)
    with invoke_allow_effect [OF inv allow(3)] mode [OF allow(2)] show ?thesis by simp
  next
    case reject
    have "ac_name a = ?name" using reg reject(1) by (simp add: registry_wf_def)
    with invoke_reject_effect [OF inv reject(3)] mode [OF reject(2)] show ?thesis by simp
  qed
qed

end

subsection \<open>The interfaces\<close>

locale action_api =
  fixes has :: "string \<Rightarrow> bool"
    and invoke_op :: "host \<Rightarrow> invoke_params \<Rightarrow> 'x \<Rightarrow> (go_error + run) \<times> 'x"
    and lookup :: "'x \<Rightarrow> string \<Rightarrow> run option"
    and ok :: "'x \<Rightarrow> bool"
  assumes invoked: "ok x \<Longrightarrow> invoke_op h p x = (res, x') \<Longrightarrow>
      invocation_effect lookup ok (trim_space (iv_action_name p))
        (trim_space (iv_mode p) = invoke_mode_async) x res x'"

locale run_api = action_api has invoke_op lookup ok + run_reader get list lookup ok
  for has :: "string \<Rightarrow> bool"
    and invoke_op :: "host \<Rightarrow> invoke_params \<Rightarrow> 'x \<Rightarrow> (go_error + run) \<times> 'x"
    and lookup :: "'x \<Rightarrow> string \<Rightarrow> run option"
    and ok :: "'x \<Rightarrow> bool"
    and get :: "string \<Rightarrow> 'x \<Rightarrow> (go_error + run) \<times> 'x"
    and list :: "run_filter \<Rightarrow> 'x \<Rightarrow> (go_error + run list) \<times> 'x"

text \<open>The store inside the execution state is a run reader as well.\<close>

definition state_lookup :: "store exec_state \<Rightarrow> string \<Rightarrow> run option" where
  "state_lookup x = store_lookup (xs_store x)"

definition state_ok :: "action_registry \<Rightarrow> store exec_state \<Rightarrow> bool" where
  "state_ok reg x \<longleftrightarrow> store_inv (xs_store x) \<and> registry_wf reg"

lemma on_store_result:
  "on_store f x = (r, x') \<longleftrightarrow> (\<exists>s'. f (xs_store x) = (r, s') \<and> x' = x\<lparr>xs_store := s'\<rparr>)"
  by (auto simp: on_store_def split: prod.splits)

interpretation api: run_api
    "has_action (new_service (Some (store_ops now)) reg)"
    "invoke (new_service (Some (store_ops now)) reg)" state_lookup "state_ok reg"
    "\<lambda>i. on_store (store_get_run i)" "\<lambda>f. on_store (store_list_runs f)"
  for now reg
proof (unfold_locales, goal_cases)
  case (1 x h p res x')
  then show ?case
    using sqlite.invoke_effect [of x "new_service (Some (store_ops now)) reg" h p res x' now]
    by (auto simp: state_ok_def state_lookup_def invocation_effect_def new_service_def)
next
  case (2 x i run)
  then show ?case using store_reader.lookup_id by (auto simp: state_ok_def state_lookup_def)
next
  case (3 x i r x')
  then show ?case
    using store_reader.get_keeps by (auto simp: state_ok_def state_lookup_def on_store_result)
next
  case (4 x i run x')
  then show ?case
    using store_reader.get_found by (auto simp: state_ok_def state_lookup_def on_store_result)
next
  case (5 x f r x')
  then show ?case
    using store_reader.list_keeps by (auto simp: state_ok_def state_lookup_def on_store_result)
next
  case (6 x f runs x')
  then show ?case
    using store_reader.list_found by (auto simp: state_ok_def state_lookup_def on_store_result)
qed

end
