(* ===== verification/Http_Decode.thy ===== *)
theory Http_Decode
  imports Http_Api
begin

section \<open>Request bodies\<close>

text \<open>
  What \<open>decodeInvokeActionRequest\<close> accepts, and that it gives back what a client encoded.
\<close>

subsection \<open>Values cut out of a stream are valid JSON\<close>

lemma scan_space_EndTop: "list_all json_space s \<Longrightarrow> scan_all EndTop stk s"
  by (induction s) (auto simp: eof_complete_def)

lemma read_value_complete: "read_value st stk s = ReadMore True \<Longrightarrow> scan_all st stk s"
  by (induction st stk s rule: read_value.induct)
    (auto split: scan_result.splits if_splits read_result.splits)

lemma read_value_then_space:
  "read_value st stk s = ReadDone raw rest \<Longrightarrow> list_all json_space rest \<Longrightarrow> scan_all st stk s"
  by (induction st stk s arbitrary: raw rule: read_value.induct)
    (auto split: scan_result.splits if_splits read_result.splits intro: scan_space_EndTop)

lemma end_value_EndBefore_any: "end_value stk c = EndBefore \<Longrightarrow> end_value stk d = EndBefore"
  using end_value_not_EndBefore [of stk c] by (cases stk) auto

lemma pop_ctx_results: "pop_ctx stk \<noteq> EndBefore" "pop_ctx stk \<noteq> Cont BeginValueOrEmpty stk'"
  by (cases stk rule: pop_ctx.cases; simp)+

text \<open>A byte that ends a scalar could as well have been a space.\<close>

lemma EndBefore_on_space:
  assumes "scan_step st stk c = EndBefore" and "st = BeginValueOrEmpty \<longrightarrow> stk \<noteq> []"
  shows "scan_step st stk (CHR '' '') = EndBefore"
proof -
  have sp: "\<not> is_digit (CHR '' '')" "\<not> is_digit19 (CHR '' '')" "hex_val (CHR '' '') = None"
    by (simp_all add: is_digit_def is_digit19_def hex_val_def)
  show ?thesis
    using assms end_value_EndBefore_any [of stk c "CHR '' ''"]
    by (cases "(st, stk, c)" rule: scan_step.cases)
      (auto simp: sp begin_value_not_EndBefore end_value_not_EndBefore begin_string_def state_int0_def
          pop_ctx_results
        split: if_splits list.splits option.splits nat.splits)
qed

lemma scan_step_or_empty:
  assumes "scan_step st stk c = Cont st' stk'" and "st = BeginValueOrEmpty \<longrightarrow> stk \<noteq> []"
  shows "st' = BeginValueOrEmpty \<longrightarrow> stk' \<noteq> []"
proof -
  have e: "end_value stk2 d = Cont BeginValueOrEmpty stk3 \<Longrightarrow> stk3 \<noteq> []" for stk2 d stk3
    by (cases "(stk2, d)" rule: end_value.cases; cases stk2 rule: pop_ctx.cases)
      (auto split: if_splits parse_ctx.splits)
  show ?thesis
    using assms e
    by (cases "(st, stk, c)" rule: scan_step.cases)
      (auto simp: begin_value_def push_ctx_def begin_string_def state_int0_def pop_ctx_results
        split: if_splits list.splits option.splits nat.splits)
qed

lemma read_value_scan:
  "read_value st stk s = ReadDone raw rest \<Longrightarrow> (st = BeginValueOrEmpty \<longrightarrow> stk \<noteq> []) \<Longrightarrow>
     scan_all st stk raw"
proof (induction st stk s arbitrary: raw rule: read_value.induct)
  case (1 st stk)
  then show ?case by simp
next
  case (2 st stk c s)
  show ?case
  proof (cases "scan_step st stk c")
    case (Cont st' stk')
    note inv = scan_step_or_empty [OF Cont 2(3)]
    show ?thesis
    proof (cases "st' = EndTop")
      case True
      with Cont 2(2) show ?thesis by (auto simp: eof_complete_def)
    next
      case False
      with Cont 2(2) obtain raw' where "read_value st' stk' s = ReadDone raw' rest" "raw = c # raw'"
        by (auto split: read_result.splits)
      with 2(1) [OF Cont False _ inv] Cont show ?thesis by auto
    qed
  next
    case EndBefore
    with 2(2,3) EndBefore_on_space [OF EndBefore] show ?thesis by (auto simp: eof_complete_def)
  next
    case ScanError
    with 2(2) show ?thesis by simp
  qed
qed

lemma read_value_valid: "read_value BeginValue [] s = ReadDone raw rest \<Longrightarrow> json_valid raw"
  unfolding json_valid_def by (erule read_value_scan) simp

lemma object_items_member:
  assumes "(key, raw) \<in> set (object_items s)"
  shows "json_valid raw \<or> (\<exists>t. length t < length s \<and> (key, raw) \<in> set (object_items t))"
proof (cases "read_value BeginValue [] (skip_json_space s)")
  case (ReadDone k rest)
  note 1 = ReadDone
  show ?thesis
  proof (cases "skip_json_space rest")
    case Nil
    with assms 1 show ?thesis by (simp add: object_items.simps [of s])
  next
    case (Cons c r)
    then have c: "c = CHR '':''"
      using assms 1 by (cases "c = CHR '':''") (simp_all add: object_items.simps [of s])
    note 2 = Cons
    show ?thesis
    proof (cases "read_value BeginValue [] (skip_json_space r)")
      case (ReadDone v rest1)
      note 3 = ReadDone
      show ?thesis
      proof (cases "skip_json_space rest1")
        case Nil
        with assms 1 2 3 c read_value_valid [OF 3] show ?thesis
          by (simp add: object_items.simps [of s])
      next
        case (Cons d t)
        have "length t < length s"
          using read_value_begin_shorter [OF 1] read_value_begin_shorter [OF 3]
            length_skip_json_space [of s] length_skip_json_space [of rest]
            length_skip_json_space [of r] length_skip_json_space [of rest1] 2 Cons by simp
        moreover have "raw = v \<or> (key, raw) \<in> set (object_items t)"
          using assms 1 2 3 Cons c
          by (cases "d = CHR '',''") (auto simp: object_items.simps [of s])
        ultimately show ?thesis using read_value_valid [OF 3] by blast
      qed
    qed (use assms 1 2 c in \<open>simp_all add: object_items.simps [of s]\<close>)
  qed
qed (use assms in \<open>simp_all add: object_items.simps [of s]\<close>)

lemma object_items_valid: "(key, raw) \<in> set (object_items s) \<Longrightarrow> json_valid raw"
  by (induction s rule: measure_induct_rule [of length]) (blast dest: object_items_member)

subsection \<open>What is accepted\<close>

lemma payload_members_input:
  "payload_members p kvs = Some q \<Longrightarrow> ir_input p = [] \<or> json_valid (ir_input p) \<Longrightarrow>
     \<forall>(k, raw) \<in> set kvs. json_valid raw \<Longrightarrow> ir_input q = [] \<or> json_valid (ir_input q)"
proof (induction p kvs rule: payload_members.induct)
  case (1 p)
  then show ?case by simp
next
  case (2 p key raw kvs)
  then show ?case by (auto split: option.splits if_splits)
qed

lemma unmarshal_payload_input:
  assumes "unmarshal_payload raw = Some q"
  shows "ir_input q = [] \<or> json_valid (ir_input q)"
proof (cases "skip_json_space raw")
  case Nil
  with assms show ?thesis by (simp add: unmarshal_payload_def)
next
  case (Cons c r)
  have "\<forall>(k, v) \<in> set (object_items r). json_valid v" using object_items_valid by blast
  with assms Cons payload_members_input [of empty_invoke_request "object_items r" q] show ?thesis
    by (auto simp: unmarshal_payload_def empty_invoke_request_def split: if_splits)
qed

lemma decode_next_ended:
  assumes "decode_next fin rest = Body_Ended"
  shows "fin = At_Eof" "list_all json_space rest"
  using assms by (auto simp: decode_next_def split: read_result.splits body_end.splits if_splits)

lemma decode_next_value:
  assumes "decode_next fin data = Decoded raw rest"
  shows "read_value BeginValue [] data = ReadDone raw rest
    \<or> read_value BeginValue [] data = ReadMore True \<and> rest = []"
  using assms by (auto simp: decode_next_def split: read_result.splits body_end.splits if_splits)

lemma decode_accepts:
  assumes "decode_invoke_action_request rq = Inr payload"
  shows "length (rq_body rq) \<le> 2 ^ 20 \<and> \<not> rq_body_broken rq \<and> json_valid (rq_body rq)
    \<and> validate_json_payload (ir_input payload) name = None"
proof -
  obtain data fin where l: "limit_body (rq_body rq) (rq_body_broken rq) = (data, fin)" by fastforce
  from assms l obtain raw rest where d: "decode_next fin data = Decoded raw rest"
    "unmarshal_payload raw = Some payload" "decode_next fin rest = Body_Ended"
    by (auto simp: decode_invoke_action_request_def split: decode_outcome.splits option.splits)
  have "fin = At_Eof" "list_all json_space rest" using decode_next_ended [OF d(3)] by simp_all
  then have b: "length (rq_body rq) \<le> 2 ^ 20" "\<not> rq_body_broken rq" "data = rq_body rq"
    using l by (auto simp: limit_body_def max_invoke_action_request_body_bytes_def split: if_splits)
  have "json_valid data"
    using decode_next_value [OF d(1)] \<open>list_all json_space rest\<close>
    unfolding json_valid_def by (blast intro: read_value_complete read_value_then_space)
  with b unmarshal_payload_input [OF d(2)] show ?thesis by (auto simp: validate_json_payload_def)
qed

subsection \<open>What a client encodes\<close>

text \<open>The body of a client that sends a mode and an object of strings as the input.\<close>

definition client_body :: "string \<Rightarrow> string gomap \<Rightarrow> bytes" where
  "client_body mode m =
     ''{'' @ marshal_member ''mode'' mode @ '','' @ json_quote ''input'' @ '':''
       @ marshal_string_map m @ ''}''"

lemma run_scan_open_map:
  assumes "Suc (length stk) \<le> max_nesting_depth"
  shows "\<exists>st ctx. run_scan BeginValue stk (''{'' @ print_members (sorted_members m)) = Some (st, ctx # stk)
    \<and> scan_step st (ctx # stk) (CHR ''}'') = pop_ctx (ObjectValue # stk)"
proof (cases "sorted_members m = []")
  case True
  with assms show ?thesis by (simp add: begin_value_def json_space_def push_ctx_def)
next
  case False
  then have "run_scan BeginStringOrEmpty (ObjectKey # stk) (print_members (sorted_members m))
      = Some (EndValue, ObjectValue # stk)"
    by (intro scan_object_tail) simp_all
  with assms show ?thesis by (simp add: begin_value_def json_space_def push_ctx_def)
qed

lemma run_scan_string_map:
  assumes "Suc (length stk) \<le> max_nesting_depth" and "stk \<noteq> []"
  shows "run_scan BeginValue stk (marshal_string_map m) = Some (EndValue, stk)"
proof -
  obtain st ctx where s: "run_scan BeginValue stk (''{'' @ print_members (sorted_members m)) = Some (st, ctx # stk)"
    "scan_step st (ctx # stk) (CHR ''}'') = pop_ctx (ObjectValue # stk)"
    using run_scan_open_map [OF assms(1)] by blast
  have "pop_ctx (ObjectValue # stk) = Cont EndValue stk" using assms(2) by (cases stk) simp_all
  with s show ?thesis
    using run_scan_append [of BeginValue stk "''{'' @ print_members (sorted_members m)" "''}''"]
    by (simp add: marshal_string_map_members)
qed

lemma read_string_map:
  "read_value BeginValue [] (marshal_string_map m @ t) = ReadDone (marshal_string_map m) t"
proof -
  obtain st ctx where s: "run_scan BeginValue [] (''{'' @ print_members (sorted_members m)) = Some (st, [ctx])"
    "scan_step st [ctx] (CHR ''}'') = Cont EndTop []"
    using run_scan_open_map [of "[]" m] by (auto simp: max_nesting_depth_def)
  then show ?thesis
    using read_value_run [OF s(1), of "CHR ''}'' # t"] by (simp add: marshal_string_map_members)
qed

lemma run_scan_client_body:
  "run_scan BeginValue [] (''{'' @ marshal_member ''mode'' mode @ '','' @ json_quote ''input'' @ '':''
      @ marshal_string_map m) = Some (EndValue, [ObjectValue])"
proof -
  have "run_scan BeginStringOrEmpty [ObjectKey] (marshal_member ''mode'' mode) = Some (EndValue, [ObjectValue])"
    by (intro run_scan_member) simp
  moreover have "run_scan BeginString [ObjectKey] (json_quote ''input'') = Some (EndValue, [ObjectKey])"
    by (intro run_scan_quote) simp
  moreover have "run_scan BeginValue [ObjectValue] (marshal_string_map m) = Some (EndValue, [ObjectValue])"
    by (intro run_scan_string_map) (simp_all add: max_nesting_depth_def)
  ultimately show ?thesis
    by (simp add: run_scan_append begin_value_def push_ctx_def json_space_def max_nesting_depth_def)
qed

lemma read_client_body:
  "read_value BeginValue [] (client_body mode m) = ReadDone (client_body mode m) []"
  using read_value_run [OF run_scan_client_body [of mode m], of "''}''"]
  by (simp add: client_body_def json_space_def)

lemma client_body_items:
  "object_items (marshal_member ''mode'' mode @ '','' @ json_quote ''input'' @ '':''
      @ marshal_string_map m @ ''}'')
   = [(json_quote ''mode'', json_quote mode), (json_quote ''input'', marshal_string_map m)]"
proof -
  have sk: "skip_json_space (marshal_string_map m @ t) = marshal_string_map m @ t" for t
    by (simp add: marshal_string_map_members json_space_def)
  have "object_items (json_quote ''input'' @ '':'' @ marshal_string_map m @ ''}'')
      = [(json_quote ''input'', marshal_string_map m)]"
    by (subst object_items.simps) (simp add: read_quote sk read_string_map json_space_def)
  then show ?thesis
    using object_items_step [of "CHR '',''" "''mode''" mode
        "json_quote ''input'' @ '':'' @ marshal_string_map m @ ''}''"] by simp
qed

lemma unmarshal_client_body:
  "unmarshal_payload (client_body mode m) =
     Some \<lparr>ir_mode = fix_utf8 mode, ir_input = marshal_string_map m\<rparr>"
proof -
  have k: "fix_utf8 ''mode'' = ''mode''" "fix_utf8 ''input'' = ''input''" by code_simp+
  have f: "equal_fold ''mode'' ''mode''" "equal_fold ''input'' ''input''"
    "\<not> equal_fold ''input'' ''mode''"
    by code_simp+
  have u: "json_unquote (json_quote ''mode'') = Some ''mode''"
    "json_unquote (json_quote ''input'') = Some ''input''"
    "json_unquote (json_quote mode) = Some (fix_utf8 mode)"
    by (simp_all only: unquote_quote k)
  have "json_quote mode \<noteq> ''null''" by (simp add: json_quote_def)
  then have "payload_members empty_invoke_request [(json_quote ''mode'', json_quote mode),
        (json_quote ''input'', marshal_string_map m)]
      = Some \<lparr>ir_mode = fix_utf8 mode, ir_input = marshal_string_map m\<rparr>"
    by (simp add: u f empty_invoke_request_def)
  then show ?thesis
    by (simp add: unmarshal_payload_def client_body_def json_space_def client_body_items [simplified])
qed

lemma raw_members_quotes:
  "raw_members m (map (\<lambda>(k, v). (json_quote k, json_quote v)) kvs) =
     Some (gomap_copy m (map (\<lambda>(k, v). (fix_utf8 k, json_quote v)) kvs))"
  by (induction kvs arbitrary: m) (auto simp: unquote_quote)

lemma unmarshal_raw_string_map:
  assumes "gomap_wf m" and "\<forall>(k, v) \<in> set m. valid_utf8 k \<and> valid_utf8 v"
  shows "\<exists>r. unmarshal_raw_map (marshal_string_map m) = Some r
    \<and> (\<forall>k. map_of r k = map_option json_quote (map_of m k))"
proof -
  let ?kvs = "sorted_members m"
  let ?r = "map (\<lambda>(k, v). (k, json_quote v)) ?kvs"
  have wf: "gomap_wf ?kvs" by (rule sorted_members_wf [OF assms(1)])
  have mem: "(k, v) \<in> set m" if "(k, v) \<in> set ?kvs" for k v
  proof -
    have "map_of m k = Some v"
      using wf that map_of_sorted_members [of m] by (metis gomap_wf_def map_of_eq_Some_iff)
    then show ?thesis by (rule map_of_SomeD)
  qed
  have fixed: "map (\<lambda>(k, v). (fix_utf8 k, json_quote v)) ?kvs = ?r"
    using mem assms(2) by (intro map_cong refl) (fastforce simp: fix_utf8_valid)
  have "map fst ?r = map fst ?kvs" by (rule nth_equalityI) (auto simp: case_prod_unfold)
  then have "gomap_wf ?r" using wf by (simp only: gomap_wf_def)
  then have copy: "gomap_copy [] ?r = ?r" by (rule gomap_copy_empty)
  have look: "map_of ?r k = map_option json_quote (map_of m k)" for k
    by (simp add: map_of_map map_of_sorted_members)
  have "raw_members [] (object_items (print_members ?kvs @ ''}'')) = Some ?r"
  proof (cases "?kvs = []")
    case True
    have "object_items ''}'' = []"
      by (subst object_items.simps) (simp add: json_space_def begin_value_def)
    with True show ?thesis by simp
  next
    case False
    then show ?thesis
      using object_items_join [OF False] raw_members_quotes [of "[]" ?kvs] fixed copy by simp
  qed
  then have "unmarshal_raw_map (marshal_string_map m) = Some ?r"
    using json_valid_marshal_string_map [of m]
    by (simp add: unmarshal_raw_map_def marshal_string_map_members json_space_def)
  with look show ?thesis by blast
qed

definition sample_post :: http_request where
  "sample_post =
     \<lparr>rq_method = ''POST'', rq_path = ''/v1/actions/deploy/runs'',
      rq_pattern = Some ''/v1/actions/{name}/runs'', rq_header = [], rq_query = [],
      rq_body = client_body ''sync'' [(''request_id'', ''r1'')], rq_body_broken = False\<rparr>"

lemma sample_post_simps [simp]:
  "rq_body sample_post = client_body ''sync'' [(''request_id'', ''r1'')]"
  "\<not> rq_body_broken sample_post" "rq_header sample_post = []"
  by (simp_all add: sample_post_def)

lemma sample_post_utf8:
  "valid_utf8 ''sync''" "valid_utf8 ''request_id''" "valid_utf8 ''r1''"
  by code_simp+

lemma sample_post_length: "length (rq_body sample_post) \<le> 2 ^ 20"
proof -
  have "length (client_body ''sync'' [(''request_id'', ''r1'')]) = 43" by code_simp
  then show ?thesis by simp
qed

lemma client_body_decodes:
  assumes "rq_body rq = client_body mode m" and "\<not> rq_body_broken rq"
    and "length (rq_body rq) \<le> 2 ^ 20" and "valid_utf8 mode"
  shows "decode_invoke_action_request rq = Inr \<lparr>ir_mode = mode, ir_input = marshal_string_map m\<rparr>"
proof -
  have "limit_body (rq_body rq) (rq_body_broken rq) = (client_body mode m, At_Eof)"
    using assms(1-3) by (simp add: limit_body_def max_invoke_action_request_body_bytes_def)
  then show ?thesis
    using assms(4)
    by (simp add: decode_invoke_action_request_def decode_next_def read_client_body
        unmarshal_client_body fix_utf8_valid eof_complete_def begin_value_def json_space_def)
qed



text \<open>
  An accepted body is at most 1 MiB, was read to its end, and is one valid JSON value; the
  input taken from it is absent or valid JSON itself, so that the execution service never
  refuses the input of a request.
\<close>

theorem decode_accepts_valid:
  assumes "decode_invoke_action_request rq = Inr payload"
  shows "length (rq_body rq) \<le> 2 ^ 20 \<and> \<not> rq_body_broken rq \<and> json_valid (rq_body rq)
    \<and> validate_json_payload (ir_input payload) name = None"
  by (rule decode_accepts [OF assms])

theorem decode_accepts_valid_witness:
  "length (rq_body sample_post) \<le> 2 ^ 20 \<and> json_valid (rq_body sample_post)"
  using decode_accepts_valid [OF client_body_decodes [OF sample_post_simps(1,2)
        sample_post_length sample_post_utf8(1)]] by blast

subsection \<open>The metadata of a request\<close>

lemma marshal_request_metadata_map:
  "marshal_request_metadata mode request_id = marshal_string_map
     ((''mode'', mode) # (if request_id = [] then [] else [(''request_id'', request_id)]))"
proof -
  have "sort [''mode'', ''request_id''] = [''mode'', ''request_id'']" by code_simp
  then show ?thesis by (simp add: marshal_request_metadata_def marshal_string_map_def)
qed

lemma request_metadata_valid: "json_valid (marshal_request_metadata mode request_id)"
  unfolding marshal_request_metadata_map by (rule json_valid_marshal_string_map)

text \<open>
  The metadata that is stored with a run is valid JSON, so that neither the service nor the
  store refuses it, and decodes to the mode and the request id of the request.
\<close>

theorem request_metadata_roundtrip:
  assumes "valid_utf8 mode" and "valid_utf8 request_id"
  shows "validate_json_payload (marshal_request_metadata mode request_id) name = None
    \<and> normalize_raw_json (marshal_request_metadata mode request_id)
        = Inr (marshal_request_metadata mode request_id)
    \<and> unmarshal_string_map (marshal_request_metadata mode request_id) =
        Inr ((''mode'', mode) # (if request_id = [] then [] else [(''request_id'', request_id)]))"
proof -
  let ?m = "(''mode'', mode) # (if request_id = [] then [] else [(''request_id'', request_id)])"
  have u: "valid_utf8 ''mode''" "valid_utf8 ''request_id''" by code_simp+
  have s: "sort [''mode'', ''request_id''] = [''mode'', ''request_id'']" by code_simp
  have "unmarshal_string_map (marshal_string_map ?m) = Inr (sorted_members ?m)"
    using assms u by (intro roundtrip_string_map_utf8) (auto simp: gomap_wf_def)
  moreover have "sorted_members ?m = ?m" using s by (simp add: sorted_members_def)
  moreover have "json_valid (marshal_string_map ?m)" by (rule json_valid_marshal_string_map)
  moreover have "marshal_string_map ?m \<noteq> []" by (simp add: marshal_string_map_def)
  ultimately show ?thesis
    unfolding marshal_request_metadata_map
    by (simp only: validate_json_payload_def normalize_raw_json_def clone_bytes_def if_False
        not_True_eq_False if_cancel simp_thms)
qed

theorem request_metadata_roundtrip_witness:
  "unmarshal_string_map (marshal_request_metadata ''sync'' ''r1'')
     = Inr [(''mode'', ''sync''), (''request_id'', ''r1'')]"
  using request_metadata_roundtrip [OF sample_post_utf8(1,3)] by simp

end
