(* ===== verification/Samples.thy ===== *)
theory Samples
  imports Load
begin

section \<open>A sample configuration\<close>

text \<open>
  One configuration with one action and one token, on which the properties of the other
  theories are instantiated: what the file decodes to, and the configuration it loads as.
\<close>

definition sample_token_value :: string where
  "sample_token_value = ''mhv1_'' @ replicate 43 (CHR ''A'')"

definition sample_file_action :: file_action where
  "sample_file_action =
     \<lparr>fa_name = ''deploy'', fa_description = [], fa_command = [''echo'', ''hi''],
      fa_shell_command = [], fa_cwd = [], fa_timeout = ''30s'',
      fa_env = [(''B'', ''2''), (''A'', ''1'')], fa_concurrency_policy = ''reject'',
      fa_max_output_bytes = Some 4, fa_enabled = None\<rparr>"

definition sample_file_token :: file_token where
  "sample_file_token =
     \<lparr>ft_name = ''ci'', ft_value = sample_token_value, ft_actions = [''deploy'']\<rparr>"

definition sample_file_config :: file_config where
  "sample_file_config =
     \<lparr>fc_server = \<lparr>fs_listen = [], fs_log_format = []\<rparr>, fc_tokens = [sample_file_token],
      fc_storage = \<lparr>fst_path = ''runs.db'', fst_retention_days = 30, fst_max_runs = 100\<rparr>,
      fc_actions = [sample_file_action]\<rparr>"

definition sample_read :: "string \<Rightarrow> go_error + bytes" where
  "sample_read path = Inr []"

definition sample_yaml :: "bytes \<Rightarrow> go_error + file_config" where
  "sample_yaml data = Inr sample_file_config"

definition sample_action :: action where
  "sample_action =
     \<lparr>ac_name = ''deploy'', ac_description = [], ac_mode = action_mode_command,
      ac_command = [''echo'', ''hi''], ac_shell_command = [], ac_cwd = [],
      ac_timeout = 30000000000, ac_env = [(''B'', ''2''), (''A'', ''1'')],
      ac_concurrency_policy = ''reject'', ac_max_output_bytes = 4, ac_enabled = True\<rparr>"

definition sample_token :: token where
  "sample_token =
     \<lparr>tk_name = ''ci'', tk_value = sample_token_value, tk_actions = [''deploy''],
      tk_action_set = {''deploy''}\<rparr>"

definition sample_config :: config where
  "sample_config =
     \<lparr>cf_server = \<lparr>sv_listen = default_listen_address, sv_log_format = default_log_format\<rparr>,
      cf_auth = \<lparr>au_tokens = [sample_token]\<rparr>,
      cf_storage = \<lparr>sc_path = ''runs.db'', sc_retention_days = 30, sc_max_runs = 100\<rparr>,
      cf_actions = [sample_action], cf_registry = Some (registry_of [sample_action])\<rparr>"

lemma sample_text_trims:
  "trim_space ''deploy'' = ''deploy''" "trim_space ''reject'' = ''reject''"
  "trim_space ''30s'' = ''30s''" "trim_space ''runs.db'' = ''runs.db''"
  "trim_space ''ci'' = ''ci''" "trim_space ''echo'' = ''echo''" "trim_space ''hi'' = ''hi''"
  "trim_space ''A'' = ''A''" "trim_space ''B'' = ''B''"
  "trim_space ''127.0.0.1:9464'' = ''127.0.0.1:9464''"
  "trim_space sample_token_value = sample_token_value"
  by code_simp+

lemma sample_timeout: "parse_duration ''30s'' = Inr 30000000000"
  by code_simp

lemma sample_normalized: "normalize_config sample_file_config
    = (sample_config\<lparr>cf_registry := None\<rparr>, [])"
  by (simp add: normalize_config_def sample_file_config_def sample_file_action_def
      sample_file_token_def sample_timeout sample_text_trims normalize_action_def
      normalize_tokens_def normalize_token_def normalize_action_names_def make_action_set_def
      sample_config_def sample_action_def sample_token_def default_max_output_bytes_def
      clone_string_map_def)

lemma sample_token_shape: "token_shape sample_token_value"
  by code_simp

lemma sample_valid: "valid_config sample_config"
  by (simp add: valid_config_def valid_server_def valid_storage_def valid_actions_def
      valid_action_def valid_env_def valid_tokens_def valid_token_def sample_config_def
      sample_action_def sample_token_def sample_text_trims sample_token_shape
      default_log_format_def default_listen_address_def nul_def action_mode_command_def)

theorem sample_loads:
  "load sample_read sample_yaml ''config.yml'' = Inr sample_config"
  unfolding load_cases sample_read_def sample_yaml_def
  using sample_valid by (simp add: sample_normalized) (simp add: sample_config_def)

end
