(* ===== verification/Store_Properties.thy ===== *)
theory Store_Properties
  imports Run_Store
begin

section \<open>Properties of the run store\<close>

text \<open>
  The properties of \<open>internal/storage\<close>, each with a concrete instance of its hypotheses: the
  empty store, one run in it, and a retention policy.
\<close>

subsection \<open>Sample values\<close>

definition sample_snapshot :: action_snapshot where
  "sample_snapshot =
     \<lparr>sn_description = [], sn_mode = ''command'', sn_command = [''echo'', ''hi''],
      sn_shell_command = [], sn_cwd = [], sn_timeout = 0,
      sn_env = [(''B'', ''2''), (''A'', ''1'')], sn_concurrency_policy = ''reject'',
      sn_max_output_bytes = 4, sn_enabled = True\<rparr>"

definition sample_create :: create_run_params where
  "sample_create =
     \<lparr>cp_id = ''run_1'', cp_action_name = ''deploy'', cp_status = run_status_running,
      cp_created_at = 1000, cp_started_at = Some 1000, cp_request_metadata = [],
      cp_stdout_tail = [], cp_stderr_tail = [], cp_error_summary = [],
      cp_snapshot = sample_snapshot\<rparr>"

definition sample_update :: update_run_params where
  "sample_update =
     \<lparr>up_id = ''run_1'', up_status = run_status_succeeded, up_exit_code = Some 0,
      up_started_at = Some 1000, up_finished_at = Some 2000, up_timed_out = False,
      up_stdout_tail = ''hi'', up_stderr_tail = [], up_error_summary = []\<rparr>"

definition empty_store :: store where
  "empty_store = \<lparr>st_tables = empty_tables, st_faults = []\<rparr>"

lemma empty_store_inv: "store_inv empty_store"
  by (simp add: store_inv_def empty_store_def empty_tables_def tables_wf_def run_records_def)

lemma empty_store_lookup: "store_lookup empty_store i = None"
  by (simp add: store_lookup_def empty_store_def empty_tables_def q_get_run_def run_records_def)

lemma sample_trims:
  "trim_space ''run_1'' = ''run_1''" "trim_space ''deploy'' = ''deploy''"
  "trim_space ''command'' = ''command''" "trim_space ''reject'' = ''reject''"
  "trim_space ''running'' = ''running''" "trim_space ''succeeded'' = ''succeeded''"
  by code_simp+

lemma sample_create_ok: "create_params_ok 0 sample_create"
  by (simp add: create_params_ok_def sample_create_def sample_snapshot_def validate_run_status_def
      validate_action_snapshot_def run_status_defs sample_trims zero_time_def)

definition sample_store :: store where
  "sample_store = snd (store_create_run 0 sample_create empty_store)"

lemma sample_create_id: "cp_id sample_create = ''run_1''"
  by (simp add: sample_create_def)

lemma sample_store_created:
  "store_create_run 0 sample_create empty_store = (Inr (created_run 0 sample_create), sample_store)"
  "st_faults sample_store = []"
proof -
  have faults: "st_faults empty_store = []" by (simp add: empty_store_def)
  obtain s' where s': "store_create_run 0 sample_create empty_store = (Inr (created_run 0 sample_create), s')"
      "st_faults s' = []"
    using store_create_run_ok [OF empty_store_inv faults sample_create_ok empty_store_lookup] by blast
  then show "store_create_run 0 sample_create empty_store = (Inr (created_run 0 sample_create), sample_store)"
    "st_faults sample_store = []" by (simp_all add: sample_store_def)
qed

lemma sample_store_facts:
  "store_inv sample_store"
  "store_lookup sample_store = (\<lambda>_. None)(''run_1'' \<mapsto> created_run 0 sample_create)"
  using store_create_run_Inr [OF empty_store_inv sample_store_created(1)]
  by (simp_all add: sample_create_id empty_store_lookup fun_eq_iff)

subsection \<open>Creating a run\<close>





text \<open>
  A run id that is stored already is refused: creating a second run with it never answers a
  run and leaves every stored run as it was.
\<close>

theorem create_run_duplicate:
  assumes "store_inv s" and "store_lookup s (cp_id p) = Some r"
    and "store_create_run now p s = (res, s')"
  shows "isl res \<and> store_lookup s' = store_lookup s"
  using assms store_create_run_Inr [of s now p _ s'] store_create_run_Inl [of s now p _ s']
  by (cases res) auto

theorem create_run_duplicate_witness:
  "isl (fst (store_create_run 0 sample_create sample_store))"
proof -
  have "store_lookup sample_store (cp_id sample_create) = Some (created_run 0 sample_create)"
    by (simp add: sample_store_facts sample_create_id)
  from create_run_duplicate [OF sample_store_facts(1) this, of 0 "fst (store_create_run 0 sample_create sample_store)"
      "snd (store_create_run 0 sample_create sample_store)"]
  show ?thesis by simp
qed


text \<open>
  C32: the one gap in the answer of \<open>CreateRun\<close>: when the transaction commits and the query that
  reads the run back fails, the caller gets an error although the run is stored, with the status
  it was created with.
\<close>

theorem create_run_readback_failure:
  assumes "store_inv s" and "st_faults s = [None, None, None, None, Some d]"
    and "create_params_ok now p" and "store_lookup s (cp_id p) = None"
  shows "\<exists>e s'. store_create_run now p s = (Inl e, s')
    \<and> store_lookup s' (cp_id p) = Some (created_run now p)"
  using store_create_run_orphan [OF assms] by fastforce

theorem create_run_readback_failure_witness:
  "\<exists>e s'. store_create_run 0 sample_create
      (empty_store\<lparr>st_faults := [None, None, None, None, Some ''interrupted'']\<rparr>) = (Inl e, s')
    \<and> (\<exists>r. store_lookup s' ''run_1'' = Some r \<and> rn_status r = run_status_running)"
proof -
  let ?s = "empty_store\<lparr>st_faults := [None, None, None, None, Some ''interrupted'']\<rparr>"
  have t: "st_tables ?s = st_tables empty_store" by simp
  have "store_inv ?s" "store_lookup ?s (cp_id sample_create) = None"
    using empty_store_inv empty_store_lookup store_inv_tables [OF t] store_lookup_tables [OF t]
    by metis+
  from create_run_readback_failure [OF this(1) _ sample_create_ok this(2), of "''interrupted''"]
  show ?thesis
    by (auto simp: sample_create_id created_run_def) (simp add: sample_create_def)
qed

subsection \<open>Updating a run\<close>

text \<open>
  C20: an update is all or nothing under every driver failure: it either reports an error and
  leaves every run as it was, or it rewrites exactly the named run, keeping its action, its
  creation time, its request metadata and its action snapshot.
\<close>

theorem update_run_exact:
  assumes "store_inv s" and "store_update_run p s = (res, s')"
  shows "store_inv s' \<and>
    (case res of
       Some e \<Rightarrow> store_lookup s' = store_lookup s
     | None \<Rightarrow> \<exists>r r'. store_lookup s (up_id p) = Some r
         \<and> store_lookup s' = (store_lookup s)(up_id p \<mapsto> r')
         \<and> rn_status r' = up_status p \<and> rn_exit_code r' = up_exit_code p
         \<and> rn_started_at r' = map_option stored_time (up_started_at p)
         \<and> rn_finished_at r' = map_option stored_time (up_finished_at p)
         \<and> rn_timed_out r' = up_timed_out p \<and> rn_stdout_tail r' = up_stdout_tail p
         \<and> rn_stderr_tail r' = up_stderr_tail p \<and> rn_error_summary r' = up_error_summary p
         \<and> rn_id r' = rn_id r \<and> rn_action_name r' = rn_action_name r
         \<and> rn_created_at r' = rn_created_at r \<and> rn_request_metadata r' = rn_request_metadata r
         \<and> rn_snapshot r' = rn_snapshot r)"
  using assms
proof (cases rule: store_update_run_cases)
  case (unchanged e)
  then show ?thesis by simp
next
  case (updated r)
  then show ?thesis by (auto simp: updated_run_def)
qed

lemma sample_update_ok: "update_params_ok sample_update"
  by (simp add: update_params_ok_def sample_update_def validate_run_status_def run_status_defs
      sample_trims zero_time_def)

theorem update_run_exact_witness:
  "\<exists>r'. store_lookup (snd (store_update_run sample_update sample_store)) ''run_1'' = Some r'
    \<and> rn_status r' = ''succeeded'' \<and> rn_action_name r' = ''deploy''"
proof -
  have id: "up_id sample_update = ''run_1''" "up_status sample_update = ''succeeded''"
    by (simp_all add: sample_update_def run_status_defs)
  let ?s' = "snd (store_update_run sample_update sample_store)"
  have none: "fst (store_update_run sample_update sample_store) = None"
    by (rule store_update_run_ok [OF sample_store_facts(1) sample_store_created(2) sample_update_ok])
      (simp add: sample_store_facts id)
  have "\<exists>r r'. store_lookup sample_store (up_id sample_update) = Some r
      \<and> store_lookup ?s' = (store_lookup sample_store)(up_id sample_update \<mapsto> r')
      \<and> rn_status r' = up_status sample_update \<and> rn_action_name r' = rn_action_name r"
    using update_run_exact [OF sample_store_facts(1) surjective_pairing, of sample_update]
    unfolding none option.case by blast
  then obtain r' where "store_lookup ?s' ''run_1'' = Some r'" "rn_status r' = ''succeeded''"
      "rn_action_name r' = rn_action_name (created_run 0 sample_create)"
    unfolding id sample_store_facts by auto
  then show ?thesis by (simp add: created_run_def sample_create_def)
qed

subsection \<open>Listing runs\<close>

text \<open>
  C21: a listing answers exactly the stored runs that match the trimmed filter, each once, newest
  first with ties broken by id, and changes nothing.
\<close>

theorem list_runs_exact:
  assumes "store_inv s" and "store_list_runs f s = (Inr runs, s')"
  shows "store_lookup s' = store_lookup s
    \<and> set runs = {r. store_lookup s (rn_id r) = Some r
        \<and> run_matches (trim_space (ff_action_name f)) (trim_space (ff_status f)) r}
    \<and> sorted_wrt newer_run runs \<and> distinct (map rn_id runs)"
  using store_list_runs_Inr [OF assms] store_lookup_tables by blast

theorem list_runs_exact_witness:
  "\<exists>runs. store_list_runs \<lparr>ff_action_name = [], ff_status = []\<rparr> sample_store = (Inr runs, sample_store)
    \<and> set runs = {created_run 0 sample_create}"
proof -
  let ?f = "\<lparr>ff_action_name = [], ff_status = []\<rparr>"
  obtain runs where op: "store_list_runs ?f sample_store = (Inr runs, sample_store)"
    by (rule store_list_runs_ok [OF sample_store_facts(1) sample_store_created(2), of ?f]) simp_all
  have "set runs = {r. store_lookup sample_store (rn_id r) = Some r \<and> run_matches [] [] r}"
    using list_runs_exact [OF sample_store_facts(1) op] by simp
  also have "\<dots> = {created_run 0 sample_create}"
    by (auto simp: sample_store_facts run_matches_def created_run_def sample_create_def split: if_splits)
  finally show ?thesis using op by blast
qed

subsection \<open>Retention\<close>

text \<open>
  C5: a successful retention pass keeps what it may not delete and deletes no more than it must:
  running runs stay; no run is added or altered; nothing that is kept is past the age limit; at most \<open>MaxRuns\<close> finished
  runs are left; a deleted run was past the age limit or the count limit is used up, and every
  finished run that is kept is newer than every deleted one; the reported count is exact.
\<close>

theorem apply_retention_exact:
  assumes "store_inv s" and "store_apply_retention now p s = (Inr res, s')"
  shows "store_inv s'
    \<and> (\<forall>i r. store_lookup s' i = Some r \<longrightarrow> store_lookup s i = Some r \<and> \<not> run_aged now p r)
    \<and> (\<forall>i r. store_lookup s i = Some r \<and> rn_status r = run_status_running \<longrightarrow>
          store_lookup s' i = Some r)
    \<and> (0 < rp_max_runs p \<longrightarrow> int (card (finished_ids s')) \<le> rp_max_runs p)
    \<and> (\<forall>i r. store_lookup s i = Some r \<and> store_lookup s' i = None \<longrightarrow>
          run_aged now p r
          \<or> 0 < rp_max_runs p \<and> int (card (finished_ids s')) = rp_max_runs p)
    \<and> (\<forall>i r k rk. store_lookup s i = Some r \<and> store_lookup s' i = None
          \<and> store_lookup s' k = Some rk \<and> rn_status rk \<noteq> run_status_running \<longrightarrow> newer_run rk r)
    \<and> rs_deleted_runs res = card (dom (store_lookup s) - dom (store_lookup s'))"
  using retention_facts [OF assms] by blast

theorem apply_retention_exact_witness:
  "\<exists>res s'. store_apply_retention 5 \<lparr>rp_max_age = 1, rp_max_runs = 1\<rparr> sample_store = (Inr res, s')
    \<and> store_lookup s' ''run_1'' = Some (created_run 0 sample_create)"
proof -
  let ?p = "\<lparr>rp_max_age = 1, rp_max_runs = 1\<rparr>"
  obtain res s' where op: "store_apply_retention 5 ?p sample_store = (Inr res, s')"
    by (rule store_apply_retention_ok [OF sample_store_created(2), of ?p 5]) simp_all
  have "\<forall>i r. store_lookup sample_store i = Some r \<and> rn_status r = run_status_running \<longrightarrow>
      store_lookup s' i = Some r"
    using apply_retention_exact [OF sample_store_facts(1) op] by blast
  then have "store_lookup s' ''run_1'' = Some (created_run 0 sample_create)"
    by (simp add: sample_store_facts created_run_def sample_create_def)
  with op show ?thesis by blast
qed

text \<open>
  A retention pass that fails leaves the tables as they were: the deletions are rolled back
  with the transaction. A policy with a negative limit is refused before any driver call.
\<close>

theorem apply_retention_rollback:
  assumes "store_apply_retention now p s = (Inl e, s')"
  shows "st_tables s' = st_tables s
    \<and> (rp_max_age p < 0 \<or> rp_max_runs p < 0 \<longrightarrow> errors_is e ErrInvalidRetention \<and> s' = s)"
  using assms store_apply_retention_Inl [OF assms]
  by (auto simp: store_apply_retention_def)

theorem apply_retention_rollback_witness:
  "st_tables (snd (store_apply_retention 5 \<lparr>rp_max_age = -1, rp_max_runs = 0\<rparr> sample_store))
     = st_tables sample_store"
proof -
  let ?p = "\<lparr>rp_max_age = -1, rp_max_runs = 0\<rparr>"
  obtain e s' where op: "store_apply_retention 5 ?p sample_store = (Inl e, s')"
    by (simp add: store_apply_retention_def)
  from apply_retention_rollback [OF op] op show ?thesis by simp
qed


text \<open>
  The time of the last retention pass survives its way through the metadata table as a
  decimal string: after a pass at \<open>now\<close>, \<open>LastRetentionPruneAt\<close> answers \<open>now\<close>.
\<close>

theorem last_retention_prune_at_roundtrip:
  assumes "store_inv s" and "store_apply_retention now p s = (Inr res, s')" and "int64_range now"
    and "st_faults s' = []"
  shows "store_last_retention_prune_at s' = (Inr (Some now), s')"
  using assms by (rule store_last_prune_after)

theorem last_retention_prune_at_roundtrip_witness:
  "\<exists>s'. store_last_retention_prune_at s' = (Inr (Some 5), s')
    \<and> s' = snd (store_apply_retention 5 \<lparr>rp_max_age = 0, rp_max_runs = 0\<rparr> sample_store)"
proof -
  let ?p = "\<lparr>rp_max_age = 0, rp_max_runs = 0\<rparr>"
  obtain res s' where op: "store_apply_retention 5 ?p sample_store = (Inr res, s')" "st_faults s' = []"
    by (rule store_apply_retention_ok [OF sample_store_created(2), of ?p 5]) simp_all
  have "store_last_retention_prune_at s' = (Inr (Some 5), s')"
    by (rule last_retention_prune_at_roundtrip [OF sample_store_facts(1) op(1) _ op(2)])
      (simp add: int64_range_def)
  with op(1) show ?thesis by simp
qed

end
