(* ===== verification/Exec_Properties.thy ===== *)
theory Exec_Properties
  imports Exec_Machine Samples Store_Properties
begin

section \<open>Properties of the execution service\<close>

text \<open>
  The properties of \<open>internal/execution\<close> on the SQLite store, through the interpretation of
  the \<open>run_store\<close> contract, with an instance of each on the sample configuration.
\<close>

subsection \<open>A sample host\<close>

definition sample_script :: process_script where
  "sample_script =
     \<lparr>os_start_error = None, os_stdout = [''abc'', ''de''], os_stderr = [],
      os_select = Wait_First, os_kill_group = Kill_Ok, os_kill_process = Kill_Ok,
      os_wait_error = None, os_process_state = Some 0, os_exec_ctx_error = None,
      os_run_ctx_error = None\<rparr>"

definition sample_host :: host where
  "sample_host =
     \<lparr>h_path = None, h_is_print = (\<lambda>_. True), h_spawn = (\<lambda>_. sample_script),
      h_random = Inr (replicate 16 (CHR ''A'')), h_created_at = 1000, h_finished_at = 2000,
      h_request_time = 1500000\<rparr>"

lemma sample_host_simps [simp]:
  "h_spawn sample_host spec = sample_script" "h_finished_at sample_host = 2000"
  "h_random sample_host = Inr (replicate 16 (CHR ''A''))" "h_created_at sample_host = 1000"
  "os_start_error sample_script = None" "os_stdout sample_script = [''abc'', ''de'']"
  "os_stderr sample_script = []" "os_select sample_script = Wait_First"
  "os_wait_error sample_script = None" "os_process_state sample_script = Some 0"
  "ac_max_output_bytes sample_action = 4"
  by (simp_all add: sample_host_def sample_script_def sample_action_def)

definition sample_registry :: action_registry where
  "sample_registry = registry_of [sample_action]"

definition sample_service :: "store service" where
  "sample_service = new_service (Some (store_ops 0)) sample_registry"

definition sample_params :: invoke_params where
  "sample_params =
     \<lparr>iv_action_name = ''deploy'', iv_mode = ''async'', iv_input = [], iv_request_metadata = [],
      iv_request_id = []\<rparr>"

lemma sample_registry_get:
  "registry_get sample_registry n = (if n = ''deploy'' then Some sample_action else None)"
proof -
  have "registry_get sample_registry n = Some a \<longleftrightarrow> a = sample_action \<and> n = ''deploy''" for a
    using registry_get_of [of "[sample_action]" n a]
    by (auto simp: sample_registry_def sample_action_def gomap_wf_def)
  then show ?thesis by (cases "registry_get sample_registry n") auto
qed

lemma sample_registry_wf: "registry_wf sample_registry"
  by (simp add: registry_wf_def sample_registry_get) (simp add: sample_action_def)

lemma initial_machine:
  "store_inv s \<Longrightarrow> machine_inv store_inv store_lookup reg (new_exec_state s, [])"
  by (simp add: machine_inv_def flags_inv_def jobs_inv_def new_exec_state_def)

lemma sample_reject:
  "registry_get sample_registry ''deploy'' = Some sample_action"
  "ac_concurrency_policy sample_action = ''reject''" "is_enabled sample_action"
  "ac_name sample_action = ''deploy''"
  by (simp_all add: sample_registry_get) (simp_all add: sample_action_def is_enabled_def)

text \<open>One invocation of the sample action that has been admitted.\<close>

lemma sample_admitted:
  "(machine_step (store_ops 0) sample_registry)\<^sup>*\<^sup>* (new_exec_state empty_store, [])
     ((new_exec_state empty_store)\<lparr>xs_reject_running := {''deploy''}\<rparr>,
      [Admitted (Some ''deploy'') sample_action [] [] []])"
proof -
  let ?x = "(new_exec_state empty_store)\<lparr>xs_reject_running := {''deploy''}\<rparr>"
  let ?t = "Admitted (Some ''deploy'') sample_action [] [] []"
  have "begin_reject_action (ac_name sample_action) (new_exec_state empty_store) = (True, ?x)"
    by (simp add: begin_reject_action_def new_exec_state_def sample_reject)
  then have "exec_step (store_ops 0) sample_registry (new_exec_state empty_store, []) (?x, [] @ [?t])"
    using admit_reject [OF sample_reject(1,3,2), where ts = "[]" and input = "[]" and md = "[]" and rid = "[]"
      and ops = "store_ops 0"] by (simp only: sample_reject)
  then show "(machine_step (store_ops 0) sample_registry)\<^sup>*\<^sup>* (new_exec_state empty_store, []) (?x, [?t])"
    by (simp add: exec r_into_rtranclp)
qed

subsection \<open>Concurrency\<close>

text \<open>
  C2: with the policy reject, at most one process of an action runs at any time: in every state
  reachable from a fresh start, through any interleaving of invocations, store failures, process outcomes
  and restarts, the jobs in flight for such an action are at most one, and while there is one
  its flag is set, so that a further invocation is refused.
\<close>

theorem reject_runs_one_at_a_time:
  assumes "store_inv s" and "registry_wf reg"
    and "(machine_step (store_ops now) reg)\<^sup>*\<^sup>* (new_exec_state s, []) (x, ts)"
    and "registry_get reg n = Some a" and "ac_concurrency_policy a = ''reject''"
  shows "length (filter (\<lambda>j. rn_action_name (jb_run j) = n) (jobs_of ts)) \<le> 1
    \<and> (\<forall>j \<in> set (jobs_of ts). rn_action_name (jb_run j) = n \<longrightarrow>
          fst (begin_reject_action n x) = False)"
proof
  have m: "machine_inv store_inv store_lookup reg (x, ts)"
    using sqlite.machine_reachable [OF assms(3) initial_machine [OF assms(1)] assms(2)] by simp
  show "length (filter (\<lambda>j. rn_action_name (jb_run j) = n) (jobs_of ts)) \<le> 1"
    by (rule reject_exclusive [OF m assms(2,4,5)])
  show "\<forall>j \<in> set (jobs_of ts). rn_action_name (jb_run j) = n \<longrightarrow>
      fst (begin_reject_action n x) = False"
  proof (intro ballI impI)
    fix j
    assume j: "j \<in> set (jobs_of ts)" "rn_action_name (jb_run j) = n"
    then have "Executing j \<in> set ts" by (simp add: jobs_of_in)
    moreover from this have "thread_ok reg (Executing j)" using m by (auto simp: machine_inv_def)
    then have "jb_on_finish j = Some n"
      using j(2) assms(2,4,5) by (simp add: flag_of_def registry_wf_def)
    ultimately have "n \<in> xs_reject_running x"
      using held_flags [of "Executing j" ts n] machine_inv_flags [OF m] by (simp add: flags_inv_def)
    then show "fst (begin_reject_action n x) = False" by (simp add: begin_reject_action_def)
  qed
qed

theorem reject_runs_one_at_a_time_witness:
  "\<exists>x ts. (machine_step (store_ops 0) sample_registry)\<^sup>*\<^sup>* (new_exec_state empty_store, []) (x, ts)
    \<and> ts \<noteq> []
    \<and> length (filter (\<lambda>j. rn_action_name (jb_run j) = ''deploy'') (jobs_of ts)) \<le> 1"
proof -
  let ?x = "(new_exec_state empty_store)\<lparr>xs_reject_running := {''deploy''}\<rparr>"
  let ?t = "Admitted (Some ''deploy'') sample_action [] [] []"
  have r: "(machine_step (store_ops 0) sample_registry)\<^sup>*\<^sup>* (new_exec_state empty_store, []) (?x, [?t])"
    by (rule sample_admitted)
  show ?thesis
    using r reject_runs_one_at_a_time [OF empty_store_inv sample_registry_wf r sample_reject(1,2)]
    by (intro exI [of _ ?x] exI [of _ "[?t]"]) simp
qed





text \<open>The steps of the invocations that are in flight: every step but the admission of another.\<close>

definition settling_step :: "'s run_store_ops \<Rightarrow> action_registry \<Rightarrow> 's machine \<Rightarrow> 's machine \<Rightarrow> bool" where
  "settling_step ops reg m m' \<longleftrightarrow> exec_step ops reg m m' \<and> length (snd m') \<le> length (snd m)"

fun thread_work :: "thread \<Rightarrow> nat" where
  "thread_work (Admitted f a input md rid) = 3"
| "thread_work (Executing j) = 2"
| "thread_work (Releasing f) = 1"

definition work :: "thread list \<Rightarrow> nat" where
  "work ts = sum_list (map thread_work ts)"

lemma work_bound: "work ts \<le> 3 * length ts"
proof (induction ts)
  case (Cons t ts)
  then show ?case by (cases t) (simp_all add: work_def)
qed (simp add: work_def)

lemma settling_step_work: "settling_step ops reg m m' \<Longrightarrow> work (snd m') < work (snd m)"
  unfolding settling_step_def by (cases m, elim conjE) (auto elim!: exec_stepE simp: work_def)

lemma settling_steps_bound:
  "(settling_step ops reg ^^ n) m m' \<Longrightarrow> n + work (snd m') \<le> work (snd m)"
proof (induction n arbitrary: m')
  case (Suc n)
  then obtain k where k: "(settling_step ops reg ^^ n) m k" "settling_step ops reg k m'" by auto
  from Suc.IH [OF k(1)] settling_step_work [OF k(2)] show ?case by simp
qed simp

lemma settling_steps_exec: "(settling_step ops reg ^^ n) m m' \<Longrightarrow> (exec_step ops reg)\<^sup>*\<^sup>* m m'"
proof (induction n arbitrary: m')
  case (Suc n)
  then show ?case by (auto simp: settling_step_def intro: rtranclp.rtrancl_into_rtrancl)
qed simp

text \<open>As long as an invocation is in flight, it can go on.\<close>

lemma settling_step_exists: "\<exists>m. settling_step ops reg (x, t # ts) m"
proof (cases t)
  case (Admitted f a input md rid)
  obtain res s' where cr: "create_run ops undefined a run_status_running md True (xs_store x) = (res, s')"
    by fastforce
  show ?thesis
  proof (cases res)
    case (Inl e)
    from create_failed [OF cr [unfolded Inl], of reg "[]" f input rid ts] Admitted show ?thesis
      by (force simp: settling_step_def)
  next
    case (Inr r)
    from create [OF cr [unfolded Inr], of reg "[]" f input rid ts] Admitted show ?thesis
      by (force simp: settling_step_def)
  qed
next
  case (Executing j)
  obtain res s' where "execute ops undefined Background (jb_run j) (jb_action j) (jb_input j)
      (jb_request_id j) (xs_store x) = (res, s')" by fastforce
  from finish [OF this, of reg "[]" ts] Executing show ?thesis by (force simp: settling_step_def)
next
  case (Releasing f)
  from release [of ops reg x "[]" f ts] Releasing show ?thesis by (force simp: settling_step_def)
qed

text \<open>
  C12: invocations terminate: however the steps of the invocations in flight interleave and
  whatever fails in them, there are at most three steps per invocation; and when no such step is
  left, no invocation is in flight and no action is marked as running.
\<close>

theorem invocations_terminate:
  assumes "store_inv s" and "registry_wf reg"
    and "(machine_step (store_ops now) reg)\<^sup>*\<^sup>* (new_exec_state s, []) (x, ts)"
    and "(settling_step (store_ops now) reg ^^ n) (x, ts) (x', ts')"
  shows "n \<le> 3 * length ts
    \<and> ((\<nexists>m. settling_step (store_ops now) reg (x', ts') m) \<longrightarrow> ts' = [] \<and> xs_reject_running x' = {})"
proof -
  have m: "machine_inv store_inv store_lookup reg (x, ts)"
    using sqlite.machine_reachable [OF assms(3) initial_machine [OF assms(1)] assms(2)] by simp
  have "n \<le> 3 * length ts"
    using settling_steps_bound [OF assms(4)] work_bound [of ts] by simp
  moreover have "flags_inv (x', ts')"
    by (rule flags_inv_steps [OF settling_steps_exec [OF assms(4)] machine_inv_flags [OF m]])
  ultimately show ?thesis
    using settling_step_exists [of "store_ops now" reg x'] by (cases ts') (auto simp: flags_inv_def)
qed

theorem invocations_terminate_witness:
  "\<exists>x ts m. (machine_step (store_ops 0) sample_registry)\<^sup>*\<^sup>* (new_exec_state empty_store, []) (x, ts)
     \<and> length ts = 1 \<and> settling_step (store_ops 0) sample_registry (x, ts) m
     \<and> (1 :: nat) \<le> 3 * length ts"
proof -
  let ?x = "(new_exec_state empty_store)\<lparr>xs_reject_running := {''deploy''}\<rparr>"
  let ?t = "Admitted (Some ''deploy'') sample_action [] [] []"
  have r: "(machine_step (store_ops 0) sample_registry)\<^sup>*\<^sup>* (new_exec_state empty_store, []) (?x, [?t])"
    by (rule sample_admitted)
  obtain x' ts' where st: "settling_step (store_ops 0) sample_registry (?x, [?t]) (x', ts')"
    using settling_step_exists by (metis surj_pair)
  then have "(settling_step (store_ops 0) sample_registry ^^ 1) (?x, [?t]) (x', ts')"
    by (simp only: relpowp_1)
  from invocations_terminate [OF empty_store_inv sample_registry_wf r this] r st show ?thesis
    by (metis length_Cons list.size(3) One_nat_def)
qed




subsection \<open>Processes\<close>

text \<open>
  C10: what is recorded of a process that was started: succeeded exactly when \<open>Wait\<close> reported no
  error; timed out exactly when the runner interrupted it at its own deadline, while the caller was still
  there, and the process left no exit code; cancelled when it was interrupted otherwise; failed
  in the remaining cases; with the exit code of the process, and the last bytes of
  each output stream.
\<close>

theorem execute_records_process:
  assumes "store_inv s" and "build_command a = Inr argv"
    and "os = h_spawn h (process_spec_of h ctx argv r a input rid)" and "os_start_error os = None"
    and "execute (store_ops now) h ctx r a input rid s = (Inr run, s')"
  shows "store_lookup s' (rn_id r) = Some run
    \<and> (rn_status run = run_status_succeeded \<longleftrightarrow> os_wait_error os = None)
    \<and> (rn_status run = run_status_timed_out \<longleftrightarrow>
         was_interrupted os \<and> 0 < ac_timeout a
         \<and> os_exec_ctx_error os = Some Ctx_Deadline_Exceeded \<and> os_run_ctx_error os = None)
    \<and> (rn_status run = run_status_cancelled \<longleftrightarrow>
         was_interrupted os \<and> rn_status run \<noteq> run_status_timed_out)
    \<and> (rn_status run = run_status_failed \<longleftrightarrow>
         os_wait_error os \<noteq> None \<and> \<not> was_interrupted os)
    \<and> rn_exit_code run = process_exit_code (os_process_state os)
    \<and> rn_stdout_tail run = last_bytes (ac_max_output_bytes a) (concat (os_stdout os))
    \<and> rn_stderr_tail run = last_bytes (ac_max_output_bytes a) (concat (os_stderr os))
    \<and> rn_timed_out run = (rn_status run = run_status_timed_out)"
proof -
  have last: "captured n chunks = last_bytes n (concat chunks)" for n chunks
    using tail_write_all_refines [OF new_tail_buffer_inv, of n chunks]
    by (simp add: captured_def tail_string_def) (simp add: new_tail_buffer_def)
  have out: "execution_outcome h ctx r a input rid =
      (if was_interrupted os then (interrupted_outcome h a os, kill_error os)
       else (completed_outcome h a os, None))"
    using assms(2-4) by (simp add: execution_outcome_def Let_def)
  from assms(1,5) show ?thesis
  proof (cases rule: sqlite.execute_cases)
    case (recorded stored status result kill_err)
    then have run: "run = finished_run r status result stored" "store_lookup s' (rn_id r) = Some run"
      by simp_all
    show ?thesis
    proof (cases "was_interrupted os")
      case True
      then have w: "os_wait_error os \<noteq> None" "process_exit_code (os_process_state os) = None"
        by (simp_all add: was_interrupted_def)
      have "(status, result) = interrupted_outcome h a os" using recorded(3) out True by simp
      with True w run show ?thesis
        by (auto simp: interrupted_outcome_def interrupted_status_def last split: if_splits)
    next
      case False
      have "(status, result) = completed_outcome h a os" using recorded(3) out False by simp
      with False run show ?thesis
        by (auto simp: completed_outcome_def last Let_def split: if_splits)
    qed
  qed simp
qed

lemma sample_run_lookup:
  "store_lookup sample_store (rn_id (created_run 0 sample_create)) = Some (created_run 0 sample_create)"
  by (simp add: sample_store_facts sample_create_id)

lemma sample_build: "build_command sample_action = Inr [''echo'', ''hi'']"
  by (simp add: build_command_def sample_action_def)

lemma sample_started: "rn_started_at (created_run 0 sample_create) = Some 1000"
  by (simp add: created_run_def sample_create_def stored_time_id int64_range_def)

lemma terminal_status_valid: "terminal_status status \<Longrightarrow> validate_run_status status = None"
proof -
  assume t: "terminal_status status"
  then have "trim_space status = status"
    by (auto simp: terminal_status_def run_status_defs) (code_simp)+
  with t show ?thesis by (auto simp: validate_run_status_def terminal_status_def)
qed

text \<open>Recording the end of a stored run succeeds while the driver does not fail.\<close>

lemma finish_run_ok:
  assumes inv: "store_inv s" and faults: "st_faults s = []"
    and stored: "store_lookup s (rn_id r) \<noteq> None" and id: "trim_space (rn_id r) \<noteq> []"
    and times: "rn_started_at r \<noteq> Some zero_time" "pr_finished_at res \<noteq> zero_time"
    and status: "terminal_status status"
  shows "\<exists>run s'. finish_run (store_ops now) r status res s = (Inr run, s') \<and> st_faults s' = []"
proof -
  let ?p = "finish_params r status res"
  have ok: "update_params_ok ?p"
    using id times terminal_status_valid [OF status] by (simp add: update_params_ok_def finish_params_def)
  have up_id: "up_id ?p = rn_id r" by (simp add: finish_params_def)
  obtain s1 where up: "store_update_run ?p s = (None, s1)"
    using store_update_run_ok [OF inv faults ok] stored up_id
    by (cases "store_update_run ?p s") auto
  from inv up obtain r' where st: "store_inv s1" "store_lookup s1 (rn_id r) = Some r'"
    by (cases rule: store_update_run_cases) (auto simp: up_id)
  have f1: "st_faults s1 = []" by (rule store_update_run_faults [OF up faults])
  have "store_get_run (rn_id r) s1 = (Inr r', s1)"
    using store_get_run_ok [OF f1 id st(1)] st(2) by simp
  then show ?thesis using up f1 by (simp add: finish_run_def)
qed

lemma finish_sample_ok:
  assumes "terminal_status status"
  shows "\<exists>run s'. finish_run (store_ops 0) (created_run 0 sample_create) status
    \<lparr>pr_exit_code = c, pr_finished_at = 2000, pr_timed_out = t, pr_stdout_tail = out,
     pr_stderr_tail = err, pr_error_summary = summary\<rparr> sample_store = (Inr run, s')"
  using finish_run_ok [OF sample_store_facts(1) sample_store_created(2), of "created_run 0 sample_create"
      "\<lparr>pr_exit_code = c, pr_finished_at = 2000, pr_timed_out = t, pr_stdout_tail = out,
        pr_stderr_tail = err, pr_error_summary = summary\<rparr>" status 0] assms
  by (auto simp: sample_create_id sample_trims sample_started sample_store_facts zero_time_def)

lemma sample_executes:
  "\<exists>run s'. execute (store_ops 0) sample_host ctx (created_run 0 sample_create) sample_action [] []
     sample_store = (Inr run, s')"
proof -
  have "terminal_status run_status_succeeded" by (simp add: terminal_status_def)
  from finish_sample_ok [OF this, of "Some 0" False "captured 4 [''abc'', ''de'']" "captured 4 []" "[]"]
  show ?thesis
    by (auto simp: execute_outcome execution_outcome_def sample_build was_interrupted_def
        completed_outcome_def process_exit_code_def)
qed

theorem execute_records_process_witness:
  "\<exists>run s'. execute (store_ops 0) sample_host Request_Context (created_run 0 sample_create) sample_action [] []
     sample_store = (Inr run, s')
   \<and> rn_status run = ''succeeded'' \<and> rn_exit_code run = Some 0 \<and> rn_stdout_tail run = ''bcde''"
proof -
  obtain run s' where op: "execute (store_ops 0) sample_host Request_Context (created_run 0 sample_create)
      sample_action [] [] sample_store = (Inr run, s')"
    using sample_executes by blast
  have "os_start_error sample_script = None" by simp
  moreover have "sample_script = h_spawn sample_host (process_spec_of sample_host Request_Context [''echo'', ''hi'']
      (created_run 0 sample_create) sample_action [] [])"
    by simp
  ultimately have "rn_status run = run_status_succeeded \<longleftrightarrow> os_wait_error sample_script = None"
    and "rn_exit_code run = process_exit_code (os_process_state sample_script)"
    and "rn_stdout_tail run = last_bytes (ac_max_output_bytes sample_action) (concat (os_stdout sample_script))"
    using execute_records_process [OF sample_store_facts(1) sample_build _ _ op, of sample_script]
    by blast+
  with op show ?thesis
    by (intro exI [of _ run] exI [of _ s'])
      (simp add: run_status_defs process_exit_code_def last_bytes_def)
qed

text \<open>
  Whatever an execution answers or fails with, it can change only its own run; a run it
  answers is stored, terminal, and its two output tails are no longer than the action allows.
\<close>

theorem execute_bounded_and_local:
  assumes "store_inv s" and "execute (store_ops now) h ctx r a input rid s = (res, s')"
  shows "store_inv s' \<and> (\<forall>i. i \<noteq> rn_id r \<longrightarrow> store_lookup s' i = store_lookup s i)
    \<and> dom (store_lookup s') = dom (store_lookup s)
    \<and> (\<forall>run. res = Inr run \<longrightarrow> store_lookup s' (rn_id r) = Some run \<and> terminal_status (rn_status run)
        \<and> int (length (rn_stdout_tail run)) \<le> max 0 (ac_max_output_bytes a)
        \<and> int (length (rn_stderr_tail run)) \<le> max 0 (ac_max_output_bytes a))"
  using sqlite.execute_frame [OF assms] sqlite.execute_answer [OF assms(1)] assms(2) by blast

theorem execute_bounded_and_local_witness:
  "\<exists>run s'. execute (store_ops 0) sample_host Request_Context (created_run 0 sample_create) sample_action [] []
     sample_store = (Inr run, s') \<and> int (length (rn_stdout_tail run)) \<le> 4"
proof -
  obtain run s' where op: "execute (store_ops 0) sample_host Request_Context (created_run 0 sample_create)
      sample_action [] [] sample_store = (Inr run, s')"
    using sample_executes by blast
  from execute_bounded_and_local [OF sample_store_facts(1) op] op show ?thesis by auto
qed

subsection \<open>Contexts\<close>

text \<open>
  What the package \<open>context\<close> and \<open>net/http\<close> document: whether a context can end before its \<open>cancel\<close> is
  called, and whether it has a deadline (the context of a request has none).
\<close>

fun context_ends :: "go_context \<Rightarrow> bool" where
  "context_ends Background = False"
| "context_ends Request_Context = True"
| "context_ends (With_Cancel c) = context_ends c"
| "context_ends (With_Timeout c t) = True"

fun has_deadline :: "go_context \<Rightarrow> bool" where
  "has_deadline Background = False"
| "has_deadline Request_Context = False"
| "has_deadline (With_Cancel c) = has_deadline c"
| "has_deadline (With_Timeout c t) = True"

fun parent_context :: "go_context \<Rightarrow> go_context" where
  "parent_context (With_Cancel c) = c"
| "parent_context (With_Timeout c t) = c"
| "parent_context c = c"

text \<open>
  \<open>Done\<close> is closed only of a context that ends, and then \<open>Err\<close> is not nil; a deadline is exceeded
  only where there is one; a derived context is cancelled only with its parent; and a parent that
  does not end has no error.
\<close>

definition context_laws :: "host \<Rightarrow> bool" where
  "context_laws h \<longleftrightarrow>
     (\<forall>spec. let os = h_spawn h spec; c = pc_context spec in
        (os_select os = Interrupted \<longrightarrow> context_ends c \<and> os_exec_ctx_error os \<noteq> None)
        \<and> (os_exec_ctx_error os = Some Ctx_Deadline_Exceeded \<longrightarrow> has_deadline c)
        \<and> (os_exec_ctx_error os = Some Ctx_Canceled \<longrightarrow> context_ends (parent_context c))
        \<and> (\<not> context_ends (parent_context c) \<longrightarrow> os_run_ctx_error os = None))"

lemma background_interrupted:
  assumes "context_laws h" "os = h_spawn h (process_spec_of h Background argv r a input rid)"
    and "os_select os = Interrupted"
  shows "interrupted_status (os_exec_ctx_error os) (os_run_ctx_error os) (ac_timeout a)
      = (run_status_timed_out, ''process timed out after '' @ duration_string (ac_timeout a))
    \<and> 0 < ac_timeout a"
proof -
  let ?c = "execution_context Background (ac_timeout a)"
  have c: "pc_context (process_spec_of h Background argv r a input rid) = ?c"
    by (simp add: process_spec_of_def)
  have l: "context_ends ?c" "os_exec_ctx_error os \<noteq> None"
    "os_exec_ctx_error os = Some Ctx_Canceled \<Longrightarrow> context_ends (parent_context ?c)"
    "\<not> context_ends (parent_context ?c) \<Longrightarrow> os_run_ctx_error os = None"
    using assms(1,3) c unfolding context_laws_def assms(2) Let_def by metis+
  then have t: "0 < ac_timeout a" by (auto simp: execution_context_def split: if_splits)
  then have "\<not> context_ends (parent_context ?c)" by (simp add: execution_context_def)
  with l have "os_run_ctx_error os = None" "os_exec_ctx_error os \<noteq> Some Ctx_Canceled" by blast+
  with l(2) t show ?thesis
    by (cases "the (os_exec_ctx_error os)") (auto simp: interrupted_status_def)
qed

lemma background_outcome:
  assumes "context_laws h"
    and "execution_outcome h Background r a input rid = ((status, result), kill_err)"
  shows "status \<in> {run_status_succeeded, run_status_failed}
    \<or> status = run_status_timed_out \<and> 0 < ac_timeout a"
proof (cases "build_command a")
  case (Inl e)
  with assms(2) show ?thesis by (simp add: execution_outcome_def unstarted_outcome_def)
next
  case (Inr argv)
  define os where "os = h_spawn h (process_spec_of h Background argv r a input rid)"
  show ?thesis
  proof (cases "os_start_error os = None \<and> was_interrupted os")
    case True
    then have "os_select os = Interrupted" by (simp add: was_interrupted_def)
    from background_interrupted [OF assms(1) os_def this] True Inr assms(2) show ?thesis
      by (auto simp: execution_outcome_def os_def [symmetric] interrupted_outcome_def)
  next
    case False
    with Inr assms(2) show ?thesis
      by (auto simp: execution_outcome_def os_def [symmetric] unstarted_outcome_def
          completed_outcome_def Let_def split: option.splits if_splits)
  qed
qed

lemma run_job_store:
  "xs_store (run_job ops h j x) =
     snd (execute ops h Background (jb_run j) (jb_action j) (jb_input j) (jb_request_id j) (xs_store x))"
  by (simp add: run_job_def finish_reject_action_def Let_def split: option.split)

text \<open>
  C24: nobody but a restart cancels an asynchronous run: its goroutine runs under the background
  context, so that, with contexts that behave as documented, the run ends as succeeded, failed or,
  only when its action has a positive timeout, timed out (or stays as it was, when recording
  failed); the client going away does not matter.
\<close>

theorem async_run_not_cancelled:
  assumes "context_laws h" and "store_inv (xs_store x)"
    and "store_lookup (xs_store x) (rn_id (jb_run j)) = Some r"
    and "store_lookup (xs_store (run_job (store_ops now) h j x)) (rn_id (jb_run j)) = Some q"
  shows "q = r \<or> rn_status q \<in> {run_status_succeeded, run_status_failed}
    \<or> rn_status q = run_status_timed_out \<and> 0 < ac_timeout (jb_action j)"
proof -
  obtain res s' where ex: "execute (store_ops now) h Background (jb_run j) (jb_action j) (jb_input j)
      (jb_request_id j) (xs_store x) = (res, s')" by fastforce
  then have s': "xs_store (run_job (store_ops now) h j x) = s'" by (simp add: run_job_store)
  from assms(2) ex show ?thesis
  proof (cases rule: sqlite.execute_cases)
    case (unrecorded e)
    with assms(3,4) s' show ?thesis by simp
  next
    case (recorded stored status result kill_err)
    then have "rn_status q = status" using assms(4) s' by auto
    with background_outcome [OF assms(1) recorded(3)] show ?thesis by simp
  qed
qed

theorem async_run_not_cancelled_witness:
  "\<exists>q. store_lookup (xs_store (run_job (store_ops 0) sample_host
      \<lparr>jb_action = sample_action, jb_run = created_run 0 sample_create, jb_input = [],
       jb_request_id = [], jb_on_finish = None\<rparr> (new_exec_state sample_store))) ''run_1'' = Some q
    \<and> rn_status q \<noteq> ''cancelled''"
proof -
  let ?r = "created_run 0 sample_create" and ?x = "new_exec_state sample_store :: store exec_state"
  let ?j = "\<lparr>jb_action = sample_action, jb_run = ?r, jb_input = [], jb_request_id = [],
      jb_on_finish = None\<rparr>"
  have laws: "context_laws sample_host"
    by (simp add: context_laws_def sample_script_def sample_host_def)
  have x: "xs_store ?x = sample_store" by (simp add: new_exec_state_def)
  obtain q s' where ex: "execute (store_ops 0) sample_host Background ?r sample_action [] []
      sample_store = (Inr q, s')"
    using sample_executes by blast
  have q: "store_lookup s' (rn_id ?r) = Some q"
    using sqlite.execute_answer [OF sample_store_facts(1) ex] by blast
  have s': "xs_store (run_job (store_ops 0) sample_host ?j ?x) = s'"
    by (simp add: run_job_store x ex)
  have "rn_status ?r = run_status_running" by (simp add: sample_create_def run_status_defs)
  with async_run_not_cancelled [OF laws, of ?x ?j ?r 0 q] q sample_run_lookup sample_store_facts(1)
  have "rn_status q \<noteq> ''cancelled''" by (auto simp: x s' run_status_defs)
  with q show ?thesis by (simp add: s' sample_create_id)
qed

subsection \<open>Recovery\<close>

text \<open>
  C22: a recovery that succeeds leaves no run marked as running: every running run becomes
  cancelled with the restart summary, every other run is as it was, and no run appears or
  disappears. A recovery that fails may have cancelled only runs that were running.
\<close>

theorem recover_cancels_interrupted_runs:
  assumes "store_inv (xs_store x)" and "recover (new_service (Some (store_ops now)) reg) clock x = (res, x')"
  shows "store_inv (xs_store x')
    \<and> (res = None \<longrightarrow> (\<forall>i. recovered (store_lookup (xs_store x) i) (store_lookup (xs_store x') i))
        \<and> (\<forall>i r. store_lookup (xs_store x') i = Some r \<longrightarrow> rn_status r \<noteq> run_status_running))
    \<and> (\<forall>i. store_lookup (xs_store x') i = store_lookup (xs_store x) i
        \<or> (\<exists>r. store_lookup (xs_store x) i = Some r \<and> rn_status r = run_status_running))"
proof -
  have op: "cancel_interrupted_runs (store_ops now) clock (xs_store x) = (res, xs_store x')"
    using assms(2) by (auto simp: recover_def new_service_def split: prod.splits)
  note spec = sqlite.cancel_interrupted_runs_spec [OF assms(1) op]
  have "rn_status r \<noteq> run_status_running"
    if "res = None" "store_lookup (xs_store x') i = Some r" for i r
    using spec(3) [OF that(1), of i] that(2)
    by (auto simp: recovered_def split: option.splits if_splits)
  with spec show ?thesis by blast
qed

theorem recover_cancels_interrupted_runs_witness:
  "store_inv (xs_store (snd (recover sample_service (\<lambda>_. 3000) (new_exec_state sample_store))))"
proof -
  have "store_inv (xs_store (new_exec_state sample_store))"
    by (simp add: new_exec_state_def sample_store_facts)
  from recover_cancels_interrupted_runs [OF this surjective_pairing, of 0 sample_registry "\<lambda>_. 3000"]
  show ?thesis by (simp add: sample_service_def)
qed


subsection \<open>Invocations that are refused\<close>

text \<open>
  An invocation that is refused changes nothing: an unknown action, a disabled one, a payload
  or request metadata that is not JSON, an unknown mode, and a reject action that is running are
  all answered with an error, with the sentinel the HTTP layer looks for, before any run is
  created and without touching the flags.
\<close>

theorem invoke_refused:
  assumes "se_store v = Some ops" and "trim_space (iv_action_name p) = n" and "n \<noteq> []"
  shows "case registry_get (se_registry v) n of
      None \<Rightarrow> \<exists>e. invoke v h p x = (Inl e, x) \<and> errors_is e ErrActionNotFound
    | Some a \<Rightarrow>
        if \<not> is_enabled a
        then \<exists>e. invoke v h p x = (Inl e, x) \<and> errors_is e ErrActionDisabled
        else if iv_input p \<noteq> [] \<and> \<not> json_valid (iv_input p)
          \<or> iv_request_metadata p \<noteq> [] \<and> \<not> json_valid (iv_request_metadata p)
        then \<exists>e. invoke v h p x = (Inl e, x)
        else if trim_space (iv_mode p) \<notin> {[], ''sync'', ''async''}
        then \<exists>e. invoke v h p x = (Inl e, x) \<and> errors_is e ErrInvalidMode
        else ac_concurrency_policy a = ''reject'' \<and> ac_name a \<in> xs_reject_running x \<longrightarrow>
          (\<exists>e. invoke v h p x = (Inl e, x) \<and> errors_is e ErrActionConflict)"
  using assms
  by (auto simp: invoke_defs Let_def invoke_error_def validate_json_payload_def
      normalize_invoke_mode_def invoke_mode_sync_def invoke_mode_async_def invoke_reject_def
      begin_reject_action_def split: sum.split option.split)

theorem invoke_refused_witness:
  "\<exists>e. invoke sample_service sample_host sample_params
      ((new_exec_state empty_store)\<lparr>xs_reject_running := {''deploy''}\<rparr>)
    = (Inl e, (new_exec_state empty_store)\<lparr>xs_reject_running := {''deploy''}\<rparr>)
    \<and> errors_is e ErrActionConflict"
proof -
  have v: "se_store sample_service = Some (store_ops 0)"
    by (simp add: sample_service_def new_service_def)
  have n: "trim_space (iv_action_name sample_params) = ''deploy''"
    by (simp add: sample_params_def sample_trims)
  have "trim_space ''async'' = ''async''" by code_simp
  then have p: "iv_input sample_params = []" "iv_request_metadata sample_params = []"
    "trim_space (iv_mode sample_params) \<in> {[], ''sync'', ''async''}"
    by (simp_all add: sample_params_def)
  have "registry_get (se_registry sample_service) ''deploy'' = Some sample_action"
    by (simp add: sample_service_def new_service_def sample_reject)
  with p sample_reject show ?thesis
    using invoke_refused [OF v n, of sample_host
      "(new_exec_state empty_store)\<lparr>xs_reject_running := {''deploy''}\<rparr>"]
    by simp
qed

subsection \<open>The command and the environment\<close>

text \<open>
  C31: an action that comes out of a configuration file always has a command to run: the runner
  never fails to build one, and its argument vector is the configured command, or the shell with
  the configured command line.
\<close>

theorem loaded_action_has_command:
  assumes "load rf yd path = Inr c" and "a \<in> set (cf_actions c)"
  shows "build_command a =
    Inr (if uses_shell a then [''/bin/sh'', ''-c'', ac_shell_command a] else ac_command a)
    \<and> (\<not> uses_shell a \<longrightarrow> ac_command a \<noteq> [])"
proof -
  have "valid_action a"
    using load_valid [OF assms(1)] assms(2) by (simp add: valid_config_def valid_actions_def)
  moreover have "normalized a" by (rule load_actions_normalized [OF assms])
  ultimately show ?thesis
    by (auto simp: build_command_def uses_shell_def normalized_def valid_action_def shell_path_def
        action_mode_command_def action_mode_shell_def)
qed

theorem loaded_action_has_command_witness:
  "build_command sample_action = Inr [''echo'', ''hi'']"
proof -
  have "sample_action \<in> set (cf_actions sample_config)" by (simp add: sample_config_def)
  from loaded_action_has_command [OF sample_loads this] show ?thesis
    by (simp add: uses_shell_def sample_action_def action_mode_command_def action_mode_shell_def)
qed

text \<open>
  C29: the environment of a process is the configured one over the service's \<open>PATH\<close> (or the
  default when it is unset or blank), with the three \<open>MICROHOOK_\<close> variables set last, so that
  no configured value replaces them; it depends on the configured map alone, not on the order
  Go happens to visit it in.
\<close>

theorem build_env_exact:
  assumes "gomap_wf configured" and "gomap_wf configured'" and "map_of configured' = map_of configured"
  shows "build_env path configured' i n q = build_env path configured i n q
    \<and> set (build_env path configured i n q) =
        {k @ ''='' @ w |k w.
           (([''PATH'' \<mapsto> base_path path] ++ map_of configured)
              (''MICROHOOK_RUN_ID'' \<mapsto> i, ''MICROHOOK_ACTION'' \<mapsto> n, ''MICROHOOK_REQUEST_ID'' \<mapsto> q)) k
           = Some w}"
  using build_env_same_map [OF assms(2,1,3)]
  unfolding build_env_print print_env_set env_entries_lookup [OF assms(1)]
    env_run_id_def env_action_def env_request_id_def by blast

theorem build_env_exact_witness:
  "build_env None [(''A'', ''1''), (''B'', ''2'')] ''r'' ''n'' ''q''
   = build_env None [(''B'', ''2''), (''A'', ''1'')] ''r'' ''n'' ''q''"
proof -
  have "gomap_wf [(''B'', ''2''), (''A'', ''1'')]" "gomap_wf [(''A'', ''1''), (''B'', ''2'')]"
    "map_of [(''A'', ''1''), (''B'', ''2'')] = map_of [(''B'', ''2''), (''A'', ''1'')]"
    by (auto simp: gomap_wf_def fun_eq_iff)
  from build_env_exact [OF this] show ?thesis by blast
qed



lemma sample_create_run:
  assumes "md = [] \<or> json_valid md"
  shows "\<exists>r s'. create_run (store_ops 0) sample_host sample_action run_status_running md True empty_store
     = (Inr r, s')"
proof -
  obtain i where i: "generate_run_id (h_random sample_host) = Inr i"
    by (simp add: generate_run_id_def)
  let ?p = "create_params_of sample_host sample_action run_status_running md True i"
  have "trim_space i \<noteq> []" using run_id_graphic [OF i] by simp
  then have "create_params_ok 0 ?p"
    by (simp add: create_params_ok_def create_params_of_def validate_run_status_def
        validate_action_snapshot_def action_snapshot_from_config_def zero_time_def sample_reject
        run_status_defs sample_trims assms)
      (simp add: sample_action_def action_mode_command_def sample_trims)
  then have "\<exists>s'. store_create_run 0 ?p empty_store = (Inr (created_run 0 ?p), s') \<and> st_faults s' = []"
    by (intro store_create_run_ok empty_store_inv empty_store_lookup) (simp_all add: empty_store_def)
  then show ?thesis using i by (auto simp: create_run_def)
qed


subsection \<open>Flags and jobs of a whole call\<close>

definition call_releases ::
    "bool \<Rightarrow> 's exec_state \<Rightarrow> (go_error + run) \<Rightarrow> 's exec_state \<Rightarrow> bool" where
  "call_releases async x res x' \<longleftrightarrow>
     (case res of
        Inr r \<Rightarrow>
          if async
          then \<exists>j. xs_jobs x' = xs_jobs x @ [j] \<and> jb_run j = r
            \<and> xs_reject_running x' = xs_reject_running x \<union> set_option (jb_on_finish j)
            \<and> set_option (jb_on_finish j) \<inter> xs_reject_running x = {}
          else xs_reject_running x' = xs_reject_running x \<and> xs_jobs x' = xs_jobs x
      | Inl e \<Rightarrow> xs_reject_running x' = xs_reject_running x \<and> xs_jobs x' = xs_jobs x)"

lemma invoke_allow_releases:
  assumes "invoke_allow ops h a mode input md rid x = (res, x')"
  shows "call_releases (mode = invoke_mode_async) x res x'"
proof (cases "create_run ops h a run_status_running md True (xs_store x)")
  case (Pair c s')
  with assms show ?thesis
    by (cases c) (auto simp: invoke_allow_def start_async_invocation_def call_releases_def Let_def
        split: prod.splits if_splits sum.split)
qed

lemma invoke_reject_releases:
  assumes "invoke_reject ops h a mode input md rid x = (res, x')"
  shows "call_releases (mode = invoke_mode_async) x res x'"
proof (cases "ac_name a \<in> xs_reject_running x")
  case True
  with assms show ?thesis
    by (auto simp: invoke_reject_def begin_reject_action_def call_releases_def)
next
  case False
  show ?thesis
  proof (cases "create_run ops h a run_status_running md True (xs_store x)")
    case (Pair c s')
    with assms False show ?thesis
      by (cases c) (auto simp: invoke_reject_def begin_reject_action_def finish_reject_action_def
          start_async_invocation_def call_releases_def Let_def
          split: prod.splits if_splits sum.split)
  qed
qed

text \<open>
  A call of \<open>Invoke\<close> releases what it took on every path: after a synchronous call, and
  after every call that fails, the reject flags and the goroutines in flight are as before; an
  asynchronous call that succeeds leaves exactly one new goroutine, which holds the flag of a
  reject action until it ends.
\<close>

theorem invoke_releases_flag:
  assumes "invoke v h p x = (res, x')"
  shows "call_releases (trim_space (iv_mode p) = ''async'') x res x'"
proof -
  have mode: "(m = invoke_mode_async) = (trim_space (iv_mode p) = ''async'')"
    if "normalize_invoke_mode (iv_mode p) = Inr m" for m
    using that by (auto simp: normalize_invoke_mode_def invoke_mode_sync_def invoke_mode_async_def
        Let_def split: if_splits)
  consider e where "res = Inl e" "x' = x"
    | (allow) a ops m where "normalize_invoke_mode (iv_mode p) = Inr m"
        "invoke_allow ops h a m (clone_json (iv_input p)) (clone_json (iv_request_metadata p))
          (iv_request_id p) x = (res, x')"
    | (reject) a ops m where "normalize_invoke_mode (iv_mode p) = Inr m"
        "invoke_reject ops h a m (clone_json (iv_input p)) (clone_json (iv_request_metadata p))
          (iv_request_id p) x = (res, x')"
    using assms
    by (auto simp: invoke_defs Let_def simp del: clone_json_id
        split: if_splits option.splits sum.splits)
  then show ?thesis
  proof cases
    case 1
    then show ?thesis by (simp add: call_releases_def)
  next
    case (allow a ops m)
    show ?thesis using invoke_allow_releases [OF allow(2)] unfolding mode [OF allow(1)] .
  next
    case (reject a ops m)
    show ?thesis using invoke_reject_releases [OF reject(2)] unfolding mode [OF reject(1)] .
  qed
qed

theorem invoke_releases_flag_witness:
  "xs_reject_running (snd (invoke sample_service sample_host
     (sample_params\<lparr>iv_mode := ''sync''\<rparr>) (new_exec_state empty_store))) = {}"
proof -
  have "trim_space ''sync'' = ''sync''" by code_simp
  then show ?thesis
    using invoke_releases_flag [where v = sample_service and h = sample_host
        and p = "sample_params\<lparr>iv_mode := ''sync''\<rparr>" and x = "new_exec_state empty_store",
        OF surjective_pairing]
    by (simp add: new_exec_state_def call_releases_def split: sum.splits)
qed

text \<open>
  A run id is a non-blank string that trimming leaves alone, and different random bytes give different ids, so that two
  runs get the same id only if the random source repeats itself.
\<close>

theorem run_ids_unique:
  assumes "generate_run_id (Inr bs) = Inr i" and "generate_run_id (Inr bs') = Inr i'"
    and "length bs = length bs'"
  shows "(i = i' \<longleftrightarrow> bs = bs') \<and> trim_space i = i \<and> length i = 4 + 2 * length bs"
proof -
  have len: "length (concat (map (\<lambda>c. hex_digits 2 (byte_of c)) cs)) = 2 * length cs" for cs
    by (induction cs) (simp_all add: numeral_2_eq_2)
  show ?thesis
    using assms hex_bytes_inj [OF assms(3)] len [of bs] run_id_graphic [OF assms(1)]
    by (auto simp: generate_run_id_def)
qed

theorem run_ids_unique_witness:
  "(''run_4142'' = ''run_4143'') = (''AB'' = ''AC'')"
proof -
  have "generate_run_id (Inr ''AB'') = Inr ''run_4142''" "generate_run_id (Inr ''AC'') = Inr ''run_4143''"
    by code_simp+
  from run_ids_unique [OF this] show ?thesis by simp
qed

end
