(* ===== verification/Config_Properties.thy ===== *)
theory Config_Properties
  imports Auth Samples
begin

section \<open>Properties of the configuration and of authentication\<close>

text \<open>
  What a configuration that loads satisfies, what its registry finds, and who is
  authenticated by the service that is built from it.
\<close>

lemma sample_config_fields [simp]:
  "au_tokens (cf_auth sample_config) = [sample_token]" "cf_actions sample_config = [sample_action]"
  "tk_value sample_token = sample_token_value" "ac_name sample_action = ''deploy''"
  "ac_enabled sample_action"
  by (simp_all add: sample_config_def sample_token_def sample_action_def)

lemma normalized_distinct:
  "load rf yd path = Inr c \<Longrightarrow> distinct (map ac_name (cf_actions c))"
  by (drule load_valid) (simp add: valid_config_def valid_actions_def)

lemma normalized_env_wf:
  "load rf yd path = Inr c \<Longrightarrow> \<forall>a \<in> set (cf_actions c). gomap_wf (ac_env a)"
  using load_actions_normalized by (auto simp: normalized_def)

lemma accepts_configured:
  assumes s: "auth_new cfg = Inr s" and t: "t \<in> set (au_tokens cfg)" and sh: "token_shape (tk_value t)"
    and u: "\<forall>u \<in> set (au_tokens cfg). sha256 (tk_value u) = sha256 (tk_value t) \<longrightarrow> u = t"
  shows "authenticate_header s (''Bearer '' @ tk_value t) = Inr (new_identity t)"
proof -
  have ne: "tk_value t \<noteq> []" using sh by auto
  have "List.find (\<lambda>u. sha256 (tk_value u) = sha256 (tk_value t)) (au_tokens cfg) = Some t"
    using t u by (intro find_unique) simp_all
  then have "authenticate_token s (tk_value t) = Inr (new_identity t)"
    by (simp add: authenticate_configured [OF s ne])
  moreover have "parse_bearer_token (''Bearer '' @ tk_value t) = Inr (tk_value t)"
    by (rule parse_bearer_graphic [OF token_shape_graphic [OF sh] ne])
  ultimately show ?thesis by (simp add: authenticate_header_def)
qed

lemma sample_authenticates:
  "\<exists>s. auth_new (cf_auth sample_config) = Inr s
     \<and> authenticate_header s (''Bearer '' @ sample_token_value) = Inr (new_identity sample_token)"
  using valid_config_auth [OF sample_valid] accepts_configured [of "cf_auth sample_config" _ sample_token]
  by (simp add: sample_token_shape)

text \<open>
  C18: validation accepts exactly the configurations that meet the documented rules: no error is
  reported if and only if the server, the storage, every action and every token are valid, the
  names are distinct, and every token scope names configured actions.
\<close>

theorem validate_accepts_exactly_valid: "validate c = None \<longleftrightarrow> valid_config c"
  by (rule validate_nil_iff)

text \<open>
  Loading succeeds exactly when the file can be read and decoded, every action timeout is a
  duration and the normalised configuration is valid; what it answers is that configuration with
  the registry of its actions.
\<close>

theorem load_succeeds_iff:
  "load rf yd path = Inr c \<longleftrightarrow>
     (\<exists>data fc. rf path = Inr data \<and> yd data = Inr fc \<and> snd (normalize_config fc) = []
        \<and> valid_config (fst (normalize_config fc))
        \<and> c = (fst (normalize_config fc))
                 \<lparr>cf_registry := Some (registry_of (cf_actions (fst (normalize_config fc))))\<rparr>)"
  by (rule load_cases)

text \<open>
  C25: the timeouts of a loaded configuration are those of its file: no text means none; a text of
  whole numbers with units, such as 1h30m, means the sum of its terms; and every timeout fits
  64 bits, so that a file with a sum of \<open>2^63\<close> ns or more is not loaded at all.
\<close>

theorem configured_timeouts_exact:
  assumes "load rf yd path = Inr c" and "rf path = Inr data" and "yd data = Inr fc"
    and "i < length (fc_actions fc)"
  shows "let text = trim_space (fa_timeout (fc_actions fc ! i)); timeout = ac_timeout (cf_actions c ! i)
    in int64_range timeout \<and> (text = [] \<longrightarrow> timeout = 0)
      \<and> (\<forall>ts. terms_ok ts \<and> ts \<noteq> [] \<and> duration_total ts < 2 ^ 64 \<and> text = duration_text ts \<longrightarrow>
           timeout = duration_total ts)"
proof -
  let ?fa = "fc_actions fc ! i" and ?a = "cf_actions c ! i"
  note t = normalize_action_timeout [OF load_action_nth(2) [OF assms]]
  show ?thesis
  proof (cases "trim_space (fa_timeout ?fa) = []")
    case True
    moreover have "[] = duration_text ts \<longleftrightarrow> ts = []" for ts by (cases ts) auto
    ultimately show ?thesis using t by (simp add: int64_range_def)
  next
    case False
    with t have p: "parse_duration (trim_space (fa_timeout ?fa)) = Inr (ac_timeout ?a)" by simp
    have "ac_timeout ?a = duration_total ts"
      if "terms_ok ts \<and> ts \<noteq> [] \<and> duration_total ts < 2 ^ 64
        \<and> trim_space (fa_timeout ?fa) = duration_text ts" for ts
      using p parse_duration_text [of ts] that by (simp split: if_splits)
    with False parse_duration_range [OF p] show ?thesis by (simp add: Let_def)
  qed
qed

theorem configured_timeouts_exact_witness:
  "ac_timeout (cf_actions sample_config ! 0) = duration_total [(30, ''s'')]"
proof -
  have ts: "terms_ok [(30, ''s'')]" "duration_total [(30, ''s'')] < 2 ^ 64"
    by (simp_all add: ascii_units_def unit_nanoseconds_def duration_units_def)
  have "fa_timeout (fc_actions sample_file_config ! 0) = ''30s''"
    by (simp add: sample_file_config_def sample_file_action_def)
  moreover have "duration_text [(30, ''s'')] = ''30s''" by code_simp
  ultimately have "trim_space (fa_timeout (fc_actions sample_file_config ! 0)) = duration_text [(30, ''s'')]"
    by (simp add: sample_text_trims)
  moreover have "0 < length (fc_actions sample_file_config)" by (simp add: sample_file_config_def)
  ultimately show ?thesis
    using configured_timeouts_exact [OF sample_loads, of "[]" sample_file_config 0] ts
    unfolding Let_def by (simp only: sample_read_def sample_yaml_def) blast
qed

text \<open>
  The registry of a loaded configuration finds exactly the configured actions: looking up a
  name answers the action of that name, looking it up among the enabled ones answers it only if
  it is enabled, and the list of all actions is the configured list.
\<close>

theorem loaded_registry_exact:
  assumes "load rf yd path = Inr c"
  shows "(config_action c n = Some a \<longleftrightarrow> a \<in> set (cf_actions c) \<and> ac_name a = n)
    \<and> (config_enabled_action c n = Some a
         \<longleftrightarrow> a \<in> set (cf_actions c) \<and> ac_name a = n \<and> ac_enabled a)
    \<and> registry_all (config_action_registry c) = cf_actions c"
proof -
  let ?as = "cf_actions c"
  have r: "config_action_registry c = registry_of ?as"
    by (simp add: config_action_registry_def load_registry [OF assms])
  have "registry_all (registry_of ?as) = ?as"
    using normalized_env_wf [OF assms] by (simp add: registry_all_def registry_of_def map_idI)
  then show ?thesis
    using registry_get_of [OF normalized_distinct [OF assms] normalized_env_wf [OF assms]]
      registry_enabled_of [OF normalized_distinct [OF assms] normalized_env_wf [OF assms]]
    by (simp add: config_action_def config_enabled_action_def r)
qed

theorem loaded_registry_exact_witness:
  "config_action sample_config ''deploy'' = Some sample_action
   \<and> config_enabled_action sample_config ''deploy'' = Some sample_action"
  using loaded_registry_exact [OF sample_loads, of "''deploy''" sample_action] by simp



lemma authenticate_header_configured:
  assumes "auth_new cfg = Inr s" and "authenticate_header s h = Inr i"
  shows "\<exists>scheme v t. strings_fields h = [scheme, v] \<and> equal_fold scheme ''Bearer''
     \<and> t \<in> set (au_tokens cfg) \<and> sha256 (tk_value t) = sha256 v \<and> i = new_identity t"
proof -
  from assms(2) obtain v where v: "parse_bearer_token h = Inr v" "authenticate_token s v = Inr i"
    by (auto simp: authenticate_header_def split: sum.splits)
  then obtain scheme where "strings_fields h = [scheme, v]" "equal_fold scheme ''Bearer''"
    by (auto simp: parse_bearer_token_def split: list.splits if_splits)
  moreover obtain t where "t \<in> set (au_tokens cfg)" "sha256 (tk_value t) = sha256 v"
    "i = new_identity t"
    using v authenticate_configured [OF assms(1) parse_bearer_not_Nil [OF v(1)]]
    by (auto split: option.splits dest: find_SomeD)
  ultimately show ?thesis by blast
qed

text \<open>
  C6: a request is authenticated only by a header of exactly two words, the first of them
  \<open>Bearer\<close> up to case, whose second word has the digest of a configured token; the
  identity is that token's.
\<close>

theorem authenticated_only_by_configured_token:
  assumes "auth_new cfg = Inr s" and "authenticate_header s h = Inr i"
  shows "\<exists>scheme v t. strings_fields h = [scheme, v] \<and> equal_fold scheme ''Bearer''
     \<and> t \<in> set (au_tokens cfg) \<and> sha256 (tk_value t) = sha256 v \<and> i = new_identity t"
  by (rule authenticate_header_configured [OF assms])

theorem authenticated_only_by_configured_token_witness:
  "\<exists>scheme v. strings_fields (''Bearer '' @ sample_token_value) = [scheme, v]
     \<and> equal_fold scheme ''Bearer''"
proof -
  obtain s where "auth_new (cf_auth sample_config) = Inr s"
    "authenticate_header s (''Bearer '' @ sample_token_value) = Inr (new_identity sample_token)"
    using sample_authenticates by blast
  from authenticated_only_by_configured_token [OF this] show ?thesis by blast
qed

end
