(* ===== verification/Http_Properties.thy ===== *)
theory Http_Properties
  imports Http_Spec Http_Decode Exec_Properties Config_Properties
begin

section \<open>Properties of the HTTP API\<close>

text \<open>The runs that a response shows.\<close>

fun shown_runs :: "response_body \<Rightarrow> run_response list" where
  "shown_runs (Body_Run w) = [w]"
| "shown_runs (Body_Runs ws) = ws"
| "shown_runs _ = []"

text \<open>
  A response to a caller (None: nobody was authenticated) shows stored runs only, each of an
  action that the caller may access.
\<close>

definition shows_allowed :: "(string \<Rightarrow> run option) \<Rightarrow> identity option \<Rightarrow> http_response \<Rightarrow> bool" where
  "shows_allowed stored caller resp \<longleftrightarrow>
     (\<forall>w \<in> set (shown_runs (re_body resp)). \<exists>i q. caller = Some i
        \<and> identity_allows_action i (wr_action w) \<and> stored (wr_id w) = Some q
        \<and> w = new_run_response q)"

lemma new_run_response_columns [simp]:
  "wr_id (new_run_response q) = rn_id q" "wr_action (new_run_response q) = rn_action_name q"
  "wr_status (new_run_response q) = rn_status q"
  by (simp_all add: new_run_response_def)

lemma respond_simps [simp]:
  "re_body (respond w st b) = b" "re_status (respond w st b) = st"
  "hw_header (respond w st b) = hw_header w" "hw_log_state (respond w st b) = hw_log_state w"
  "hw_log (respond w st b) = hw_log w"
  by (simp_all add: respond_def)

lemma set_header_simps [simp]:
  "hw_header (set_header k v w) = AList.update k v (hw_header w)"
  "hw_log_state (set_header k v w) = hw_log_state w" "hw_log (set_header k v w) = hw_log w"
  by (simp_all add: set_header_def)

lemma log_request_simps [simp]:
  "re_body (log_request sv h rq resp) = re_body resp"
  "re_status (log_request sv h rq resp) = re_status resp"
  "hw_header (log_request sv h rq resp) = hw_header resp"
  "hw_log_state (log_request sv h rq resp) = hw_log_state resp"
  by (simp_all add: log_request_def)

lemma write_json_body [simp]:
  "re_body (write_json hdr st b) = b" "re_status (write_json hdr st b) = st"
  by (simp_all add: write_json_def)

lemma write_error_body [simp]:
  "shown_runs (re_body (write_json_error hdr st msg)) = []"
  "shown_runs (re_body (write_status_error hdr st)) = []"
  "shown_runs (re_body (write_unauthorized hdr)) = []"
  "shown_runs (re_body (write_invocation_error ip hdr e)) = []"
  "re_status (write_json_error hdr st msg) = st"
  "re_status (write_status_error hdr st) = st"
  "re_status (write_unauthorized hdr) = status_unauthorized"
  by (simp_all add: write_json_error_def write_status_error_def write_unauthorized_def
      write_invocation_error_def)

lemma write_invocation_error_status:
  "re_status (write_invocation_error ip hdr e)
     \<in> {status_not_found, status_conflict, status_bad_request, status_internal_server_error}"
  by (simp add: write_invocation_error_def)

lemma shows_none [simp]: "shown_runs (re_body resp) = [] \<Longrightarrow> shows_allowed st c resp"
  by (simp add: shows_allowed_def)

lemma authorize_action_iff:
  "authorize_action i n = None \<longleftrightarrow> identity_allows_action i (trim_space n)"
  by (simp add: authorize_action_def)

context run_api
begin

lemma list_runs_result:
  assumes runs: "sr_runs sv = Some \<lparr>rd_get_run = get, rd_list_runs = list\<rparr>"
    and ok: "ok x" and op: "list_runs sv ip rq caller hdr x = (resp, x')"
  shows "ok x' \<and> lookup x' = lookup x \<and> shows_allowed (lookup x') caller resp"
proof -
  let ?f = "\<lparr>ff_action_name = trim_space (header_get (rq_query rq) ''action''),
    ff_status = header_get (rq_query rq) ''status''\<rparr>"
  obtain res x1 where l: "list ?f x = (res, x1)" by fastforce
  note keep = list_keeps [OF ok l]
  show ?thesis
  proof (cases "\<exists>rs i. res = Inr rs \<and> caller = Some i \<and> request_identity sv caller = Some i")
    case False
    with op l keep ok runs show ?thesis
      by (auto simp: list_runs_def Let_def request_identity_def split: sum.splits option.splits if_splits)
  next
    case True
    then obtain rs i where r: "res = Inr rs" "caller = Some i" "request_identity sv caller = Some i"
      by blast
    have found: "\<And>q. q \<in> set rs \<Longrightarrow> lookup x (rn_id q) = Some q"
      using list_found [OF ok, of ?f rs x1] l r(1) by auto
    have glob: "id_global i \<Longrightarrow> identity_allows_action i n" for n
      by (simp add: identity_allows_action_def)
    show ?thesis
      using op l keep ok runs r found glob
      by (auto simp: list_runs_def Let_def shows_allowed_def split: if_splits)
  qed
qed

lemma get_run_result:
  assumes runs: "sr_runs sv = Some \<lparr>rd_get_run = get, rd_list_runs = list\<rparr>"
    and ok: "ok x" and op: "get_run sv caller i hdr x = (resp, x')"
  shows "ok x' \<and> lookup x' = lookup x \<and> shows_allowed (lookup x') caller resp"
proof -
  obtain res x1 where g: "get i x = (res, x1)" by fastforce
  note keep = get_keeps [OF ok g]
  have "res = Inr q \<Longrightarrow> lookup x (rn_id q) = Some q" for q
    using get_found [OF ok, of i q x1] lookup_id [OF ok, of i q] g by simp
  then show ?thesis
    using op g keep ok runs
    by (auto simp: get_run_def request_identity_def shows_allowed_def
        split: sum.splits option.splits if_splits)
qed

text \<open>An invocation reaches the invoker only for a caller who may access the action.\<close>

lemma invoke_action_result:
  assumes ex: "sr_exec sv = Some \<lparr>ai_has_action = has, ai_invoke = invoke_op\<rparr>"
    and ok: "ok x" and op: "invoke_action sv h rq caller name hdr x = (resp, x')"
  obtains (refused) "x' = x" "shown_runs (re_body resp) = []"
      "re_status resp \<notin> {status_ok, status_accepted}"
  | (called) i p res where "caller = Some i" "identity_allows_action i (trim_space name)"
      "has (trim_space name)" "trim_space (iv_action_name p) = trim_space name"
      "trim_space (iv_mode p) = iv_mode p" "iv_mode p = ''sync'' \<or> iv_mode p = ''async''"
      "invoke_op h p x = (res, x')"
      "invocation_effect lookup ok (trim_space name) (iv_mode p = ''async'') x res x'"
      "(case res of Inl e \<Rightarrow> (\<exists>hdr'. resp = write_invocation_error (h_is_print h) hdr' e)
        | Inr q \<Rightarrow> re_status resp = (if iv_mode p = ''async'' then status_accepted else status_ok)
            \<and> re_body resp = Body_Run (new_run_response q))"
proof (cases "has (trim_space name) \<and> (\<exists>i payload. request_identity sv caller = Some i
    \<and> authorize_action i (trim_space name) = None
    \<and> decode_invoke_action_request rq = Inr payload
    \<and> trim_space (ir_mode payload) \<in> {invoke_mode_sync, invoke_mode_async})")
  case False
  with op ex have "x' = x" "shown_runs (re_body resp) = []"
    "re_status resp \<notin> {status_ok, status_accepted}"
    by (auto simp: invoke_action_defs Let_def status_codes split: option.splits sum.splits if_splits)
  then show thesis by (rule refused)
next
  case True
  then obtain i payload where t: "has (trim_space name)" "request_identity sv caller = Some i"
    "authorize_action i (trim_space name) = None" "decode_invoke_action_request rq = Inr payload"
    "trim_space (ir_mode payload) \<in> {invoke_mode_sync, invoke_mode_async}"
    by blast
  define mode where "mode = trim_space (ir_mode payload)"
  define rid where "rid = extract_request_id rq (ir_input payload)"
  define p where "p = \<lparr>iv_action_name = trim_space name, iv_mode = mode, iv_input = ir_input payload,
      iv_request_metadata = marshal_request_metadata mode rid, iv_request_id = rid\<rparr>"
  obtain res x1 where inv: "invoke_op h p x = (res, x1)" by fastforce
  have m: "mode = ''sync'' \<or> mode = ''async''"
    using t(5) by (auto simp: mode_def invoke_mode_sync_def invoke_mode_async_def)
  have x': "x1 = x'" and resp: "(case res of
      Inl e \<Rightarrow> (\<exists>hdr'. resp = write_invocation_error (h_is_print h) hdr' e)
    | Inr q \<Rightarrow> re_status resp = (if mode = ''async'' then status_accepted else status_ok)
        \<and> re_body resp = Body_Run (new_run_response q))"
    using op ex t inv m unfolding p_def mode_def rid_def
    by (auto simp: invoke_action_defs Let_def invoke_mode_async_def invoke_mode_sync_def
        split: sum.splits if_splits)
  have p: "trim_space (iv_action_name p) = trim_space name" "iv_mode p = mode"
    "trim_space (iv_mode p) = iv_mode p"
    by (simp_all add: p_def mode_def)
  show thesis
  proof (rule called [of i p res])
    show "caller = Some i" using t(2) by (auto simp: request_identity_def split: if_splits)
    show "invocation_effect lookup ok (trim_space name) (iv_mode p = ''async'') x res x'"
      using invoked [OF ok inv] p by (simp add: x' invoke_mode_async_def)
    show "case res of Inl e \<Rightarrow> (\<exists>hdr'. resp = write_invocation_error (h_is_print h) hdr' e)
        | Inr q \<Rightarrow> re_status resp = (if iv_mode p = ''async'' then status_accepted else status_ok)
            \<and> re_body resp = Body_Run (new_run_response q)"
      using resp unfolding p(2) .
  qed (use t m inv x' p in \<open>simp_all add: authorize_action_iff\<close>)
qed

end

subsection \<open>The server of the program\<close>

definition caller_of :: "auth_service \<Rightarrow> http_request \<Rightarrow> identity option" where
  "caller_of a rq =
     (case authenticate_request a (rq_header rq) of Inl e \<Rightarrow> None | Inr i \<Rightarrow> Some i)"

text \<open>What the router answers by itself shows no run.\<close>

definition route_plain :: "http_route \<Rightarrow> bool" where
  "route_plain route \<longleftrightarrow>
     (\<forall>f hdr. route = Route_Unmatched f \<or> route = Route_V1 (V1_Unmatched f) \<longrightarrow>
        shown_runs (snd (snd (f hdr))) = [])"

lemma router_respond_plain [simp]:
  "shown_runs (re_body (router_respond f w)) = shown_runs (snd (snd (f (hw_header w))))"
  by (simp add: router_respond_def split_beta)

lemma shows_allowed_logged [simp]:
  "shows_allowed st c (log_request sv h rq resp) = shows_allowed st c resp"
  by (simp add: shows_allowed_def)

lemma apfst_eqD: "apfst f p = (r, x) \<Longrightarrow> \<exists>r0. p = (r0, x) \<and> r = f r0"
  by (cases p) auto

lemma api_server_logger [simp]: "sr_logger (api_server lg now reg a) = lg"
  by (simp add: api_server_def new_server_def)

lemma log_request_off [simp]: "sr_logger sv = None \<Longrightarrow> log_request sv h rq resp = resp"
  by (simp add: log_request_def)

lemma api_server_parts [simp]:
  "sr_auth (api_server lg now reg a) = Some a"
  "sr_exec (api_server lg now reg a) =
     Some \<lparr>ai_has_action = has_action (new_service (Some (store_ops now)) reg),
           ai_invoke = invoke (new_service (Some (store_ops now)) reg)\<rparr>"
  "sr_runs (api_server lg now reg a) =
     Some \<lparr>rd_get_run = (\<lambda>i. on_store (store_get_run i)),
           rd_list_runs = (\<lambda>f. on_store (store_list_runs f))\<rparr>"
  by (simp_all add: api_server_def new_server_def service_invoker_def store_reader_ops_def)

lemma serve_v1_route:
  "serve sv h (Route_V1 r) rq x =
     apfst (log_request sv h rq)
     (case sr_auth sv of
        None \<Rightarrow> (write_unauthorized (new_writer rq), x)
      | Some a \<Rightarrow>
          (case caller_of a rq of
             None \<Rightarrow> (write_unauthorized (new_writer rq), x)
           | Some i \<Rightarrow> serve_v1 sv h r rq (Some i) (new_writer rq) x))"
  by (simp add: serve_def observe_requests_def authenticate_def caller_of_def
      split: option.split sum.split)

text \<open>The cases of a request, down to the handler; \<open>r0\<close> is the response before it is logged.\<close>

lemma serve_cases:
  assumes "serve sv h route rq x = (resp, x')" "sr_auth sv = Some a"
  obtains (unserved) r0 where "resp = log_request sv h rq r0" "x' = x"
      "route_plain route \<Longrightarrow> shown_runs (re_body r0) = []"
  | (listed) i r0 where "resp = log_request sv h rq r0" "caller_of a rq = Some i"
      "route = Route_V1 V1_List_Runs"
      "list_runs sv (h_is_print h) rq (Some i) (new_writer rq) x = (r0, x')"
  | (got) i k r0 where "resp = log_request sv h rq r0" "caller_of a rq = Some i"
      "route = Route_V1 (V1_Get_Run k)" "get_run sv (Some i) k (new_writer rq) x = (r0, x')"
  | (invocation) i n r0 where "resp = log_request sv h rq r0" "caller_of a rq = Some i"
      "route = Route_V1 (V1_Invoke_Action n)"
      "invoke_action sv h rq (Some i) n (new_writer rq) x = (r0, x')"
proof (cases route)
  case Route_Healthz
  with assms(1) show thesis
    by (intro unserved) (auto simp: serve_def observe_requests_def healthz_def)
next
  case (Route_Unmatched f)
  with assms(1) show thesis
    by (intro unserved) (auto simp: serve_def observe_requests_def route_plain_def)
next
  case (Route_V1 r)
  show thesis
  proof (cases "caller_of a rq")
    case None
    with assms(1,2) Route_V1 show thesis
      by (intro unserved [of "write_unauthorized (new_writer rq)"]) (auto simp: serve_v1_route)
  next
    case (Some i)
    obtain r0 x1 where s: "serve_v1 sv h r rq (Some i) (new_writer rq) x = (r0, x1)" by fastforce
    with assms(1,2) Route_V1 Some have o: "resp = log_request sv h rq r0" "x1 = x'"
      by (simp_all add: serve_v1_route)
    show thesis
    proof (cases r)
      case (V1_Unmatched f)
      with s o Route_V1 show thesis
        by (intro unserved [of r0]) (auto simp: serve_v1_def route_plain_def)
    qed (use s o Some Route_V1 listed got invocation in \<open>auto simp: serve_v1_def\<close>)
  qed
qed

text \<open>Reading runs touches the driver alone.\<close>

lemma read_frame:
  assumes "state_ok reg x"
    and "list_runs (api_server lg now reg a) ip rq c w x = (resp, x')
      \<or> get_run (api_server lg now reg a) c k w x = (resp, x')"
  shows "\<exists>s'. x' = x\<lparr>xs_store := s'\<rparr> \<and> store_inv s' \<and> store_lookup s' = store_lookup (xs_store x)"
proof -
  have "\<exists>s'. x' = x\<lparr>xs_store := s'\<rparr>"
    using assms(2)
  proof
    assume "list_runs (api_server lg now reg a) ip rq c w x = (resp, x')"
    then have "x' = x \<or> (\<exists>s'. x' = x\<lparr>xs_store := s'\<rparr>)"
      by (auto simp: list_runs_def on_store_def Let_def split: option.splits sum.splits prod.splits
          if_splits)
    then show ?thesis by (metis exec_state.surjective exec_state.update_convs(1))
  qed (auto simp: get_run_def on_store_def Let_def split: option.splits sum.splits prod.splits if_splits)
  moreover have "state_ok reg x' \<and> state_lookup x' = state_lookup x"
    using assms(2)
  proof
    assume "list_runs (api_server lg now reg a) ip rq c w x = (resp, x')"
    from api.list_runs_result [OF api_server_parts(3) assms(1) this] show ?thesis by simp
  next
    assume "get_run (api_server lg now reg a) c k w x = (resp, x')"
    from api.get_run_result [OF api_server_parts(3) assms(1) this] show ?thesis by simp
  qed
  ultimately show ?thesis by (auto simp: state_ok_def state_lookup_def)
qed

text \<open>What a request may do to the state.\<close>

lemma serve_effect:
  assumes ok: "state_ok reg x" and plain: "route_plain route"
    and op: "serve (api_server lg now reg a) h route rq x = (resp, x')"
  shows "state_ok reg x' \<and> shows_allowed (state_lookup x') (caller_of a rq) resp
    \<and> (\<forall>k q. state_lookup x k = Some q \<longrightarrow> state_lookup x' k = Some q)"
  using op api_server_parts(1)
proof (cases rule: serve_cases)
  case unserved
  with ok plain show ?thesis by simp
next
  case (listed i)
  from api.list_runs_result [OF api_server_parts(3) ok listed(4)] listed(1,2) show ?thesis by auto
next
  case (got i k)
  from api.get_run_result [OF api_server_parts(3) ok got(4)] got(1,2) show ?thesis by auto
next
  case (invocation i n r0)
  from api_server_parts(2) ok invocation(4) show ?thesis
  proof (cases rule: api.invoke_action_result)
    case refused
    with ok invocation(1) show ?thesis by simp
  next
    case (called j p res)
    have e: "state_ok reg x'" "\<And>k q. state_lookup x k = Some q \<Longrightarrow> state_lookup x' k = Some q"
      "\<And>q. res = Inr q \<Longrightarrow> state_lookup x' (rn_id q) = Some q \<and> rn_action_name q = trim_space n"
      using called(8) by (auto simp: invocation_effect_def)
    have "shows_allowed (state_lookup x') (caller_of a rq) r0"
      using called(1,2,9) e(3) invocation(1,2)
      by (cases res) (auto simp: shows_allowed_def)
    with e invocation(1) show ?thesis by simp
  qed
qed

subsection \<open>Sample requests\<close>

definition sample_auth :: auth_service where
  "sample_auth = \<lparr>as_credentials = map credential_of [sample_token]\<rparr>"

definition sample_request :: http_request where
  "sample_request =
     \<lparr>rq_method = ''GET'', rq_path = ''/v1/runs'', rq_pattern = Some ''/v1/runs'', rq_header = [(''Authorization'', [''Bearer '' @ sample_token_value])],
      rq_query = [], rq_body = [], rq_body_broken = False\<rparr>"

definition anonymous_request :: http_request where
  "anonymous_request = sample_request\<lparr>rq_header := []\<rparr>"

abbreviation sample_state :: "store exec_state" where
  "sample_state \<equiv> new_exec_state empty_store"

lemma sample_header: "header_get (rq_header sample_request) ''Authorization''
    = ''Bearer '' @ sample_token_value"
  by (simp add: header_get_def sample_request_def)

lemma sample_caller: "caller_of sample_auth sample_request = Some (new_identity sample_token)"
proof -
  have "auth_new (cf_auth sample_config) = Inr sample_auth"
    using valid_config_auth [OF sample_valid] by (simp add: sample_auth_def)
  then have "authenticate_header sample_auth (''Bearer '' @ sample_token_value)
      = Inr (new_identity sample_token)"
    using sample_authenticates by auto
  then show ?thesis
    by (simp only: caller_of_def authenticate_request_def sample_header sum.case)
qed

lemma anonymous_caller: "caller_of a anonymous_request = None"
  by (simp add: strings_fields_def caller_of_def authenticate_request_def anonymous_request_def sample_request_def
      header_get_def authenticate_header_def parse_bearer_token_def)

lemma sample_identity_allows: "identity_allows_action (new_identity sample_token) ''deploy''"
  by (simp add: new_identity_allows sample_token_def)

lemma sample_state_ok: "state_ok sample_registry sample_state"
  by (simp add: state_ok_def new_exec_state_def empty_store_inv sample_registry_wf)

lemma sample_state_parts [simp]:
  "xs_store sample_state = empty_store" "st_faults empty_store = []"
  by (simp_all add: new_exec_state_def empty_store_def)

lemma state_lookup_sample [simp]: "state_lookup sample_state k = None"
  by (simp add: state_lookup_def empty_store_lookup)

lemma route_plain_routes [simp]:
  "route_plain Route_Healthz" "route_plain (Route_V1 V1_List_Runs)"
  "route_plain (Route_V1 (V1_Get_Run k))" "route_plain (Route_V1 (V1_Invoke_Action n))"
  by (simp_all add: route_plain_def)

subsection \<open>Properties\<close>

text \<open>
  C7: nothing leaks: whatever the route and the outcome, every run that a response shows is a
  stored run of an action that the authenticated caller may access, and is shown as stored;
  without an authenticated caller no run is shown.
\<close>

theorem serve_shows_only_allowed:
  assumes "state_ok reg x" and "route_plain route"
    and "serve (api_server lg now reg a) h route rq x = (resp, x')"
  shows "shows_allowed (state_lookup x') (caller_of a rq) resp"
  using serve_effect [OF assms] by simp

theorem serve_shows_only_allowed_witness:
  "\<exists>resp x'. serve (api_server None 0 sample_registry sample_auth) sample_host
       (Route_V1 (V1_Invoke_Action ''deploy'')) sample_request sample_state = (resp, x')
     \<and> shows_allowed (state_lookup x') (Some (new_identity sample_token)) resp"
proof -
  obtain resp x' where op: "serve (api_server None 0 sample_registry sample_auth) sample_host
       (Route_V1 (V1_Invoke_Action ''deploy'')) sample_request sample_state = (resp, x')"
    by fastforce
  from serve_shows_only_allowed [OF sample_state_ok _ op] op sample_caller show ?thesis by simp
qed

text \<open>
  C8: a request changes nothing unless it invokes an existing action for an authenticated caller
  who may access it; and whatever a request does, it keeps every run that is stored as it is.
\<close>

theorem serve_changes_only_authorised:
  assumes ok: "state_ok reg x" and plain: "route_plain route"
    and op: "serve (api_server lg now reg a) h route rq x = (resp, x')"
  shows "(\<forall>k q. state_lookup x k = Some q \<longrightarrow> state_lookup x' k = Some q)
    \<and> ((\<exists>n i. route = Route_V1 (V1_Invoke_Action n) \<and> caller_of a rq = Some i
           \<and> identity_allows_action i (trim_space n) \<and> registry_get reg (trim_space n) \<noteq> None)
       \<or> state_lookup x' = state_lookup x \<and> xs_jobs x' = xs_jobs x
           \<and> xs_reject_running x' = xs_reject_running x)"
proof -
  have "(\<exists>n i. route = Route_V1 (V1_Invoke_Action n) \<and> caller_of a rq = Some i
           \<and> identity_allows_action i (trim_space n) \<and> registry_get reg (trim_space n) \<noteq> None)
       \<or> state_lookup x' = state_lookup x \<and> xs_jobs x' = xs_jobs x
           \<and> xs_reject_running x' = xs_reject_running x"
    using op api_server_parts(1)
  proof (cases rule: serve_cases)
    case unserved
    then show ?thesis by simp
  next
    case (listed i)
    with read_frame [OF ok disjI1 [OF listed(4)]] show ?thesis by (auto simp: state_lookup_def)
  next
    case (got i k)
    with read_frame [OF ok disjI2 [OF got(4)]] show ?thesis by (auto simp: state_lookup_def)
  next
    case (invocation i n r0)
    from api_server_parts(2) ok invocation(4) show ?thesis
    proof (cases rule: api.invoke_action_result)
      case refused
      then show ?thesis by simp
    next
      case (called j p res)
      with invocation show ?thesis by (auto simp: has_action_def new_service_def)
    qed
  qed
  with serve_effect [OF assms] show ?thesis by blast
qed

theorem serve_changes_only_authorised_witness:
  "\<exists>resp x'. serve (api_server None 0 sample_registry sample_auth) sample_host
       (Route_V1 (V1_Invoke_Action ''deploy'')) anonymous_request sample_state = (resp, x')
     \<and> state_lookup x' = state_lookup sample_state \<and> xs_jobs x' = xs_jobs sample_state"
proof -
  obtain resp x' where op: "serve (api_server None 0 sample_registry sample_auth) sample_host
       (Route_V1 (V1_Invoke_Action ''deploy'')) anonymous_request sample_state = (resp, x')"
    by fastforce
  from serve_changes_only_authorised [OF sample_state_ok _ op] op anonymous_caller
  show ?thesis by simp
qed

text \<open>
  C33: every request to the API that is not authenticated is answered with 401, a \<open>WWW-Authenticate\<close> field and
  no more than that, before its route, its body or the stored runs are looked at: the answer
  is the same for all routes.
\<close>

theorem unauthenticated_request_rejected:
  assumes "sr_auth sv = None \<or> (\<exists>a. sr_auth sv = Some a \<and> caller_of a rq = None)"
  shows "\<exists>resp. (\<forall>r. serve sv h (Route_V1 r) rq x = (resp, x)) \<and> re_status resp = 401
    \<and> map_of (hw_header resp) ''WWW-Authenticate'' = Some ''Bearer''
    \<and> re_body resp = Body_Error ''Unauthorized''"
proof (intro exI conjI allI)
  let ?resp = "log_request sv h rq (write_unauthorized (new_writer rq))"
  show "serve sv h (Route_V1 r) rq x = (?resp, x)" for r
    using assms by (auto simp: serve_v1_route)
  show "re_status ?resp = 401" by (simp add: status_codes)
  show "map_of (hw_header ?resp) ''WWW-Authenticate'' = Some ''Bearer''"
    "re_body ?resp = Body_Error ''Unauthorized''"
    by (simp_all add: write_unauthorized_def write_status_error_def write_json_error_def
        write_json_def status_text_def status_codes update_conv')
qed

theorem unauthenticated_request_rejected_witness:
  "\<exists>resp. serve (api_server None 0 sample_registry sample_auth) sample_host
       (Route_V1 (V1_Get_Run ''run_1'')) anonymous_request sample_state = (resp, sample_state)
     \<and> re_status resp = 401"
  using unauthenticated_request_rejected [of "api_server None 0 sample_registry sample_auth"
      anonymous_request sample_host sample_state] anonymous_caller
  by auto

text \<open>
  C35: while the driver does not fail, a listing with an acceptable filter answers with exactly
  the stored runs that match the filter and that the caller may access, each once and newest
  first, and changes nothing.
\<close>

theorem list_runs_answer:
  assumes ok: "state_ok reg x" and faults: "st_faults (xs_store x) = []"
    and caller: "caller_of a rq = Some i"
    and f: "f = \<lparr>ff_action_name = trim_space (header_get (rq_query rq) ''action''),
                ff_status = header_get (rq_query rq) ''status''\<rparr>"
    and name: "ff_action_name f = [] \<or> identity_allows_action i (ff_action_name f)"
    and status: "trim_space (ff_status f) = [] \<or> validate_run_status (trim_space (ff_status f)) = None"
  shows "\<exists>rs. serve (api_server lg now reg a) h (Route_V1 V1_List_Runs) rq x
        = (log_request (api_server lg now reg a) h rq
             (write_json (new_writer rq) status_ok (Body_Runs (map new_run_response rs))), x)
    \<and> set rs = {q. state_lookup x (rn_id q) = Some q \<and> filter_accepts f q
         \<and> identity_allows_action i (rn_action_name q)}
    \<and> sorted_wrt newer_run rs \<and> distinct (map rn_id rs)"
proof -
  have inv: "store_inv (xs_store x)" using ok by (simp add: state_ok_def)
  obtain runs where op: "store_list_runs f (xs_store x) = (Inr runs, xs_store x)"
    using store_list_runs_ok [OF inv faults status] by blast
  let ?rs = "filter (\<lambda>q. identity_allows_action i (rn_action_name q)) runs"
  have visible: "(if id_global i then runs else ?rs) = ?rs"
    by (simp add: identity_allows_action_def)
  have "serve (api_server lg now reg a) h (Route_V1 V1_List_Runs) rq x
      = apfst (log_request (api_server lg now reg a) h rq)
          (list_runs (api_server lg now reg a) (h_is_print h) rq (Some i) (new_writer rq) x)"
    by (simp add: serve_v1_route caller serve_v1_def)
  also have "list_runs (api_server lg now reg a) (h_is_print h) rq (Some i) (new_writer rq) x
      = (write_json (new_writer rq) status_ok (Body_Runs (map new_run_response ?rs)), x)"
    using op name visible
    by (auto simp: list_runs_def request_identity_def on_store_def Let_def f)
  finally have "serve (api_server lg now reg a) h (Route_V1 V1_List_Runs) rq x
      = (log_request (api_server lg now reg a) h rq
           (write_json (new_writer rq) status_ok (Body_Runs (map new_run_response ?rs))), x)"
    by simp
  moreover have found: "set runs = {q. store_lookup (xs_store x) (rn_id q) = Some q \<and> filter_accepts f q}
      \<and> sorted_wrt newer_run runs \<and> distinct (map rn_id runs)"
    by (rule store_reader.list_found [OF inv op])
  then have "sorted_wrt newer_run ?rs" "distinct (map rn_id ?rs)"
    "set ?rs = {q. state_lookup x (rn_id q) = Some q \<and> filter_accepts f q
      \<and> identity_allows_action i (rn_action_name q)}"
    by (simp_all add: sorted_wrt_filter distinct_map_filter state_lookup_def conj_assoc)
  ultimately show ?thesis by blast
qed

theorem list_runs_answer_witness:
  "serve (api_server None 0 sample_registry sample_auth) sample_host (Route_V1 V1_List_Runs)
       sample_request sample_state
     = (write_json (new_writer sample_request) status_ok (Body_Runs []), sample_state)"
proof -
  have q: "header_get (rq_query sample_request) k = []" for k
    by (simp add: header_get_def sample_request_def)
  from list_runs_answer [OF sample_state_ok _ sample_caller refl] show ?thesis
    by (auto simp: q)
qed

lemma get_run_served:
  assumes ok: "state_ok reg x" and faults: "st_faults (xs_store x) = []"
    and caller: "caller_of a rq = Some i"
  shows "serve (api_server lg now reg a) h (Route_V1 (V1_Get_Run k)) rq x =
    (log_request (api_server lg now reg a) h rq (if trim_space k = [] then write_status_error (new_writer rq) 500
     else case state_lookup x k of
         None \<Rightarrow> write_json_error (new_writer rq) 404 ''run not found''
       | Some q \<Rightarrow>
           if identity_allows_action i (rn_action_name q)
           then write_json (new_writer rq) 200 (Body_Run (new_run_response q))
           else write_status_error (new_writer rq) 403), x)"
proof -
  have inv: "store_inv (xs_store x)" using ok by (simp add: state_ok_def)
  have "serve (api_server lg now reg a) h (Route_V1 (V1_Get_Run k)) rq x
      = apfst (log_request (api_server lg now reg a) h rq)
          (get_run (api_server lg now reg a) (Some i) k (new_writer rq) x)"
    by (simp add: serve_v1_route caller serve_v1_def)
  also have "get_run (api_server lg now reg a) (Some i) k (new_writer rq) x = (if trim_space k = [] then write_status_error (new_writer rq) 500
     else case state_lookup x k of
         None \<Rightarrow> write_json_error (new_writer rq) 404 ''run not found''
       | Some q \<Rightarrow>
           if identity_allows_action i (rn_action_name q)
           then write_json (new_writer rq) 200 (Body_Run (new_run_response q))
           else write_status_error (new_writer rq) 403, x)"
  proof (cases "trim_space k = []")
    case True
    then show ?thesis
      by (simp add: get_run_def on_store_def store_get_run_def status_codes)
  next
    case False
    then show ?thesis
      using store_get_run_ok [OF faults False inv]
      by (cases "store_lookup (xs_store x) k")
        (simp_all add: get_run_def on_store_def state_lookup_def request_identity_def
          get_run_error_def status_codes)
  qed
  finally show ?thesis by simp
qed



text \<open>A request that is accepted.\<close>

definition async_request :: http_request where
  "async_request =
     \<lparr>rq_method = ''POST'', rq_path = ''/v1/actions/deploy/runs'',
      rq_pattern = Some ''/v1/actions/{name}/runs'', rq_header = rq_header sample_request,
      rq_query = [], rq_body = client_body ''async'' [], rq_body_broken = False\<rparr>"

lemma async_caller: "caller_of sample_auth async_request = Some (new_identity sample_token)"
  using sample_caller by (simp add: caller_of_def async_request_def)

lemma async_request_accepted:
  obtains resp x' q where "serve (api_server lg 0 sample_registry sample_auth) sample_host
       (Route_V1 (V1_Invoke_Action ''deploy'')) async_request sample_state = (resp, x')"
    "shown_runs (re_body resp) = [new_run_response q]" "re_status resp = 202"
proof -
  have "valid_utf8 ''async''" "length (client_body ''async'' []) = 27" by code_simp+
  then have body: "decode_invoke_action_request async_request
      = Inr \<lparr>ir_mode = ''async'', ir_input = marshal_string_map []\<rparr>"
    by (intro client_body_decodes) (simp_all add: async_request_def del: valid_utf8.simps)
  define rid where "rid = extract_request_id async_request (marshal_string_map [])"
  let ?md = "marshal_request_metadata ''async'' rid"
  have js: "validate_json_payload (marshal_string_map []) ''input'' = None"
    using decode_accepts [OF body] by simp
  have md: "validate_json_payload ?md ''request metadata'' = None"
    using request_metadata_valid by (simp add: validate_json_payload_def)
  obtain r s' where cr: "create_run (store_ops 0) sample_host sample_action run_status_running ?md True
      empty_store = (Inr r, s')"
    using sample_create_run request_metadata_valid by blast
  have async: "trim_space ''async'' = ''async''" by code_simp
  note inv = api_server_parts body js md cr async sample_text_trims(1) sample_reject sample_identity_allows
  have "\<exists>resp x'. serve (api_server lg 0 sample_registry sample_auth) sample_host
       (Route_V1 (V1_Invoke_Action ''deploy'')) async_request sample_state = (resp, x')
      \<and> re_body resp = Body_Run (new_run_response r) \<and> re_status resp = 202"
    using async_caller
    by (simp add: serve_v1_route serve_v1_def invoke_action_defs invoke_defs has_action_def
        new_service_def request_identity_def authorize_action_iff invoke_mode_sync_def
        invoke_mode_async_def normalize_invoke_mode_def Let_def rid_def [symmetric] invoke_reject_def
        begin_reject_action_def start_async_invocation_def status_codes inv)
      (simp add: new_exec_state_def)
  with that show thesis by auto
qed

text \<open>
  C37: an invocation that is answered with 200 has run to its end: the response shows a new run of
  the named action, stored with a terminal status; one that is answered with 202 shows a new run of the
  action that is stored as running; no other status shows a run.
\<close>

theorem invocation_answer:
  assumes ok: "state_ok reg x" and caller: "caller_of a rq = Some i"
    and op: "serve (api_server lg now reg a) h (Route_V1 (V1_Invoke_Action n)) rq x = (resp, x')"
  shows "case shown_runs (re_body resp) of
      [] \<Rightarrow> re_status resp \<noteq> 200 \<and> re_status resp \<noteq> 202
    | w # ws \<Rightarrow> (\<exists>q. ws = [] \<and> w = new_run_response q
        \<and> state_lookup x (rn_id q) = None \<and> state_lookup x' (rn_id q) = Some q
        \<and> rn_action_name q = trim_space n
        \<and> (re_status resp = 200 \<and> terminal_status (rn_status q)
           \<or> re_status resp = 202 \<and> rn_status q = run_status_running))"
proof -
  obtain r0 where inv: "invoke_action (api_server lg now reg a) h rq (Some i) n (new_writer rq) x = (r0, x')"
    and resp: "resp = log_request (api_server lg now reg a) h rq r0"
    using op caller by (auto simp: serve_v1_route serve_v1_def dest: apfst_eqD)
  from api_server_parts(2) ok inv show ?thesis
  proof (cases rule: api.invoke_action_result)
    case refused
    with resp show ?thesis by (simp add: status_codes)
  next
    case (called j p res)
    show ?thesis
    proof (cases res)
      case (Inl e)
      with called(9) obtain w where "r0 = write_invocation_error (h_is_print h) w e" by auto
      with resp show ?thesis
        using write_invocation_error_status [of "h_is_print h" w e] by (auto simp: status_codes)
    next
      case (Inr q)
      have "state_lookup x (rn_id q) = None \<and> state_lookup x' (rn_id q) = Some q
        \<and> rn_action_name q = trim_space n \<and> (if iv_mode p = ''async''
            then rn_status q = run_status_running else terminal_status (rn_status q))"
        using called(8) Inr by (simp add: invocation_effect_def)
      moreover have "re_body resp = Body_Run (new_run_response q)"
        "re_status resp = (if iv_mode p = ''async'' then 202 else 200)"
        using called(9) Inr resp by (simp_all add: status_codes)
      ultimately show ?thesis by (cases "iv_mode p = ''async''") auto
    qed
  qed
qed

theorem invocation_answer_witness:
  "\<exists>resp x' q. serve (api_server None 0 sample_registry sample_auth) sample_host
       (Route_V1 (V1_Invoke_Action ''deploy'')) async_request sample_state = (resp, x')
     \<and> shown_runs (re_body resp) = [new_run_response q] \<and> re_status resp = 202
     \<and> state_lookup x' (rn_id q) = Some q \<and> rn_action_name q = ''deploy''"
proof -
  obtain resp x' q where op: "serve (api_server None 0 sample_registry sample_auth) sample_host
       (Route_V1 (V1_Invoke_Action ''deploy'')) async_request sample_state = (resp, x')"
    and q: "shown_runs (re_body resp) = [new_run_response q]" and st: "re_status resp = 202"
    by (rule async_request_accepted)
  note ans = invocation_answer [OF sample_state_ok async_caller op]
  from ans q obtain r where r: "new_run_response q = new_run_response r"
    "state_lookup x' (rn_id r) = Some r" "rn_action_name r = trim_space ''deploy''"
    by auto
  then have "rn_action_name r = ''deploy''" by (simp add: sample_text_trims)
  with op q st r(1,2) show ?thesis by auto
qed

text \<open>
  An acceptable request to run a disabled action is answered with 404, as if there were no such
  action, and one to run an action with the policy reject while it is running is answered with
  409; neither changes anything.
\<close>

theorem disabled_or_busy_refused:
  assumes caller: "caller_of a rq = Some i" and allowed: "identity_allows_action i (trim_space n)"
    and act: "registry_get reg (trim_space n) = Some b" "trim_space n \<noteq> []"
    and body: "decode_invoke_action_request rq = Inr payload"
    and mode: "trim_space (ir_mode payload) = ''sync'' \<or> trim_space (ir_mode payload) = ''async''"
    and blocked: "\<not> is_enabled b
      \<or> ac_concurrency_policy b = ''reject'' \<and> ac_name b \<in> xs_reject_running x"
  shows "\<exists>hdr. serve (api_server lg now reg a) h (Route_V1 (V1_Invoke_Action n)) rq x =
    (log_request (api_server lg now reg a) h rq (if is_enabled b then write_status_error hdr 409
     else write_json_error hdr 404 ''action not found''), x)"
proof -
  let ?v = "new_service (Some (store_ops now)) reg"
  let ?mode = "trim_space (ir_mode payload)"
  define rid where "rid = extract_request_id rq (ir_input payload)"
  define p where "p = \<lparr>iv_action_name = trim_space n, iv_mode = ?mode, iv_input = ir_input payload,
      iv_request_metadata = marshal_request_metadata ?mode rid, iv_request_id = rid\<rparr>"
  have js: "validate_json_payload (ir_input payload) ''input'' = None"
    using decode_accepts [OF body] by blast
  have md: "validate_json_payload (marshal_request_metadata ?mode rid) ''request metadata'' = None"
    using request_metadata_valid by (simp add: validate_json_payload_def)
  have m: "normalize_invoke_mode ?mode = Inr ?mode"
    using mode by (auto simp: normalize_invoke_mode_def invoke_mode_sync_def invoke_mode_async_def Let_def)
  define e where "e = (if is_enabled b then invoke_error (ac_name b) [] (sentinel_error ErrActionConflict)
      else invoke_error (trim_space n) [] (sentinel_error ErrActionDisabled))"
  have inv: "invoke ?v h p x = (Inl e, x)"
    using act blocked js md m
    by (auto simp: invoke_defs p_def e_def new_service_def invoke_reject_def begin_reject_action_def)
  have "serve (api_server lg now reg a) h (Route_V1 (V1_Invoke_Action n)) rq x
      = (log_request (api_server lg now reg a) h rq
           (write_invocation_error (h_is_print h) (set_request_id (new_writer rq) rid) e), x)"
    using caller allowed act body mode inv
    by (auto simp: serve_v1_route serve_v1_def invoke_action_defs has_action_def new_service_def
        request_identity_def authorize_action_iff invoke_mode_sync_def invoke_mode_async_def Let_def
        p_def rid_def)
  then show ?thesis
    by (auto simp: write_invocation_error_def e_def invoke_error_def status_codes)
qed

theorem disabled_or_busy_refused_witness:
  "\<exists>hdr. serve (api_server None 0 sample_registry sample_auth) sample_host
       (Route_V1 (V1_Invoke_Action ''deploy''))
       (sample_post\<lparr>rq_header := rq_header sample_request\<rparr>)
       (sample_state\<lparr>xs_reject_running := {''deploy''}\<rparr>)
     = (write_status_error hdr 409, sample_state\<lparr>xs_reject_running := {''deploy''}\<rparr>)"
proof -
  let ?rq = "sample_post\<lparr>rq_header := rq_header sample_request\<rparr>"
  let ?x = "sample_state\<lparr>xs_reject_running := {''deploy''}\<rparr>"
  have caller: "caller_of sample_auth ?rq = Some (new_identity sample_token)"
    using sample_caller by (simp add: caller_of_def)
  have body: "decode_invoke_action_request ?rq
      = Inr \<lparr>ir_mode = ''sync'', ir_input = marshal_string_map [(''request_id'', ''r1'')]\<rparr>"
    using client_body_decodes [of ?rq "''sync''" "[(''request_id'', ''r1'')]"] sample_post_length
      sample_post_utf8(1) by simp
  have sync: "trim_space ''sync'' = ''sync''" by code_simp
  note n = sample_text_trims(1)
  have "\<exists>hdr. serve (api_server None 0 sample_registry sample_auth) sample_host
       (Route_V1 (V1_Invoke_Action ''deploy'')) ?rq ?x
     = (log_request (api_server None 0 sample_registry sample_auth) sample_host ?rq
          (if is_enabled sample_action then write_status_error hdr 409
           else write_json_error hdr 404 ''action not found''), ?x)"
    by (rule disabled_or_busy_refused [OF caller _ _ _ body])
      (simp_all only: n sample_identity_allows sample_reject, simp_all add: sync)
  then show ?thesis by (simp add: sample_reject)
qed

end
