(* ===== verification/App_Properties.thy ===== *)
theory App_Properties
  imports App Http_Properties Store_Properties
begin

section \<open>Properties of the application\<close>

lemma loaded_registry_wf:
  assumes "load rf yd path = Inr c"
  shows "registry_wf (config_action_registry c)"
proof -
  have "config_action_registry c = registry_of (cf_actions c)"
    by (simp add: config_action_registry_def load_registry [OF assms])
  then show ?thesis
    using registry_get_of [OF normalized_distinct [OF assms] normalized_env_wf [OF assms]]
    by (simp add: registry_wf_def)
qed

lemma recover_new_state:
  assumes "recover (new_service (Some ops) reg) clock (new_exec_state s) = (res, x)"
  shows "xs_jobs x = []" "xs_reject_running x = {}"
  using assms by (auto simp: recover_def new_service_def new_exec_state_def split: prod.splits)

lemma close_after_once [simp]:
  "map_prod Inl g (close_after h st ctx e) = (Inl (fst (close_after h st ctx e)), g 1)"
  by (simp add: close_after_def storage_close_def db_close_def split: option.split)

text \<open>The steps of a bootstrap that succeeds.\<close>

lemma bootstrap_Inr:
  assumes "bootstrap h c b = (Inr a, n)"
  obtains q res s where "opened_path (ah_sqlite h) (sc_path (cf_storage c)) = Some q" "n = 0"
    "store_apply_retention (ah_pruned_at h) (retention_policy_of (cf_storage c))
       (sq_database (ah_sqlite h) q) = (Inr res, s)"
    "auth_new (cf_auth c) = Inr (ap_auth a)"
    "recover (new_service (Some (store_ops (ah_now h))) (config_action_registry c)) (ah_clock h)
       (new_exec_state s) = (None, ap_state a)"
    "ap_http a = api_server (Some (ap_logger a)) (ah_now h) (config_action_registry c) (ap_auth a)"
    "ap_logger a = new_logger (sv_log_format (cf_server c))"
    "ap_storage a \<noteq> None" "ap_config a = c"
    "ap_executor a = Some (new_service (Some (store_ops (ah_now h))) (config_action_registry c))"
proof -
  obtain st m where op: "storage_open (ah_sqlite h) (sc_path (cf_storage c)) = (Inr st, m)"
    using assms by (auto simp: bootstrap_def split: prod.splits sum.splits)
  from storage_open_Inr [OF op] obtain q
    where q: "opened_path (ah_sqlite h) (sc_path (cf_storage c)) = Some q"
      "st = \<lparr>ss_db = sq_database (ah_sqlite h) q, ss_path = q\<rparr>" "m = 0"
    by blast
  obtain r1 s where ret: "store_apply_retention (ah_pruned_at h) (retention_policy_of (cf_storage c))
      (sq_database (ah_sqlite h) q) = (r1, s)" by fastforce
  with assms op q obtain res where res: "r1 = Inr res"
    by (cases r1) (simp_all add: bootstrap_def)
  with assms op q ret obtain auth where auth: "auth_new (cf_auth c) = Inr auth"
    by (cases "auth_new (cf_auth c)") (simp_all add: bootstrap_def)
  obtain r2 x where rec: "recover (new_service (Some (store_ops (ah_now h))) (config_action_registry c))
      (ah_clock h) (new_exec_state s) = (r2, x)" by fastforce
  with assms op q ret res auth have "r2 = None" "ap_state a = x" "ap_auth a = auth" "n = 0"
    "ap_http a = api_server (Some (ap_logger a)) (ah_now h) (config_action_registry c) auth"
    "ap_logger a = new_logger (sv_log_format (cf_server c))"
    "ap_storage a \<noteq> None" "ap_config a = c"
    "ap_executor a = Some (new_service (Some (store_ops (ah_now h))) (config_action_registry c))"
    by (cases r2; force simp: bootstrap_def Let_def)+
  with q ret res auth rec show thesis by (intro that [of q res s]) simp_all
qed

text \<open>The cases of a bootstrap that fails.\<close>

lemma bootstrap_Inl:
  assumes "bootstrap h c b = (Inl e, n)"
  shows "n = (if opened_path (ah_sqlite h) (sc_path (cf_storage c)) = None then 0 else 1)"
proof -
  obtain r m where op: "storage_open (ah_sqlite h) (sc_path (cf_storage c)) = (r, m)" by fastforce
  show ?thesis
  proof (cases r)
    case (Inl e')
    with assms op storage_open_Inl [of "ah_sqlite h" "sc_path (cf_storage c)"] show ?thesis
      by (simp add: bootstrap_def)
  next
    case (Inr st)
    note st = storage_open_Inr [OF op [unfolded Inr]]
    with assms op Inr have "n = Suc m"
      by (auto simp: bootstrap_def Let_def split: prod.splits sum.splits option.splits)
    with st show ?thesis by auto
  qed
qed

lemma recover_ready:
  assumes inv: "store_inv s"
    and op: "recover (new_service (Some (store_ops now)) reg) clock (new_exec_state s) = (None, x)"
  shows "store_inv (xs_store x) \<and> recovered (store_lookup s i) (store_lookup (xs_store x) i)"
proof -
  have "cancel_interrupted_runs (store_ops now) clock s = (None, xs_store x)"
    using op by (auto simp: recover_def new_service_def new_exec_state_def split: prod.splits)
  from sqlite.cancel_interrupted_runs_spec [OF inv this] show ?thesis by simp
qed

subsection \<open>The retention period\<close>

lemma retention_max_age_exact:
  assumes "0 \<le> d" "d \<le> 106751"
  shows "retention_max_age d = d * 86400000000000"
proof -
  have "int64_range (d * 24)" using assms by (simp add: int64_range_def)
  moreover have "int64_range (d * 24 * 3600000000000)" using assms by (simp add: int64_range_def)
  ultimately show ?thesis by (simp add: retention_max_age_def wrap64_id)
qed

lemma retention_max_age_negative:
  assumes "106752 \<le> d" "d \<le> 213503"
  shows "retention_max_age d < 0"
proof -
  have "int64_range (d * 24)" using assms by (simp add: int64_range_def)
  then have "retention_max_age d = wrap64 (d * 86400000000000)"
    by (simp add: retention_max_age_def wrap64_id mult.commute)
  also have "\<dots> = d * 86400000000000 - 2 ^ 64"
  proof -
    have "d * 86400000000000 + 2 ^ 63 = (d * 86400000000000 - 2 ^ 63) + 2 ^ 64" by simp
    moreover have "0 \<le> d * 86400000000000 - 2 ^ 63" "d * 86400000000000 - 2 ^ 63 < 2 ^ 64"
      using assms by simp_all
    ultimately have "(d * 86400000000000 + 2 ^ 63) mod 2 ^ 64 = d * 86400000000000 - 2 ^ 63"
      by (metis mod_add_self2 mod_pos_pos_trivial)
    then show ?thesis by (simp add: wrap64_def)
  qed
  also have "\<dots> < 0" using assms by simp
  finally show ?thesis .
qed

text \<open>
  Starting when nothing fails: a run that is found running can be finished if its id is not blank and
  its start time is set, as for every run that was created by the service.
\<close>

definition finishable :: "store \<Rightarrow> bool" where
  "finishable s \<longleftrightarrow>
     (\<forall>i r. store_lookup s i = Some r \<and> rn_status r = run_status_running \<longrightarrow>
        trim_space i \<noteq> [] \<and> rn_started_at r \<noteq> Some zero_time)"

lemma cancel_runs_ok:
  assumes "store_inv s" "st_faults s = []" "\<forall>n. clock n \<noteq> zero_time"
    and "\<forall>r \<in> set rs. store_lookup s (rn_id r) \<noteq> None \<and> trim_space (rn_id r) \<noteq> []
        \<and> rn_started_at r \<noteq> Some zero_time"
  shows "\<exists>s'. cancel_runs (store_ops now) clock n rs s = (None, s') \<and> st_faults s' = []"
  using assms(1,2,4)
proof (induction rs arbitrary: n s)
  case (Cons r rs)
  have t: "terminal_status run_status_cancelled" by (simp add: terminal_status_def)
  obtain run s1 where fin: "finish_run (store_ops now) r run_status_cancelled
      (recovery_result (clock n)) s = (Inr run, s1)" and f1: "st_faults s1 = []"
    using finish_run_ok [OF Cons.prems(1,2) _ _ _ _ t, of r "recovery_result (clock n)" now]
      Cons.prems(3) assms(3) by (auto simp: recovery_result_def)
  from Cons.prems(1) fin have "store_inv s1 \<and> (\<forall>i. store_lookup s i \<noteq> None \<longrightarrow> store_lookup s1 i \<noteq> None)"
    by (cases rule: sqlite.finish_run_cases) auto
  with Cons.prems(3) have "\<forall>r \<in> set rs. store_lookup s1 (rn_id r) \<noteq> None \<and> trim_space (rn_id r) \<noteq> []
      \<and> rn_started_at r \<noteq> Some zero_time" and "store_inv s1"
    by (auto simp del: not_None_eq)
  from Cons.IH [OF this(2) f1 this(1), of "Suc n"] fin show ?case by simp
qed simp

lemma recover_ok:
  assumes inv: "store_inv s" and faults: "st_faults s = []" and fin: "finishable s"
    and clock: "\<forall>n. clock n \<noteq> zero_time"
  shows "\<exists>x. recover (new_service (Some (store_ops now)) reg) clock (new_exec_state s) = (None, x)
    \<and> st_faults (xs_store x) = []"
proof -
  let ?f = "\<lparr>ff_action_name = [], ff_status = run_status_running\<rparr>"
  have t: "trim_space run_status_running = run_status_running"
    unfolding run_status_running_def by code_simp
  then have "validate_run_status (trim_space (ff_status ?f)) = None"
    by (simp add: validate_run_status_def)
  then obtain runs where l: "store_list_runs ?f s = (Inr runs, s)"
    using store_list_runs_ok [OF inv faults, of ?f] by blast
  have "\<forall>r \<in> set runs. store_lookup s (rn_id r) = Some r \<and> rn_status r = run_status_running"
    using store_reader.list_found [OF inv l] by (auto simp: filter_running)
  with fin have "\<forall>r \<in> set runs. store_lookup s (rn_id r) \<noteq> None \<and> trim_space (rn_id r) \<noteq> []
      \<and> rn_started_at r \<noteq> Some zero_time"
    by (auto simp: finishable_def)
  from cancel_runs_ok [OF inv faults clock this, of now 0] obtain s'
    where "cancel_interrupted_runs (store_ops now) clock s = (None, s')" "st_faults s' = []"
    using l by (auto simp: cancel_interrupted_runs_def)
  then show ?thesis by (simp add: recover_def new_service_def new_exec_state_def)
qed

lemma bootstrap_ok:
  assumes loaded: "load rf yd path = Inr c" and days: "sc_retention_days (cf_storage c) \<le> 106751"
    and q: "opened_path (ah_sqlite h) (sc_path (cf_storage c)) = Some q"
    and up: "sq_ping (ah_sqlite h) = None" "initialize (ah_sqlite h) = None"
    and db: "store_inv (sq_database (ah_sqlite h) q)" "st_faults (sq_database (ah_sqlite h) q) = []"
    and fin: "finishable (sq_database (ah_sqlite h) q)" and clock: "\<forall>n. ah_clock h n \<noteq> zero_time"
  shows "\<exists>a. bootstrap h c b = (Inr a, 0) \<and> st_faults (xs_store (ap_state a)) = []"
proof -
  let ?p = "retention_policy_of (cf_storage c)"
  have "valid_storage (cf_storage c)" using load_valid [OF loaded] by (simp add: valid_config_def)
  then have "0 \<le> rp_max_age ?p" "0 \<le> rp_max_runs ?p"
    using retention_max_age_exact [OF _ days] by (simp_all add: valid_storage_def retention_policy_of_def)
  then obtain res s where ret: "store_apply_retention (ah_pruned_at h) ?p (sq_database (ah_sqlite h) q)
      = (Inr res, s)" "st_faults s = []"
    by (rule store_apply_retention_ok [OF db(2)])
  note kept = retention_facts(1,2) [OF db(1) ret(1)]
  have "finishable s" using fin kept(2) unfolding finishable_def by blast
  from recover_ok [OF kept(1) ret(2) this clock, of "ah_now h" "config_action_registry c"]
  obtain x where "recover (new_service (Some (store_ops (ah_now h))) (config_action_registry c))
      (ah_clock h) (new_exec_state s) = (None, x)" "st_faults (xs_store x) = []" by blast
  then show ?thesis
    using storage_open_ok [OF q up] ret valid_config_auth [OF load_valid [OF loaded]]
    by (simp add: bootstrap_def Let_def)
qed

subsection \<open>A sample host\<close>

definition sample_sqlite :: sqlite_host where
  "sample_sqlite =
     \<lparr>sq_getwd = Inr ''/data'', sq_mkdir_all = (\<lambda>_. None), sq_open = (\<lambda>_. None), sq_ping = None,
      sq_begin = None, sq_exec_schema = None, sq_commit = None, sq_close = None,
      sq_database = (\<lambda>_. empty_store)\<rparr>"

definition sample_app_host :: app_host where
  "sample_app_host =
     \<lparr>ah_sqlite = sample_sqlite, ah_pruned_at = 5, ah_clock = (\<lambda>_. 6), ah_now = 7\<rparr>"

definition sample_build :: build_info where
  "sample_build = current_build ''dev'' ''unknown'' ''unknown'' ''unknown'' ''go1'' ''linux'' ''amd64''"

lemma sample_storage [simp]:
  "sc_path (cf_storage sample_config) = ''runs.db''"
  "sc_retention_days (cf_storage sample_config) = 30"
  by (simp_all add: sample_config_def)

lemma opened_in_data:
  assumes "sq_getwd h = Inr ''/data''" "\<And>p. sq_mkdir_all h p = None" "\<And>p. sq_open h p = None"
  shows "opened_path h ''runs.db'' = Some ''/data/runs.db''"
proof -
  have "filepath_clean ''runs.db'' = ''runs.db''"
    "filepath_abs (Inr ''/data'') ''runs.db'' = Inr ''/data/runs.db''"
    by code_simp+
  with assms show ?thesis by (simp add: opened_path_def sample_text_trims(4) Let_def)
qed

lemma sample_opened: "opened_path (ah_sqlite sample_app_host) ''runs.db'' = Some ''/data/runs.db''"
  by (rule opened_in_data) (simp_all add: sample_app_host_def sample_sqlite_def)

lemma sample_sqlite_simps [simp]:
  "sq_ping (ah_sqlite sample_app_host) = None" "initialize (ah_sqlite sample_app_host) = None"
  "sq_database (ah_sqlite sample_app_host) p = empty_store"
  by (simp_all add: sample_app_host_def sample_sqlite_def initialize_def)

lemma sample_bootstrap: "\<exists>a. bootstrap sample_app_host sample_config sample_build = (Inr a, 0)"
proof -
  have "finishable empty_store" by (simp add: finishable_def empty_store_lookup)
  moreover have "\<forall>n. ah_clock sample_app_host n \<noteq> zero_time"
    by (simp add: sample_app_host_def zero_time_def)
  ultimately show ?thesis
    using bootstrap_ok [OF sample_loads, of sample_app_host "''/data/runs.db''" sample_build]
    by (auto simp: sample_opened empty_store_inv)
qed

subsection \<open>Starting up\<close>

lemma bootstrap_started:
  assumes boot: "bootstrap h c b = (Inr a, n)" and db: "\<And>q. opened_path (ah_sqlite h) (sc_path (cf_storage c)) = Some q \<Longrightarrow>
      store_inv (sq_database (ah_sqlite h) q)"
    and loaded: "load rf yd path = Inr c"
  shows "\<exists>q. opened_path (ah_sqlite h) (sc_path (cf_storage c)) = Some q \<and> n = 0
    \<and> state_ok (config_action_registry c) (ap_state a)
    \<and> ap_logger a = new_logger (sv_log_format (cf_server c))
    \<and> ap_http a = api_server (Some (ap_logger a)) (ah_now h) (config_action_registry c) (ap_auth a)
    \<and> xs_jobs (ap_state a) = [] \<and> xs_reject_running (ap_state a) = {}
    \<and> (\<forall>i r. state_lookup (ap_state a) i = Some r \<longrightarrow> rn_status r \<noteq> run_status_running
         \<and> (\<exists>r0. store_lookup (sq_database (ah_sqlite h) q) i = Some r0
              \<and> (r = r0 \<or> rn_status r0 = run_status_running \<and> rn_status r = run_status_cancelled
                    \<and> rn_action_name r = rn_action_name r0)))
    \<and> (\<forall>i r0. store_lookup (sq_database (ah_sqlite h) q) i = Some r0
         \<and> rn_status r0 = run_status_running \<longrightarrow>
           (\<exists>r. state_lookup (ap_state a) i = Some r \<and> rn_status r = run_status_cancelled))"
proof -
  from boot obtain q res s where q: "opened_path (ah_sqlite h) (sc_path (cf_storage c)) = Some q" "n = 0"
    and ret: "store_apply_retention (ah_pruned_at h) (retention_policy_of (cf_storage c))
       (sq_database (ah_sqlite h) q) = (Inr res, s)"
    and rec: "recover (new_service (Some (store_ops (ah_now h))) (config_action_registry c)) (ah_clock h)
       (new_exec_state s) = (None, ap_state a)"
    and http: "ap_http a = api_server (Some (ap_logger a)) (ah_now h) (config_action_registry c) (ap_auth a)"
      "ap_logger a = new_logger (sv_log_format (cf_server c))"
    by (rule bootstrap_Inr)
  note db' = db [OF q(1)]
  note kept = retention_facts(1-3) [OF db' ret]
  note ready = recover_ready [OF kept(1) rec]
  have r: "recovered (store_lookup s i) (state_lookup (ap_state a) i)" for i
    using ready by (simp add: state_lookup_def)
  have "state_ok (config_action_registry c) (ap_state a)"
    using ready loaded_registry_wf [OF loaded] by (simp add: state_ok_def)
  moreover have "rn_status r1 \<noteq> run_status_running
         \<and> (\<exists>r0. store_lookup (sq_database (ah_sqlite h) q) i = Some r0
              \<and> (r1 = r0 \<or> rn_status r0 = run_status_running \<and> rn_status r1 = run_status_cancelled
                    \<and> rn_action_name r1 = rn_action_name r0))"
    if "state_lookup (ap_state a) i = Some r1" for i r1
    using r [of i] that kept(2) [of i]
    by (auto simp: recovered_def split: option.splits if_splits)
  moreover have "\<exists>r1. state_lookup (ap_state a) i = Some r1 \<and> rn_status r1 = run_status_cancelled"
    if "store_lookup (sq_database (ah_sqlite h) q) i = Some r0" "rn_status r0 = run_status_running" for i r0
    using r [of i] kept(3) [OF that] that(2) by (auto simp: recovered_def)
  ultimately show ?thesis
    using q http recover_new_state [OF rec] by blast
qed

text \<open>
  C15: a service that has started is ready: its handle is open, no goroutine is in flight and no
  action is marked as busy; no stored run is marked as running; every run was stored before, as it
  is now or, if it had been running, uncancelled; and no run that was running is lost. With a
  configuration that was loaded, the state is one in which the properties of the API hold.
\<close>

theorem bootstrap_ready:
  assumes boot: "bootstrap h c b = (Inr a, n)" and db: "\<forall>p. store_inv (sq_database (ah_sqlite h) p)"
    and loaded: "load rf yd path = Inr c"
  shows "\<exists>q. opened_path (ah_sqlite h) (sc_path (cf_storage c)) = Some q \<and> n = 0
    \<and> state_ok (config_action_registry c) (ap_state a)
    \<and> ap_logger a = new_logger (sv_log_format (cf_server c))
    \<and> ap_http a = api_server (Some (ap_logger a)) (ah_now h) (config_action_registry c) (ap_auth a)
    \<and> xs_jobs (ap_state a) = [] \<and> xs_reject_running (ap_state a) = {}
    \<and> (\<forall>i r. state_lookup (ap_state a) i = Some r \<longrightarrow> rn_status r \<noteq> run_status_running
         \<and> (\<exists>r0. store_lookup (sq_database (ah_sqlite h) q) i = Some r0
              \<and> (r = r0 \<or> rn_status r0 = run_status_running \<and> rn_status r = run_status_cancelled
                    \<and> rn_action_name r = rn_action_name r0)))
    \<and> (\<forall>i r0. store_lookup (sq_database (ah_sqlite h) q) i = Some r0
         \<and> rn_status r0 = run_status_running \<longrightarrow>
           (\<exists>r. state_lookup (ap_state a) i = Some r \<and> rn_status r = run_status_cancelled))"
  by (rule bootstrap_started [OF boot db [rule_format] loaded])

theorem bootstrap_ready_witness:
  "\<exists>a. bootstrap sample_app_host sample_config sample_build = (Inr a, 0)
     \<and> state_ok (config_action_registry sample_config) (ap_state a)
     \<and> xs_reject_running (ap_state a) = {}"
proof -
  obtain a where boot: "bootstrap sample_app_host sample_config sample_build = (Inr a, 0)"
    using sample_bootstrap by blast
  have "\<forall>p. store_inv (sq_database (ah_sqlite sample_app_host) p)" by (simp add: empty_store_inv)
  from bootstrap_ready [OF boot this sample_loads] boot show ?thesis by blast
qed

text \<open>
  A bootstrap that fails leaves no database handle open: the handle is closed exactly once if
  it was opened at all, whichever step failed.
\<close>

theorem bootstrap_failure_closes:
  assumes "bootstrap h c b = (Inl e, n)"
  shows "n = (if opened_path (ah_sqlite h) (sc_path (cf_storage c)) = None then 0 else 1)"
  by (rule bootstrap_Inl [OF assms])

theorem bootstrap_failure_closes_witness:
  "\<exists>e. bootstrap
     (sample_app_host\<lparr>ah_sqlite := sample_sqlite\<lparr>sq_ping := Some (errors_new ''locked'')\<rparr>\<rparr>)
     sample_config sample_build = (Inl e, 1)"
proof -
  let ?q = "sample_sqlite\<lparr>sq_ping := Some (errors_new ''locked'')\<rparr>"
  let ?h = "sample_app_host\<lparr>ah_sqlite := ?q\<rparr>"
  have open': "opened_path (ah_sqlite ?h) ''runs.db'' = Some ''/data/runs.db''"
    by (rule opened_in_data) (simp_all add: sample_app_host_def sample_sqlite_def)
  from storage_open_failed [OF open'] obtain e
    where "storage_open (ah_sqlite ?h) ''runs.db'' = (Inl e, 1)" by auto
  then have boot: "bootstrap ?h sample_config sample_build = (Inl e, 1)"
    by (simp add: bootstrap_def)
  from bootstrap_failure_closes [OF boot] boot show ?thesis by blast
qed

text \<open>
  C16: the service comes up whatever a crash left behind: with a configuration that loads and a
  retention period that does not wrap around, on a database that can be opened and holds well-formed
  runs, a bootstrap succeeds as long as the driver and the clock work, running runs included.
\<close>

theorem bootstrap_succeeds:
  assumes "load rf yd path = Inr c" and "sc_retention_days (cf_storage c) \<le> 106751"
    and "opened_path (ah_sqlite h) (sc_path (cf_storage c)) = Some q"
    and "sq_ping (ah_sqlite h) = None" and "initialize (ah_sqlite h) = None"
    and "store_inv (sq_database (ah_sqlite h) q)" and "st_faults (sq_database (ah_sqlite h) q) = []"
    and "finishable (sq_database (ah_sqlite h) q)" and "\<forall>n. ah_clock h n \<noteq> zero_time"
  shows "\<exists>a. bootstrap h c b = (Inr a, 0)"
  using bootstrap_ok [OF assms] by blast

text \<open>A database with one running run.\<close>

definition crashed_host :: app_host where
  "crashed_host = sample_app_host\<lparr>ah_sqlite := sample_sqlite\<lparr>sq_database := \<lambda>_. sample_store\<rparr>\<rparr>"

lemma crashed_host_facts:
  "opened_path (ah_sqlite crashed_host) (sc_path (cf_storage sample_config)) = Some ''/data/runs.db''"
  "sq_ping (ah_sqlite crashed_host) = None" "initialize (ah_sqlite crashed_host) = None"
  "sq_database (ah_sqlite crashed_host) p = sample_store" "\<forall>n. ah_clock crashed_host n \<noteq> zero_time"
proof -
  show "opened_path (ah_sqlite crashed_host) (sc_path (cf_storage sample_config)) = Some ''/data/runs.db''"
    unfolding sample_storage by (rule opened_in_data) (simp_all add: crashed_host_def sample_sqlite_def)
qed (simp_all add: crashed_host_def sample_sqlite_def sample_app_host_def initialize_def zero_time_def)

lemma sample_store_finishable: "finishable sample_store"
  by (simp add: finishable_def sample_store_facts sample_trims)
    (simp add: created_run_def sample_create_def stored_time_id int64_range_def zero_time_def)

theorem bootstrap_succeeds_witness:
  "\<exists>a. bootstrap crashed_host sample_config sample_build = (Inr a, 0)"
proof (rule bootstrap_succeeds [OF sample_loads _ crashed_host_facts(1-3)])
  show "sc_retention_days (cf_storage sample_config) \<le> 106751" by simp
qed (simp_all add: crashed_host_facts sample_store_facts(1) sample_store_created(2) sample_store_finishable)

text \<open>
  C39: up to 106751 days the retention period is the configured number of days; from 106752 to
  213503 days, which validation accepts, it wraps around to a negative duration, and the service refuses to start.
\<close>

theorem retention_period:
  assumes "0 \<le> sc_retention_days (cf_storage c)" and "sc_retention_days (cf_storage c) \<le> 213503"
  shows "if sc_retention_days (cf_storage c) \<le> 106751
    then rp_max_age (retention_policy_of (cf_storage c))
           = sc_retention_days (cf_storage c) * 24 * 3600 * 1000000000
    else \<exists>e n. bootstrap h c b = (Inl e, n)"
proof (cases "sc_retention_days (cf_storage c) \<le> 106751")
  case True
  with assms(1) show ?thesis
    by (simp add: retention_policy_of_def retention_max_age_exact)
next
  case False
  then have neg: "rp_max_age (retention_policy_of (cf_storage c)) < 0"
    using assms(2) by (simp add: retention_policy_of_def retention_max_age_negative)
  have "\<exists>e n. bootstrap h c b = (Inl e, n)"
  proof (cases "bootstrap h c b")
    case (Pair r n)
    show ?thesis
    proof (cases r)
      case (Inr a)
      from Pair [unfolded Inr] obtain q res s
        where "store_apply_retention (ah_pruned_at h) (retention_policy_of (cf_storage c))
          (sq_database (ah_sqlite h) q) = (Inr res, s)" by (rule bootstrap_Inr)
      with neg show ?thesis by (simp add: store_apply_retention_def)
    qed (use Pair in auto)
  qed
  with False show ?thesis by simp
qed

theorem retention_period_witness:
  "\<exists>c. valid_config c \<and> sc_retention_days (cf_storage c) = 106752
     \<and> (\<exists>e n. bootstrap sample_app_host c sample_build = (Inl e, n))"
proof -
  let ?c = "sample_config\<lparr>cf_storage := (cf_storage sample_config)\<lparr>sc_retention_days := 106752\<rparr>\<rparr>"
  have "valid_config ?c"
    using sample_valid by (simp add: valid_config_def valid_storage_def)
  moreover have "sc_retention_days (cf_storage ?c) = 106752" by simp
  ultimately show ?thesis
    using retention_period [of ?c sample_app_host sample_build] by auto
qed

end
