(* ===== verification/Cli_Properties.thy ===== *)
theory Cli_Properties
  imports Cli App_Properties
begin

section \<open>Properties of the command line\<close>

lemma app_close_once:
  assumes "ap_storage a \<noteq> None"
  shows "app_close h a = (sq_close h, 1)"
  using assms by (auto simp: app_close_def storage_close_def db_close_def service_close_def
      split: option.splits)

lemma app_shutdown_once:
  assumes "ap_storage a \<noteq> None"
  shows "snd (app_shutdown h r a) = 1"
    and "fst (app_shutdown h r a) = None \<longleftrightarrow> sq_close h = None \<and> \<not> serve_failed r"
  using app_close_once [OF assms, of h]
  by (auto simp: app_shutdown_def serve_failed_def Let_def split: option.split)
    (cases "sq_close h"; simp)+

lemma served_once: "ap_storage a \<noteq> None \<Longrightarrow> snd (served h a out) = 1"
  using app_close_once [of a "ah_sqlite (cl_app h)"]
    app_shutdown_once(1) [of a "ah_sqlite (cl_app h)" "cl_http_shutdown h"]
  by (auto simp: served_def Let_def split: serve_event.split prod.split)

text \<open>
  C40: serving never leaks the store: whatever fails on the way, the handle of the database is
  closed exactly once if it was opened, and never if it was not.
\<close>

theorem serve_closes_store:
  "snd (run_serve h cmd out) =
     (case (if fst (reject_positional_args h ''serve'' cmd out) = None then cli_load h cmd
            else Inl (errors_new ''refused'')) of
        Inl e \<Rightarrow> 0
      | Inr c \<Rightarrow>
          if opened_path (ah_sqlite (cl_app h)) (sc_path (cf_storage c)) = None then 0 else 1)"
proof -
  obtain r out1 where rej: "reject_positional_args h ''serve'' cmd out = (r, out1)" by fastforce
  show ?thesis
  proof (cases "r = None \<and> (\<exists>c. cli_load h cmd = Inr c)")
    case False
    with rej show ?thesis
      by (cases r; cases "cli_load h cmd") (simp_all add: run_serve_def)
  next
    case True
    then obtain c where c: "r = None" "cli_load h cmd = Inr c" by blast
    obtain b n where boot: "bootstrap (cl_app h) c (cl_build h) = (b, n)" by fastforce
    show ?thesis
    proof (cases b)
      case (Inl e)
      with rej c boot bootstrap_Inl [OF boot [unfolded Inl]] show ?thesis
        by (simp add: run_serve_def)
    next
      case (Inr a)
      obtain q where q: "opened_path (ah_sqlite (cl_app h)) (sc_path (cf_storage c)) = Some q"
        "n = 0" "ap_storage a \<noteq> None"
        using bootstrap_Inr [OF boot [unfolded Inr]] by metis
      with rej c boot Inr served_once [OF q(3), of h out1] app_close_once [OF q(3)] show ?thesis
        by (simp add: run_serve_def split: option.split)
    qed
  qed
qed

text \<open>When nothing that is written fails, a report ends with its exit code.\<close>

lemma report_code:
  "\<forall>n. cl_write_error h n = None \<Longrightarrow> fst (report h text code out) = Some (Exit_Error code)"
  by (simp add: report_def write_text_def exit_with_def)

lemma reject_code:
  assumes "\<forall>n. cl_write_error h n = None" "cm_args cmd \<noteq> []"
  shows "\<exists>out'. reject_positional_args h name cmd out = (Some (Exit_Error 2), out')"
  using assms by (simp add: reject_positional_args_def report_def write_text_def exit_with_def)

lemma reject_none [simp]: "cm_args cmd = [] \<Longrightarrow> reject_positional_args h name cmd out = (None, out)"
  by (simp add: reject_positional_args_def)

lemma write_text_ok: "\<forall>n. cl_write_error h n = None \<Longrightarrow> fst (write_text h st text out) = None"
  by (simp add: write_text_def)

lemma write_lines_ok: "\<forall>n. cl_write_error h n = None \<Longrightarrow> fst (write_lines h ls out) = None"
  by (induction ls arbitrary: out) (simp_all add: write_text_def)

text \<open>What a successful \<open>serve\<close> comes down to.\<close>

definition serve_succeeds :: "cli_host \<Rightarrow> command \<Rightarrow> bool" where
  "serve_succeeds h cmd \<longleftrightarrow>
     (\<exists>c a n. cli_load h cmd = Inr c \<and> bootstrap (cl_app h) c (cl_build h) = (Inr a, n)
        \<and> cl_listen h (sv_listen (cf_server c)) = None \<and> sq_close (ah_sqlite (cl_app h)) = None
        \<and> (case cl_event h of
             Serve_Returned res \<Rightarrow> \<not> serve_failed res
           | Signalled \<Rightarrow> \<not> serve_failed (cl_serve_result h) \<and> \<not> serve_failed (cl_http_shutdown h)))"

lemma served_code:
  assumes w: "\<forall>n. cl_write_error h n = None" and st: "ap_storage a \<noteq> None"
  shows "command_exit_code (fst (fst (served h a out))) =
    (if sq_close (ah_sqlite (cl_app h)) = None
        \<and> (case cl_event h of
             Serve_Returned res \<Rightarrow> \<not> serve_failed res
           | Signalled \<Rightarrow> \<not> serve_failed (cl_serve_result h) \<and> \<not> serve_failed (cl_http_shutdown h))
     then 0 else 1)"
proof -
  let ?sq = "ah_sqlite (cl_app h)"
  obtain e n where sh: "app_shutdown ?sq (cl_http_shutdown h) a = (e, n)" by fastforce
  have "e = None \<longleftrightarrow> sq_close ?sq = None \<and> \<not> serve_failed (cl_http_shutdown h)"
    using app_shutdown_once(2) [OF st, of ?sq "cl_http_shutdown h"] sh by simp
  then show ?thesis
    using app_close_once [OF st, of ?sq] sh report_code [OF w]
    by (cases "cl_event h")
      (auto simp: served_def command_exit_code_def Let_def split: option.split)
qed

lemma run_serve_code:
  assumes w: "\<forall>n. cl_write_error h n = None"
  shows "command_exit_code (fst (fst (run_serve h cmd out))) =
    (if cm_args cmd \<noteq> [] then 2 else if serve_succeeds h cmd then 0 else 1)"
proof (cases "cm_args cmd = []")
  case False
  with reject_code [OF w False, of "''serve''" out] show ?thesis
    by (auto simp: run_serve_def command_exit_code_def)
next
  case args: True
  then have rej: "reject_positional_args h ''serve'' cmd out = (None, out)" by simp
  show ?thesis
  proof (cases "cli_load h cmd")
    case (Inl e)
    with rej args report_code [OF w] show ?thesis
      by (simp add: run_serve_def command_exit_code_def serve_succeeds_def)
  next
    case (Inr c)
    obtain b n where boot: "bootstrap (cl_app h) c (cl_build h) = (b, n)" by fastforce
    show ?thesis
    proof (cases b)
      case (Inl e)
      with rej args Inr boot report_code [OF w] show ?thesis
        by (simp add: run_serve_def command_exit_code_def serve_succeeds_def)
    next
      case (Inr a)
      have st: "ap_storage a \<noteq> None" using bootstrap_Inr [OF boot [unfolded Inr]] by metis
      show ?thesis
      proof (cases "cl_listen h (sv_listen (cf_server c))")
        case None
        with rej args \<open>cli_load h cmd = Inr c\<close> boot Inr served_code [OF w st, of out] show ?thesis
          by (simp add: run_serve_def serve_succeeds_def)
      next
        case (Some e)
        with rej args \<open>cli_load h cmd = Inr c\<close> boot Inr report_code [OF w] app_close_once [OF st]
        show ?thesis
          by (simp add: run_serve_def command_exit_code_def serve_succeeds_def)
      qed
    qed
  qed
qed

definition sample_cli :: cli_host where
  "sample_cli =
     \<lparr>cl_write_error = (\<lambda>_. None), cl_show_help = None, cl_is_print = (\<lambda>_. True),
      cl_env_config = [], cl_read_file = sample_read, cl_yaml_decode = sample_yaml,
      cl_random = Inr (replicate 32 (CHR ''A'')),
      cl_build = sample_build, cl_app = sample_app_host, cl_listen = (\<lambda>_. None),
      cl_event = Signalled, cl_http_shutdown = None,
      cl_serve_result = Some (sentinel_error ErrServerClosed)\<rparr>"

definition sample_command :: command where
  "sample_command = \<lparr>cm_args = [], cm_config = ''config.yml''\<rparr>"

lemma sample_cli_load: "cli_load sample_cli sample_command = Inr sample_config"
  using sample_loads by (simp add: cli_load_def sample_cli_def sample_command_def resolve_path_def)

lemma sample_serve_succeeds: "serve_succeeds sample_cli sample_command"
proof -
  obtain a where "bootstrap sample_app_host sample_config sample_build = (Inr a, 0)"
    using sample_bootstrap by blast
  then show ?thesis
    unfolding serve_succeeds_def sample_cli_load
    by (auto simp: sample_cli_def sample_app_host_def sample_sqlite_def serve_failed_def)
qed

lemma run_version_code:
  assumes w: "\<forall>n. cl_write_error h n = None"
  shows "command_exit_code (fst (run_version h cmd [])) = (if cm_args cmd \<noteq> [] then 2 else 0)"
proof (cases "cm_args cmd = []")
  case True
  with report_code [OF w] write_text_ok [OF w] write_lines_ok [OF w] show ?thesis
    by (simp_all add: run_version_def command_exit_code_def)
next
  case False
  with reject_code [OF w False, of "''version''" "[]"] show ?thesis
    by (auto simp: run_version_def command_exit_code_def)
qed

lemma run_generate_token_code:
  assumes w: "\<forall>n. cl_write_error h n = None"
  shows "command_exit_code (fst (run_generate_token h cmd [])) = (if cm_args cmd \<noteq> [] then 2 else if isl (cl_random h) then 1 else 0)"
proof (cases "cm_args cmd = []")
  case True
  with report_code [OF w] write_text_ok [OF w] write_lines_ok [OF w] show ?thesis
    by (cases "cl_random h") (simp_all add: run_generate_token_def command_exit_code_def generate_token_def)
next
  case False
  with reject_code [OF w False, of "''generate-token''" "[]"] show ?thesis
    by (auto simp: run_generate_token_def command_exit_code_def)
qed

lemma run_validate_config_code:
  assumes w: "\<forall>n. cl_write_error h n = None"
  shows "command_exit_code (fst (run_validate_config h cmd [])) = (if cm_args cmd \<noteq> [] then 2 else if isl (cli_load h cmd) then 1 else 0)"
proof (cases "cm_args cmd = []")
  case True
  with report_code [OF w] write_text_ok [OF w] write_lines_ok [OF w] show ?thesis
    by (cases "cli_load h cmd") (simp_all add: run_validate_config_def command_exit_code_def)
next
  case False
  with reject_code [OF w False, of "''validate-config''" "[]"] show ?thesis
    by (auto simp: run_validate_config_def command_exit_code_def)
qed



end
