(* ===== verification/Http_Log.thy ===== *)
theory Http_Log
  imports Http_Properties
begin

section \<open>The log of the HTTP API\<close>

text \<open>
  What \<open>observeRequests\<close> and \<open>logActionInvocation\<close> leave in the log: the handlers share a writer, and
  the request id that the log state ends with is the one the response carries.
\<close>

text \<open>
  A writer (or response) whose header, log state and log agree: the request id of the log state is
  the one the \<open>X-Request-Id\<close> field has, and the records so far are \<open>log\<close>.
\<close>

definition traced :: "string \<Rightarrow> log_record list \<Rightarrow> 'a http_writer_scheme \<Rightarrow> bool" where
  "traced i log w \<longleftrightarrow>
     hw_log_state w = Some i \<and> hw_log w = log
     \<and> map_of (hw_header w) ''X-Request-Id'' = (if i = [] then None else Some i)"

lemma traced_new_writer: "traced (header_request_id rq) [] (new_writer rq)"
  by (simp add: traced_def new_writer_def Let_def)

lemma traced_respond [simp]: "traced i log (respond w st b) = traced i log w"
  by (simp add: traced_def)

lemma traced_set_header [simp]: "k \<noteq> ''X-Request-Id'' \<Longrightarrow> traced i log (set_header k v w) = traced i log w"
  by (simp add: traced_def update_conv')

lemma traced_write [simp]:
  "traced i log (write_json w st b) = traced i log w"
  "traced i log (write_json_error w st msg) = traced i log w"
  "traced i log (write_status_error w st) = traced i log w"
  "traced i log (write_unauthorized w) = traced i log w"
  "traced i log (write_invocation_error ip w e) = traced i log w"
  by (simp_all add: write_json_def write_json_error_def write_status_error_def
      write_unauthorized_def write_invocation_error_def)

lemma traced_set_request_id:
  "traced i log w \<Longrightarrow> traced (if trim_space j = [] then i else trim_space j) log (set_request_id w j)"
  by (simp add: traced_def set_request_id_def Let_def update_conv')

lemma traced_healthz [simp]: "traced i log (healthz rq w) = traced i log w"
  by (simp add: healthz_def)

text \<open>The request id of an invocation is trimmed, and is the header's if there is one.\<close>

lemma extract_request_id_trimmed:
  "trim_space (extract_request_id rq input) = extract_request_id rq input"
  "extract_request_id rq input = [] \<Longrightarrow> header_request_id rq = []"
  by (auto simp: extract_request_id_def header_request_id_def split: option.splits sum.splits if_splits)

lemma traced_request_id:
  "traced (extract_request_id rq input) []
     (set_request_id (new_writer rq) (extract_request_id rq input))"
  using traced_set_request_id [OF traced_new_writer [of rq], of "extract_request_id rq input"]
    extract_request_id_trimmed [of rq input]
  by (auto split: if_splits)

lemma list_runs_traced: "list_runs sv ip rq c w x = (resp, x') \<Longrightarrow> traced i log resp = traced i log w"
  by (auto simp: list_runs_def Let_def split: option.splits sum.splits prod.splits if_splits)

lemma get_run_traced: "get_run sv c k w x = (resp, x') \<Longrightarrow> traced i log resp = traced i log w"
  by (auto simp: get_run_def split: option.splits sum.splits prod.splits if_splits)

text \<open>What an invocation leaves in the log before the request is completed.\<close>

definition invocation_logged :: "'x server \<Rightarrow> http_response \<Rightarrow> bool" where
  "invocation_logged sv resp \<longleftrightarrow>
     (\<exists>i. case re_body resp of
        Body_Run v \<Rightarrow> \<exists>r mode. v = new_run_response r \<and> mode \<in> {''sync'', ''async''}
          \<and> traced i (emit (sr_logger sv) (invocation_record r mode i) []) resp
      | _ \<Rightarrow> traced i [] resp)"

lemma invocation_logged_errors [simp]:
  "invocation_logged sv (write_json_error w st msg) \<longleftrightarrow> (\<exists>i. traced i [] w)"
  "invocation_logged sv (write_status_error w st) \<longleftrightarrow> (\<exists>i. traced i [] w)"
  "invocation_logged sv (write_unauthorized w) \<longleftrightarrow> (\<exists>i. traced i [] w)"
  "invocation_logged sv (write_invocation_error ip w e) \<longleftrightarrow> (\<exists>i. traced i [] w)"
  by (simp_all add: invocation_logged_def write_json_error_def write_status_error_def
      write_unauthorized_def write_invocation_error_def)

lemma invoke_action_logged:
  assumes "invoke_action sv h rq c n (new_writer rq) x = (resp, x')"
  shows "invocation_logged sv resp"
proof -
  have w: "\<exists>i. traced i [] (new_writer rq)" using traced_new_writer by blast
  have w1: "\<exists>i. traced i [] (set_request_id (new_writer rq) (extract_request_id rq input))" for input
    using traced_request_id by blast
  have ran: "invocation_logged sv (write_json (log_action_invocation sv r mode
        (extract_request_id rq input) (set_request_id (new_writer rq) (extract_request_id rq input)))
        st (Body_Run (new_run_response r)))"
    if "mode \<in> {''sync'', ''async''}" for r mode input st
  proof -
    let ?i = "extract_request_id rq input"
    have "traced ?i (emit (sr_logger sv) (invocation_record r mode ?i) [])
        (log_action_invocation sv r mode ?i (set_request_id (new_writer rq) ?i))"
      using traced_request_id [of rq input] by (simp add: traced_def log_action_invocation_def)
    with that show ?thesis by (auto simp: invocation_logged_def)
  qed
  show ?thesis
    using assms w w1 ran
    by (auto simp: invoke_action_defs Let_def invoke_mode_sync_def invoke_mode_async_def dest!: apfst_eqD
        split: option.splits sum.splits prod.splits if_splits)
qed

lemma serve_v1_before:
  assumes "serve sv h (Route_V1 r) rq x = (resp, x')"
  shows "\<exists>r0. resp = log_request sv h rq r0
    \<and> (r0 = write_unauthorized (new_writer rq)
       \<or> (\<exists>i. serve_v1 sv h r rq (Some i) (new_writer rq) x = (r0, x')))"
  using assms unfolding serve_v1_route
  by (auto dest!: apfst_eqD split: option.splits)

lemma log_request_traced:
  assumes "sr_logger sv = Some (new_logger format)" "traced i log r0"
  shows "hw_log (log_request sv h rq r0) = log @ [request_record h rq (re_status r0) i]
    \<and> map_of (hw_header (log_request sv h rq r0)) ''X-Request-Id'' = (if i = [] then None else Some i)"
proof -
  have "lr_level (request_record h rq (re_status r0) i) \<noteq> Level_Debug"
    by (simp add: request_record_def level_for_http_status_def)
  with assms show ?thesis by (simp add: log_request_def traced_def)
qed



end
