(* ===== verification/Flights.thy ===== *)
theory Flights
  imports App_Properties Http_Log "HOL-Library.Multiset"
begin

section \<open>Invocations in flight\<close>

text \<open>
  Requests are served concurrently, and a synchronous invocation lasts as long as its process. This
  theory cuts the handler of an invocation, with \<open>Service.Invoke\<close> inside it, at its effects on
  the shared state: the reject flags and the operations of the store. A flight is a request between two
  of them: what its handler has prepared, its thread in the sense of \<open>Exec_Machine\<close>, and what
  \<open>Invoke\<close> returns once that is known.
\<close>

record flight =
  fl_host :: host
  fl_name :: string
  fl_request :: http_request
  fl_writer :: http_writer
  fl_params :: invoke_params
  fl_thread :: thread
  fl_result :: "(go_error + run) option"

text \<open>The first effect of \<open>Invoke\<close>, after its checks.\<close>

definition admit :: "invoke_params \<Rightarrow> action \<Rightarrow> 's exec_state \<Rightarrow> (go_error + thread) \<times> 's exec_state" where
  "admit p a x =
     (let thread = (\<lambda>f. Admitted f a (clone_json (iv_input p)) (clone_json (iv_request_metadata p))
        (iv_request_id p))
      in if ac_concurrency_policy a = ''allow'' then (Inr (thread None), x)
         else if ac_concurrency_policy a = ''reject''
         then (case begin_reject_action (ac_name a) x of
             (False, x1) \<Rightarrow> (Inl (invoke_error (ac_name a) [] (sentinel_error ErrActionConflict)), x1)
           | (True, x1) \<Rightarrow> (Inr (thread (Some (ac_name a))), x1))
         else (Inl (unsupported_policy (trim_space (iv_action_name p)) a), x))"

text \<open>The response of a flight, once \<open>Invoke\<close> has returned.\<close>

definition flight_response :: "'x server \<Rightarrow> flight \<Rightarrow> go_error + run \<Rightarrow> http_response" where
  "flight_response sv fl res =
     log_request sv (fl_host fl) (fl_request fl)
       (answer_invocation sv (fl_host fl) (fl_writer fl) (fl_params fl) res)"

text \<open>
  A step takes one flight to its next effect, on any host; a step that ends a flight sends its
  response. The goroutine of an asynchronous invocation is left to the jobs of the service.
\<close>

type_synonym answered = "string \<times> http_request \<times> http_response"

inductive flight_step ::
    "'s exec_state server \<Rightarrow> 's service \<Rightarrow> 's exec_state \<times> flight list \<Rightarrow> answered option
       \<Rightarrow> 's exec_state \<times> flight list \<Rightarrow> bool"
    for sv :: "'s exec_state server" and v :: "'s service" where
  arrive:
    "sr_auth sv = Some au \<Longrightarrow> caller_of au rq = Some i \<Longrightarrow>
     prepare_invocation sv h rq (Some i) n (new_writer rq) = Inr (w, p) \<Longrightarrow>
     check_invocation v p = Inr (ops, a, mode) \<Longrightarrow> admit p a x = (Inr t, x') \<Longrightarrow>
     flight_step sv v (x, fs) None
       (x', fs @ [\<lparr>fl_host = h, fl_name = n, fl_request = rq, fl_writer = w, fl_params = p,
                   fl_thread = t, fl_result = None\<rparr>])"
| create:
    "se_store v = Some ops \<Longrightarrow> fl_thread fl = Admitted f a input md rid \<Longrightarrow>
     create_run ops h a run_status_running md True (xs_store x) = (Inr r, s') \<Longrightarrow>
     iv_mode (fl_params fl) \<noteq> invoke_mode_async \<Longrightarrow>
     flight_step sv v (x, us @ fl # vs) None
       (x\<lparr>xs_store := s'\<rparr>, us @ fl\<lparr>fl_thread := Executing (started_job r input rid f)\<rparr> # vs)"
| start_async:
    "se_store v = Some ops \<Longrightarrow> fl_thread fl = Admitted f a input md rid \<Longrightarrow>
     create_run ops h a run_status_running md True (xs_store x) = (Inr r, s') \<Longrightarrow>
     iv_mode (fl_params fl) = invoke_mode_async \<Longrightarrow>
     flight_step sv v (x, us @ fl # vs)
       (Some (fl_name fl, fl_request fl, flight_response sv fl (Inr r)))
       (start_async_invocation (action_from_stored_run r) r input rid f (x\<lparr>xs_store := s'\<rparr>), us @ vs)"
| create_failed:
    "se_store v = Some ops \<Longrightarrow> fl_thread fl = Admitted f a input md rid \<Longrightarrow>
     create_run ops h a run_status_running md True (xs_store x) = (Inl e, s') \<Longrightarrow>
     flight_step sv v (x, us @ fl # vs) None
       (x\<lparr>xs_store := s'\<rparr>, us @ fl\<lparr>fl_thread := Releasing f, fl_result := Some (Inl e)\<rparr> # vs)"
| finish:
    "se_store v = Some ops \<Longrightarrow> fl_thread fl = Executing j \<Longrightarrow>
     execute ops h Request_Context (jb_run j) (jb_action j) (jb_input j) (jb_request_id j) (xs_store x)
       = (res, s') \<Longrightarrow>
     flight_step sv v (x, us @ fl # vs) None
       (x\<lparr>xs_store := s'\<rparr>,
        us @ fl\<lparr>fl_thread := Releasing (jb_on_finish j), fl_result := Some res\<rparr> # vs)"
| answer:
    "fl_thread fl = Releasing f \<Longrightarrow> fl_result fl = Some res \<Longrightarrow>
     flight_step sv v (x, us @ fl # vs)
       (Some (fl_name fl, fl_request fl, flight_response sv fl res))
       (release_flag f x, us @ vs)"

inductive flight_run ::
    "'s exec_state server \<Rightarrow> 's service \<Rightarrow> 's exec_state \<times> flight list \<Rightarrow> answered list
       \<Rightarrow> 's exec_state \<times> flight list \<Rightarrow> bool"
    for sv :: "'s exec_state server" and v :: "'s service" where
  start: "flight_run sv v m [] m"
| silent: "flight_run sv v m es m' \<Longrightarrow> flight_step sv v m' None m'' \<Longrightarrow> flight_run sv v m es m''"
| answered: "flight_run sv v m es m' \<Longrightarrow> flight_step sv v m' (Some e) m'' \<Longrightarrow>
    flight_run sv v m (es @ [e]) m''"

subsection \<open>Threads in another order\<close>

lemma flags_mset: "mset (flags ts) = image_mset the (filter_mset (\<lambda>f. f \<noteq> None) (image_mset holds (mset ts)))"
  by (induction ts) (auto split: option.split)

lemma machine_inv_perm:
  assumes "mset ts' = mset ts" "machine_inv ok lookup reg (x, ts)"
  shows "machine_inv ok lookup reg (x, ts')"
proof -
  have s: "set ts' = set ts" using assms(1) by (rule mset_eq_setD)
  have f: "mset (flags ts') = mset (flags ts)" by (simp add: flags_mset assms(1))
  have j: "mset (jobs_of ts') = mset (jobs_of ts)"
  proof -
    have "mset (jobs_of us) = image_mset (\<lambda>t. case t of Executing j \<Rightarrow> j)
        (filter_mset (\<lambda>t. \<exists>j. t = Executing j) (mset us))" for us
      by (induction us rule: jobs_of.induct) auto
    then show ?thesis by (simp add: assms(1))
  qed
  have "distinct (map (\<lambda>j. rn_id (jb_run j)) (jobs_of ts'))
      = distinct (map (\<lambda>j. rn_id (jb_run j)) (jobs_of ts))"
    by (rule mset_eq_imp_distinct_iff) (simp add: j)
  with assms(2) s f j mset_eq_imp_distinct_iff [OF f] mset_eq_setD [OF f] mset_eq_setD [OF j]
  show ?thesis by (simp add: machine_inv_def flags_inv_def jobs_inv_def)
qed

subsection \<open>The invariant\<close>

text \<open>
  What is known of a flight: its caller may access the action, and the run it works on, or has
  ended with, is a run of this action.
\<close>

definition flight_ok :: "auth_service \<Rightarrow> (string \<Rightarrow> run option) \<Rightarrow> flight \<Rightarrow> bool" where
  "flight_ok au stored fl \<longleftrightarrow>
     (\<exists>i. caller_of au (fl_request fl) = Some i
        \<and> identity_allows_action i (trim_space (fl_name fl)))
     \<and> (case fl_thread fl of
          Admitted f a input md rid \<Rightarrow> ac_name a = trim_space (fl_name fl)
        | Executing j \<Rightarrow> (\<exists>r. stored (rn_id (jb_run j)) = Some r \<and> rn_action_name r = trim_space (fl_name fl))
        | Releasing f \<Rightarrow> fl_result fl \<noteq> None
            \<and> (\<forall>r. fl_result fl = Some (Inr r) \<longrightarrow> stored (rn_id r) = Some r
              \<and> rn_action_name r = trim_space (fl_name fl) \<and> terminal_status (rn_status r)))"

lemma flight_ok_progress:
  assumes "flight_ok au st fl" "\<And>k. run_progress (st k) (st' k)"
  shows "flight_ok au st' fl"
proof -
  have p: "\<exists>q. st' k = Some q \<and> rn_action_name q = rn_action_name r
      \<and> (terminal_status (rn_status r) \<longrightarrow> q = r)" if "st k = Some r" for k r
    using assms(2) [of k] that terminal_not_running by (auto simp: run_progress_def split: option.splits)
  show ?thesis
    using assms(1) by (auto simp: flight_ok_def split: thread.splits dest: p)
qed

definition flights_inv ::
    "action_registry \<Rightarrow> auth_service \<Rightarrow> store exec_state \<times> flight list \<Rightarrow> bool" where
  "flights_inv reg au m \<longleftrightarrow>
     machine_inv store_inv store_lookup reg (machine_of (map fl_thread (snd m)) (fst m))
     \<and> (\<forall>fl \<in> set (snd m). flight_ok au (state_lookup (fst m)) fl)"

lemma machine_of_store [simp]: "xs_store (fst (machine_of ts x)) = xs_store x"
  by (simp add: machine_of_def)

lemma flights_inv_store: "flights_inv reg au (x, fs) \<Longrightarrow> store_inv (xs_store x)"
  by (simp add: flights_inv_def machine_inv_def)

lemma flights_inv_state_ok: "flights_inv reg au (x, fs) \<Longrightarrow> registry_wf reg \<Longrightarrow> state_ok reg x"
  using flights_inv_store by (simp add: state_ok_def)

text \<open>A step of the machine under the flights; the flights it does not move are fine.\<close>

lemma flights_inv_step:
  assumes inv: "flights_inv reg au (x, fs)" and reg: "registry_wf reg"
    and st: "exec_step (store_ops now) reg (machine_of (map fl_thread fs) x) (shared_state x', ts)"
    and ts: "mset ts = mset (map fl_thread fs' @ map Executing (xs_jobs x'))"
    and moved: "\<And>fl. fl \<in> set fs' \<Longrightarrow> fl \<notin> set fs \<Longrightarrow> flight_ok au (state_lookup x') fl"
  shows "flights_inv reg au (x', fs') \<and> run_progress (state_lookup x k) (state_lookup x' k)"
proof -
  from inv have m: "machine_inv store_inv store_lookup reg (machine_of (map fl_thread fs) x)"
    by (simp add: flights_inv_def)
  have p: "run_progress (state_lookup x k) (state_lookup x' k)" for k
    using sqlite.exec_step_invariant [OF st m reg, of k] by (simp add: state_lookup_def)
  have "machine_inv store_inv store_lookup reg (shared_state x', ts)"
    using sqlite.exec_step_invariant [OF st m reg] by simp
  with machine_inv_perm [OF ts [symmetric]]
  have "machine_inv store_inv store_lookup reg (machine_of (map fl_thread fs') x')"
    by (simp add: machine_of_def)
  moreover have "flight_ok au (state_lookup x') fl" if "fl \<in> set fs'" for fl
  proof (cases "fl \<in> set fs")
    case True
    with inv p show ?thesis by (auto simp: flights_inv_def intro: flight_ok_progress)
  next
    case False
    with that moved show ?thesis by blast
  qed
  ultimately show ?thesis using p by (simp add: flights_inv_def)
qed

lemma prepare_invocation_Inr:
  assumes "prepare_invocation sv h rq c n w0 = Inr (w, p)"
  obtains i where "c = Some i" "identity_allows_action i (trim_space n)"
    "trim_space (iv_action_name p) = trim_space n" "iv_mode p = ''sync'' \<or> iv_mode p = ''async''"
    "trim_space (iv_mode p) = iv_mode p" "sr_exec sv \<noteq> None"
proof -
  have "trim_space ''sync'' = ''sync''" "trim_space ''async'' = ''async''" by code_simp+
  with that assms show thesis
    by (auto simp: prepare_invocation_def Let_def request_identity_def authorize_action_iff
        invoke_mode_sync_def invoke_mode_async_def split: option.splits sum.splits if_splits)
qed

lemma check_invocation_Inr:
  assumes "check_invocation v p = Inr (ops, a, mode)"
  shows "se_store v = Some ops" "registry_get (se_registry v) (trim_space (iv_action_name p)) = Some a"
    "is_enabled a" "normalize_invoke_mode (iv_mode p) = Inr mode"
  using assms
  by (auto simp: check_invocation_def Let_def split: option.splits sum.splits if_splits)

lemma admit_Inr:
  assumes "admit p a x = (Inr t, x')"
  obtains (allow) "ac_concurrency_policy a = ''allow''" "x' = x"
      "t = Admitted None a (iv_input p) (iv_request_metadata p) (iv_request_id p)"
  | (reject) "ac_concurrency_policy a = ''reject''" "begin_reject_action (ac_name a) x = (True, x')"
      "t = Admitted (Some (ac_name a)) a (iv_input p) (iv_request_metadata p) (iv_request_id p)"
  using assms by (auto simp: admit_def split: if_splits prod.splits bool.splits)

lemma begin_reject_shared:
  "begin_reject_action n x = (b, x') \<Longrightarrow>
     begin_reject_action n (shared_state x) = (b, shared_state x') \<and> xs_jobs x' = xs_jobs x"
  by (auto simp: begin_reject_action_def shared_state_def split: if_splits)

text \<open>The server and the service of the program.\<close>

abbreviation program_service where
  "program_service now reg \<equiv> new_service (Some (store_ops now)) reg"

lemma new_service_parts [simp]:
  "se_store (new_service s reg) = s" "se_registry (new_service s reg) = reg"
  by (simp_all add: new_service_def)

lemma shared_state_store [simp]:
  "shared_state (x\<lparr>xs_store := s\<rparr>) = (shared_state x)\<lparr>xs_store := s\<rparr>"
  "shared_state (release_flag f x) = release_flag f (shared_state x)"
  by (simp_all add: shared_state_def release_defs split: option.split)

lemma release_flag_jobs [simp]: "xs_jobs (release_flag f x) = xs_jobs x"
  by (simp add: release_defs split: option.split)

lemma flight_step_invariant:
  assumes "flight_step (api_server lg now reg au) (program_service now reg) m ev m'"
    and "flights_inv reg au m" and reg: "registry_wf reg"
  shows "flights_inv reg au m' \<and> run_progress (state_lookup (fst m) k) (state_lookup (fst m') k)"
  using assms(1,2)
proof (induction rule: flight_step.induct)
  case (arrive au' rq i h n w p ops a mode x t x' fs)
  let ?fl = "\<lparr>fl_host = h, fl_name = n, fl_request = rq, fl_writer = w, fl_params = p,
    fl_thread = t, fl_result = None\<rparr>"
  from arrive.hyps(3) obtain name: "identity_allows_action i (trim_space n)"
    "trim_space (iv_action_name p) = trim_space n"
    by (auto elim: prepare_invocation_Inr)
  note ck = check_invocation_Inr [OF arrive.hyps(4)]
  have a: "registry_get reg (trim_space n) = Some a" using ck(2) name(2) by simp
  then have an: "ac_name a = trim_space n" using reg by (simp add: registry_wf_def)
  let ?ts = "map fl_thread fs @ map Executing (xs_jobs x)"
  have st: "exec_step (store_ops now) reg (shared_state x, ?ts) (shared_state x', ?ts @ [t])
      \<and> xs_jobs x' = xs_jobs x"
    using arrive.hyps(5)
  proof (cases rule: admit_Inr)
    case allow
    with exec_step.admit_allow [OF a ck(3) allow(1), of "store_ops now" "shared_state x" ?ts]
    show ?thesis by simp
  next
    case reject
    note b = begin_reject_shared [OF reject(2)]
    from exec_step.admit_reject [OF a ck(3) reject(1) conjunct1 [OF b], of "store_ops now" ?ts] b reject(3)
    show ?thesis by simp
  qed
  have "flight_ok au (state_lookup x') ?fl"
    using arrive.hyps(1,2,5) name an by (auto simp: flight_ok_def elim!: admit_Inr)
  with st show ?case unfolding fst_conv
    by (intro flights_inv_step [OF arrive.prems reg, of now _ "?ts @ [t]"])
      (auto simp: machine_of_def)
next
  case (create ops fl f a input md rid h x r s' us vs)
  let ?fl = "fl\<lparr>fl_thread := Executing (started_job r input rid f)\<rparr>"
  have ops: "ops = store_ops now" using create.hyps(1) by simp
  from create.prems have fl: "flight_ok au (state_lookup x) fl" by (simp add: flights_inv_def)
  from flights_inv_store [OF create.prems] have "store_inv (xs_store x)" .
  from sqlite.create_run_Inr [OF this create.hyps(3) [unfolded ops]] have
    new: "store_lookup s' (rn_id r) = Some r" "rn_action_name r = ac_name a"
    by auto
  have "flight_ok au (state_lookup (x\<lparr>xs_store := s'\<rparr>)) ?fl"
    using fl create.hyps(2) new by (simp add: flight_ok_def state_lookup_def started_job_def)
  with create.hyps(2,3) exec_step.create [of ops h a md "shared_state x" r s' reg "map fl_thread us" f
      input rid "map fl_thread vs @ map Executing (xs_jobs x)"]
  show ?case unfolding fst_conv
    by (intro flights_inv_step [OF create.prems reg, of now _ "map fl_thread (us @ ?fl # vs)
        @ map Executing (xs_jobs x)"]) (auto simp: machine_of_def ops)
next
  case (start_async ops fl f a input md rid h x r s' us vs)
  let ?x = "start_async_invocation (action_from_stored_run r) r input rid f (x\<lparr>xs_store := s'\<rparr>)"
  have "shared_state ?x = (shared_state x)\<lparr>xs_store := s'\<rparr>"
    "xs_jobs ?x = xs_jobs x @ [started_job r input rid f]"
    by (simp_all add: start_async_invocation_def started_job_def shared_state_def)
  with start_async.hyps(1-3) exec_step.create [of ops h a md "shared_state x" r s' reg "map fl_thread us" f
      input rid "map fl_thread vs @ map Executing (xs_jobs x)"]
  show ?case unfolding fst_conv
    by (intro flights_inv_step [OF start_async.prems reg, of now _ "map fl_thread us
        @ Executing (started_job r input rid f) # map fl_thread vs @ map Executing (xs_jobs x)"])
      (auto simp: machine_of_def)
next
  case (create_failed ops fl f a input md rid h x e s' us vs)
  let ?fl = "fl\<lparr>fl_thread := Releasing f, fl_result := Some (Inl e)\<rparr>"
  have "flight_ok au (state_lookup (x\<lparr>xs_store := s'\<rparr>)) ?fl"
    using create_failed.prems by (simp add: flights_inv_def flight_ok_def)
  with create_failed.hyps exec_step.create_failed [of ops h a md "shared_state x" e s' reg
      "map fl_thread us" f input rid "map fl_thread vs @ map Executing (xs_jobs x)"]
  show ?case unfolding fst_conv
    by (intro flights_inv_step [OF create_failed.prems reg, of now _ "map fl_thread (us @ ?fl # vs)
        @ map Executing (xs_jobs x)"]) (auto simp: machine_of_def)
next
  case (finish ops fl j h x res s' us vs)
  let ?fl = "fl\<lparr>fl_thread := Releasing (jb_on_finish j), fl_result := Some res\<rparr>"
  have ops: "ops = store_ops now" using finish.hyps(1) by simp
  have fl: "flight_ok au (state_lookup x) fl" and m: "machine_inv store_inv store_lookup reg
      (shared_state x, map fl_thread us @ Executing j # map fl_thread vs @ map Executing (xs_jobs x))"
    using finish.prems finish.hyps(2) by (simp_all add: flights_inv_def machine_of_def)
  note run = finish.hyps(3) [unfolded ops]
  have "rn_action_name q = trim_space (fl_name fl) \<and> store_lookup s' (rn_id q) = Some q
      \<and> terminal_status (rn_status q)" if "res = Inr q" for q
  proof -
    note inv = flights_inv_store [OF finish.prems]
    from sqlite.execute_answer [OF inv run [unfolded that]] sqlite.execute_frame [OF inv run]
    have q: "store_lookup s' (rn_id (jb_run j)) = Some q" "terminal_status (rn_status q)" "store_inv s'"
      by blast+
    have "rn_id q = rn_id (jb_run j)"
      by (rule store_lookup_id [OF q(1)])
    moreover have "run_progress (store_lookup (xs_store x) (rn_id (jb_run j))) (Some q)"
      using sqlite.finish_step(2) [OF m, of now h Request_Context res s' "rn_id (jb_run j)"] run q(1) by simp
    ultimately show ?thesis
      using fl finish.hyps(2) q by (auto simp: flight_ok_def state_lookup_def run_progress_def)
  qed
  then have "flight_ok au (state_lookup (x\<lparr>xs_store := s'\<rparr>)) ?fl"
    using fl by (simp add: flight_ok_def state_lookup_def)
  with finish.hyps exec_step.finish [of ops h Request_Context j "shared_state x" res s' reg
      "map fl_thread us" "map fl_thread vs @ map Executing (xs_jobs x)"]
  show ?case unfolding fst_conv
    by (intro flights_inv_step [OF finish.prems reg, of now _ "map fl_thread (us @ ?fl # vs)
        @ map Executing (xs_jobs x)"]) (auto simp: machine_of_def)
next
  case (answer fl f res x us vs)
  with exec_step.release [of "store_ops now" reg "shared_state x" "map fl_thread us" f
      "map fl_thread vs @ map Executing (xs_jobs x)"]
  show ?case unfolding fst_conv
    by (intro flights_inv_step [OF answer.prems reg, of now _ "map fl_thread (us @ vs)
        @ map Executing (xs_jobs x)"]) (auto simp: machine_of_def)
qed

text \<open>The response of a flight shows its run to a caller who may access it.\<close>

lemma flight_response_body:
  "re_body (flight_response sv fl (Inr r)) = Body_Run (new_run_response r)"
  "shown_runs (re_body (flight_response sv fl (Inl e))) = []"
  by (simp_all add: flight_response_def answer_invocation_def)

lemma flight_answer_allowed:
  assumes st: "flight_step (api_server lg now reg au) (program_service now reg) m (Some (n, rq, resp)) m'"
    and inv: "flights_inv reg au m" and reg: "registry_wf reg"
  shows "shows_allowed (state_lookup (fst m')) (caller_of au rq) resp"
  using st
proof (cases rule: flight_step.cases)
  case (start_async ops fl f a input md rid h x r s' us vs)
  have ops: "ops = store_ops now" using \<open>se_store _ = Some ops\<close> by simp
  from inv have "store_inv (xs_store x)" unfolding start_async(1) by (rule flights_inv_store)
  from sqlite.create_run_Inr [OF this, of now h a run_status_running md True r s'] start_async ops have
    "store_lookup s' (rn_id r) = Some r" "rn_action_name r = ac_name a" by auto
  moreover have "flight_ok au (state_lookup x) fl"
    using inv start_async(1) by (simp add: flights_inv_def)
  ultimately show ?thesis using start_async
    by (auto simp: shows_allowed_def flight_response_body flight_ok_def state_lookup_def
        start_async_invocation_def)
next
  case (answer fl f res x us vs)
  have "flight_ok au (state_lookup x) fl" using inv answer(1) by (simp add: flights_inv_def)
  with answer show ?thesis
    by (cases res) (auto simp: shows_allowed_def flight_response_body flight_ok_def state_lookup_def)
qed

text \<open>A flight is never stuck: it has a next step, and it answers after at most three.\<close>

lemma flight_moves:
  assumes v: "se_store v = Some ops" and ok: "flight_ok au st fl"
  obtains (answers) resp y where "flight_step sv v (x, us @ fl # vs)
      (Some (fl_name fl, fl_request fl, resp)) (y, us @ vs)"
  | (advances) fl' y where "flight_step sv v (x, us @ fl # vs) None (y, us @ fl' # vs)"
      "fl_name fl' = fl_name fl" "fl_request fl' = fl_request fl"
      "thread_work (fl_thread fl') < thread_work (fl_thread fl)"
proof (cases "fl_thread fl")
  case (Admitted f a input md rid)
  obtain c s where cr: "create_run ops undefined a run_status_running md True (xs_store x) = (c, s)"
    by fastforce
  show thesis
  proof (cases c)
    case (Inl e)
    from create_failed [OF v Admitted cr [unfolded Inl]] show thesis by (rule advances) (simp_all add: Admitted)
  next
    case (Inr r)
    note cr = cr [unfolded Inr]
    show thesis
    proof (cases "iv_mode (fl_params fl) = invoke_mode_async")
      case True
      from start_async [OF v Admitted cr this] show thesis by (rule answers)
    next
      case False
      from create [OF v Admitted cr this] show thesis by (rule advances) (simp_all add: Admitted)
    qed
  qed
next
  case (Executing j)
  obtain res s where "execute ops undefined Request_Context (jb_run j) (jb_action j) (jb_input j)
      (jb_request_id j) (xs_store x) = (res, s)" by fastforce
  from finish [OF v Executing this] show thesis by (rule advances) (simp_all add: Executing)
next
  case (Releasing f)
  with ok obtain res where "fl_result fl = Some res" by (auto simp: flight_ok_def)
  from answer [OF Releasing this] show thesis by (rule answers)
qed

subsection \<open>A request on its own\<close>

text \<open>\<open>Invoke\<close> from its admission on, when no other request comes in between.\<close>

lemma invoke_admitted:
  assumes "check_invocation v p = Inr (ops, a, mode)"
    and "admit p a x = (Inr (Admitted f b input md rid), x1)"
  shows "invoke v h p x =
    (case create_run ops h b run_status_running md True (xs_store x1) of
       (Inl e, s') \<Rightarrow> (Inl e, release_flag f (x1\<lparr>xs_store := s'\<rparr>))
     | (Inr r, s') \<Rightarrow>
         if mode = invoke_mode_async
         then (Inr r, start_async_invocation (action_from_stored_run r) r input rid f (x1\<lparr>xs_store := s'\<rparr>))
         else (case execute ops h Request_Context r (action_from_stored_run r) input rid s' of
             (res, s'') \<Rightarrow> (res, release_flag f (x1\<lparr>xs_store := s''\<rparr>))))"
  using assms(2)
proof (cases rule: admit_Inr)
  case allow
  with assms(1) show ?thesis
    by (simp add: invoke_def invoke_allow_def release_flag_def Let_def split: sum.splits prod.splits)
next
  case reject
  with assms(1) show ?thesis
    by (simp add: invoke_def invoke_reject_def release_flag_def Let_def split: sum.splits prod.splits)
qed

lemma invoke_not_admitted:
  assumes "check_invocation v p = Inr (ops, a, mode)" "admit p a x = (Inl e, x1)"
  shows "invoke v h p x = (Inl e, x) \<and> x1 = x"
  using assms
  by (auto simp: invoke_def admit_def invoke_reject_def begin_reject_action_def Let_def split: if_splits)

lemma admit_Admitted: "admit p a x = (Inr t, x') \<Longrightarrow> \<exists>f b input md rid. t = Admitted f b input md rid"
  by (auto elim: admit_Inr)

lemma prepare_invocation_Inl:
  "prepare_invocation sv h rq c n w = Inl resp \<Longrightarrow> shown_runs (re_body resp) = []"
  by (auto simp: prepare_invocation_def Let_def split: option.splits sum.splits if_splits)

text \<open>The flight of one request from its arrival to its answer.\<close>

lemma admitted_flight:
  assumes v: "se_store v = Some ops" and ck: "check_invocation v p = Inr (ops, a, mode)"
    and ad: "admit p a x = (Inr t, x1)" and mode: "iv_mode p = mode"
    and fl: "fl = \<lparr>fl_host = h, fl_name = n, fl_request = rq, fl_writer = w, fl_params = p,
      fl_thread = t, fl_result = None\<rparr>"
    and arrived: "flight_step sv v (x, fs) None (x1, fs @ [fl])"
    and op: "invoke v h p x = (res, x')"
  shows "flight_run sv v (x, fs) [(n, rq, flight_response sv fl res)] (x', fs)"
proof -
  obtain f b input md rid where t: "t = Admitted f b input md rid" using admit_Admitted [OF ad] by blast
  note inv = invoke_admitted [OF ck ad [unfolded t], of h, unfolded op]
  have th: "fl_thread fl = Admitted f b input md rid" by (simp add: fl t)
  note run0 = silent [OF start arrived]
  have last: ?thesis
    if "flight_run sv v (x, fs) [] (y, fs @ [g])" "fl_thread g = Releasing f" "fl_result g = Some res"
      "g = fl\<lparr>fl_thread := fl_thread g, fl_result := fl_result g\<rparr>" "x' = release_flag f y" for y g
  proof -
    have "flight_response sv g res = flight_response sv fl res" "fl_name g = n" "fl_request g = rq"
      by (subst that(4), simp add: flight_response_def fl)+
    then show ?thesis
      using answered [OF that(1), of "(n, rq, flight_response sv fl res)" "(x', fs)"]
        flight_step.answer [OF that(2,3), of sv v y fs "[]"] that(5) by simp
  qed
  obtain c s1 where cr: "create_run ops h b run_status_running md True (xs_store x1) = (c, s1)"
    by fastforce
  show ?thesis
  proof (cases c)
    case (Inl e)
    with inv cr have e: "res = Inl e" "x' = release_flag f (x1\<lparr>xs_store := s1\<rparr>)" by simp_all
    show ?thesis
      by (rule last [OF silent [OF run0 flight_step.create_failed [OF v th cr [unfolded Inl], of sv fs "[]"]]])
        (simp_all add: e)
  next
    case (Inr r)
    note cr = cr [unfolded Inr]
    show ?thesis
    proof (cases "mode = invoke_mode_async")
      case True
      with inv cr have e: "res = Inr r"
        "x' = start_async_invocation (action_from_stored_run r) r input rid f (x1\<lparr>xs_store := s1\<rparr>)"
        by simp_all
      from flight_step.start_async [OF v th cr, of sv fs "[]"] True mode
      have "flight_step sv v (x1, fs @ [fl]) (Some (n, rq, flight_response sv fl res)) (x', fs)"
        by (simp add: e fl)
      from answered [OF run0 this] show ?thesis by simp
    next
      case False
      obtain s2 where ex: "execute ops h Request_Context r (action_from_stored_run r) input rid s1 = (res, s2)"
        and x': "x' = release_flag f (x1\<lparr>xs_store := s2\<rparr>)"
        using inv cr False by (auto split: prod.splits)
      let ?j = "started_job r input rid f"
      let ?g = "fl\<lparr>fl_thread := Executing ?j\<rparr>"
      have j: "jb_run ?j = r" "jb_action ?j = action_from_stored_run r" "jb_input ?j = input"
        "jb_request_id ?j = rid" by (simp_all add: started_job_def)
      have "iv_mode (fl_params fl) \<noteq> invoke_mode_async" using False mode by (simp add: fl)
      from silent [OF run0] flight_step.create [OF v th cr this, of sv fs "[]"]
      have run1: "flight_run sv v (x, fs) [] (x1\<lparr>xs_store := s1\<rparr>, fs @ [?g])" by simp
      have "execute ops h Request_Context (jb_run ?j) (jb_action ?j) (jb_input ?j) (jb_request_id ?j)
          (xs_store (x1\<lparr>xs_store := s1\<rparr>)) = (res, s2)" using ex by (simp add: j)
      note fin = flight_step.finish [OF v _ this, of ?g sv fs "[]"]
      show ?thesis
        by (rule last [OF silent [OF run1 fin]]) (simp_all add: x' started_job_def)
    qed
  qed
qed

lemma invocation_flight:
  fixes lg now reg au
  defines "sv \<equiv> api_server lg now reg au" and "v \<equiv> program_service now reg"
  assumes caller: "caller_of au rq = Some i"
    and prep: "prepare_invocation sv h rq (Some i) n (new_writer rq) = Inr (w, p)"
    and inv: "invoke v h p x = (res, x')"
  shows "(\<exists>e. res = Inl e) \<and> x' = x
    \<or> flight_run sv v (x, fs) [(n, rq, log_request sv h rq (answer_invocation sv h w p res))] (x', fs)"
proof (cases "check_invocation v p")
  case (Inl e)
  with inv show ?thesis by (auto simp: invoke_def)
next
  case (Inr oam)
  then obtain ops a m where ck: "check_invocation v p = Inr (ops, a, m)" by (cases oam) auto
  from prep have mode: "iv_mode p = m"
    using check_invocation_Inr(4) [OF ck]
    by (elim prepare_invocation_Inr)
      (auto simp: normalize_invoke_mode_def invoke_mode_sync_def invoke_mode_async_def Let_def)
  obtain t x1 where ad: "admit p a x = (t, x1)" by fastforce
  show ?thesis
  proof (cases t)
    case (Inl e)
    with invoke_not_admitted [OF ck, of x e x1 h] ad inv show ?thesis by simp
  next
    case (Inr t')
    note ad = ad [unfolded Inr]
    have "sr_auth sv = Some au" by (simp add: sv_def)
    note arrived = flight_step.arrive [OF this caller prep ck ad, of fs]
    from admitted_flight [OF check_invocation_Inr(1) [OF ck] ck ad mode refl arrived inv]
    show ?thesis by (simp add: flight_response_def)
  qed
qed

text \<open>
  C13: a request to invoke an action, served with no other request in between, is refused
  without an effect and shows no run, or it is the sequence of the steps of one flight, from its arrival to
  its answer, with the same response and the same final state, whatever else is in flight.
\<close>

theorem request_is_flight:
  assumes "serve (api_server lg now reg au) h (Route_V1 (V1_Invoke_Action n)) rq x = (resp, x')"
  shows "x' = x \<and> shown_runs (re_body resp) = []
    \<or> flight_run (api_server lg now reg au) (new_service (Some (store_ops now)) reg)
        (x, fs) [(n, rq, resp)] (x', fs)"
proof (cases "caller_of au rq")
  case None
  with assms show ?thesis by (auto simp: serve_v1_route)
next
  case (Some i)
  let ?sv = "api_server lg now reg au" and ?v = "program_service now reg"
  obtain r0 where r0: "invoke_action ?sv h rq (Some i) n (new_writer rq) x = (r0, x')"
    "resp = log_request ?sv h rq r0"
    using assms Some by (auto simp: serve_v1_route serve_v1_def dest!: apfst_eqD)
  show ?thesis
  proof (cases "prepare_invocation ?sv h rq (Some i) n (new_writer rq)")
    case (Inl r)
    with r0 prepare_invocation_Inl [OF Inl] show ?thesis by (simp add: invoke_action_def)
  next
    case (Inr wp)
    then obtain w p where prep: "prepare_invocation ?sv h rq (Some i) n (new_writer rq) = Inr (w, p)"
      by (cases wp) simp
    obtain res where inv: "invoke ?v h p x = (res, x')" and ans: "r0 = answer_invocation ?sv h w p res"
      using r0(1) by (auto simp: invoke_action_def prep dest!: apfst_eqD)
    from invocation_flight [OF Some prep inv, of fs] show ?thesis
    proof
      assume "(\<exists>e. res = Inl e) \<and> x' = x"
      then show ?thesis by (auto simp: r0(2) ans answer_invocation_def)
    qed (simp add: r0(2) ans)
  qed
qed

theorem request_is_flight_witness:
  "\<exists>resp x'. flight_run (api_server None 0 sample_registry sample_auth)
       (new_service (Some (store_ops 0)) sample_registry) (sample_state, [])
       [(''deploy'', async_request, resp)] (x', []) \<and> re_status resp = 202"
proof -
  obtain resp x' q where op: "serve (api_server None 0 sample_registry sample_auth) sample_host
       (Route_V1 (V1_Invoke_Action ''deploy'')) async_request sample_state = (resp, x')"
    and q: "shown_runs (re_body resp) = [new_run_response q]" and st: "re_status resp = 202"
    by (rule async_request_accepted)
  from request_is_flight [OF op, of "[]"] q st show ?thesis by auto
qed

end
