(* ===== verification/System.thy ===== *)
theory System
  imports Flights
begin

section \<open>The running service\<close>

text \<open>
  The parts together, over the life of the service: from a bootstrap on, requests are served
  concurrently, goroutines of asynchronous invocations run to their end, and at any point the process
  may be killed and started again, with another configuration, on what is in the database. A
  request to invoke an action is a flight of \<open>Flights\<close>, whose steps interleave with everything else; a
  whole request may also be served at once, as those that read the store or are refused are.
\<close>

datatype system_event =
    Served config http_route http_request http_response
  | Advanced
  | Job_Ended
  | Restarted

type_synonym system = "app \<times> flight list"

text \<open>
  After a restart nothing is in flight, and the driver may fail in other places, hence the new script
  of faults.
\<close>

inductive system_step :: "system \<Rightarrow> system_event \<Rightarrow> system \<Rightarrow> bool" where
  request:
    "serve (ap_http a) h route rq (ap_state a) = (resp, x) \<Longrightarrow>
     system_step (a, fs) (Served (ap_config a) route rq resp) (a\<lparr>ap_state := x\<rparr>, fs)"
| flight:
    "ap_executor a = Some v \<Longrightarrow> flight_step (ap_http a) v (ap_state a, fs) None (x, fs') \<Longrightarrow>
     system_step (a, fs) Advanced (a\<lparr>ap_state := x\<rparr>, fs')"
| flight_answer:
    "ap_executor a = Some v \<Longrightarrow> flight_step (ap_http a) v (ap_state a, fs) (Some (n, rq, resp)) (x, fs') \<Longrightarrow>
     system_step (a, fs) (Served (ap_config a) (Route_V1 (V1_Invoke_Action n)) rq resp)
       (a\<lparr>ap_state := x\<rparr>, fs')"
| job:
    "ap_executor a = Some v \<Longrightarrow> se_store v = Some ops \<Longrightarrow> xs_jobs (ap_state a) = us @ j # vs \<Longrightarrow>
     system_step (a, fs) Job_Ended
       (a\<lparr>ap_state := run_job ops h j ((ap_state a)\<lparr>xs_jobs := us @ vs\<rparr>)\<rparr>, fs)"
| restart:
    "load rf yd path = Inr c \<Longrightarrow>
     (\<And>q. opened_path (ah_sqlite h) (sc_path (cf_storage c)) = Some q \<Longrightarrow>
       sq_database (ah_sqlite h) q = (xs_store (ap_state a))\<lparr>st_faults := faults\<rparr>) \<Longrightarrow>
     bootstrap h c b = (Inr a', n) \<Longrightarrow>
     system_step (a, fs) Restarted (a', [])"

inductive system_run :: "system \<Rightarrow> system_event list \<Rightarrow> system \<Rightarrow> bool" where
  start: "system_run a [] a"
| step: "system_run a es a' \<Longrightarrow> system_step a' e a'' \<Longrightarrow> system_run a (es @ [e]) a''"

lemma system_run_Nil [simp]: "system_run m [] m' \<longleftrightarrow> m' = m"
  by (auto elim: system_run.cases intro: system_run.start)

inductive_cases system_run_snocE: "system_run a (es @ [e]) a'"

lemma system_run_snoc: "system_run m (es @ [e]) m' \<longleftrightarrow> (\<exists>d. system_run m es d \<and> system_step d e m')"
  by (blast elim: system_run_snocE intro: step)

lemma system_run_append:
  "system_run m (es @ fs) c \<longleftrightarrow> (\<exists>b. system_run m es b \<and> system_run b fs c)"
proof (induction fs arbitrary: c rule: rev_induct)
  case Nil
  show ?case by (cases c) simp
next
  case (snoc f fs)
  have "system_run m (es @ fs @ [f]) c \<longleftrightarrow> (\<exists>d. system_run m (es @ fs) d \<and> system_step d f c)"
    using system_run_snoc [of m "es @ fs"] by simp
  also have "\<dots> \<longleftrightarrow> (\<exists>b. system_run m es b \<and> system_run b (fs @ [f]) c)"
    unfolding snoc system_run_snoc by blast
  finally show ?case .
qed

lemma system_run_one [simp]: "system_run a [e] a' \<longleftrightarrow> system_step a e a'"
  using step [OF start, of a e a'] system_run_snocE [of a "[]" e a'] by auto

subsection \<open>The invariant\<close>

definition app_wired :: "time \<Rightarrow> app \<Rightarrow> bool" where
  "app_wired now a \<longleftrightarrow>
     (let reg = config_action_registry (ap_config a) in
      auth_new (cf_auth (ap_config a)) = Inr (ap_auth a)
      \<and> ap_http a = api_server (Some (ap_logger a)) now reg (ap_auth a)
      \<and> ap_executor a = Some (new_service (Some (store_ops now)) reg)
      \<and> registry_wf reg)"

definition system_inv :: "system \<Rightarrow> bool" where
  "system_inv m \<longleftrightarrow>
     (\<exists>now. app_wired now (fst m))
     \<and> flights_inv (config_action_registry (ap_config (fst m))) (ap_auth (fst m))
         (ap_state (fst m), snd m)"

text \<open>The runs that are stored, as the API looks them up.\<close>

abbreviation stored_runs :: "system \<Rightarrow> string \<Rightarrow> run option" where
  "stored_runs m \<equiv> state_lookup (ap_state (fst m))"

lemma app_wired_state [simp]: "app_wired now (a\<lparr>ap_state := x\<rparr>) = app_wired now a"
  by (simp add: app_wired_def)

lemma system_invE:
  assumes "system_inv (a, fs)"
  obtains now where "app_wired now a" "registry_wf (config_action_registry (ap_config a))"
    "ap_http a = api_server (Some (ap_logger a)) now (config_action_registry (ap_config a)) (ap_auth a)"
    "ap_executor a = Some (program_service now (config_action_registry (ap_config a)))"
    "flights_inv (config_action_registry (ap_config a)) (ap_auth a) (ap_state a, fs)"
  using assms by (auto simp: system_inv_def app_wired_def Let_def)

lemma system_invI:
  "app_wired now a \<Longrightarrow> flights_inv (config_action_registry (ap_config a)) (ap_auth a) (x, fs) \<Longrightarrow>
     system_inv (a\<lparr>ap_state := x\<rparr>, fs)"
  by (auto simp: system_inv_def)

text \<open>What moves the machine under the flights and lets runs progress keeps them in order.\<close>

lemma flights_inv_machine:
  assumes "flights_inv reg au (x, fs)"
    and "machine_inv store_inv store_lookup reg (machine_of (map fl_thread fs) x')"
    and "\<And>k. run_progress (state_lookup x k) (state_lookup x' k)"
  shows "flights_inv reg au (x', fs)"
  using assms by (auto simp: flights_inv_def intro: flight_ok_progress)

lemma exec_steps_invariant:
  assumes "(exec_step (store_ops now) reg)\<^sup>*\<^sup>* (machine_of (map fl_thread fs) x)
      (machine_of (map fl_thread fs) x')"
    and inv: "flights_inv reg au (x, fs)" and reg: "registry_wf reg"
  shows "flights_inv reg au (x', fs) \<and> run_progress (state_lookup x k) (state_lookup x' k)"
proof -
  have steps: "(machine_step (store_ops now) reg)\<^sup>*\<^sup>* (machine_of (map fl_thread fs) x)
      (machine_of (map fl_thread fs) x')"
    using assms(1) rtranclp_mono [of "exec_step (store_ops now) reg" "machine_step (store_ops now) reg"]
    by (auto intro: machine_step.exec)
  have "machine_inv store_inv store_lookup reg (machine_of (map fl_thread fs) x)"
    using inv by (simp add: flights_inv_def)
  from sqlite.machine_reachable [OF steps this reg] show ?thesis
    by (auto intro: flights_inv_machine [OF inv] simp: state_lookup_def)
qed

text \<open>A whole request keeps the invariant.\<close>

lemma serve_keeps_flights:
  assumes inv: "flights_inv reg a (x, fs)" and reg: "registry_wf reg"
    and op: "serve (api_server lg now reg a) h route rq x = (resp, x')"
  shows "flights_inv reg a (x', fs) \<and> run_progress (state_lookup x k) (state_lookup x' k)"
proof -
  note ok = flights_inv_state_ok [OF inv reg]
  have read: ?thesis
    if "\<exists>s'. x' = x\<lparr>xs_store := s'\<rparr> \<and> store_inv s' \<and> store_lookup s' = store_lookup (xs_store x)"
  proof -
    from that obtain s where s: "x' = x\<lparr>xs_store := s\<rparr>" "store_inv s"
      "store_lookup s = store_lookup (xs_store x)" by blast
    then have "machine_inv store_inv store_lookup reg (machine_of (map fl_thread fs) x')"
      using inv by (auto simp: flights_inv_def machine_inv_def machine_of_def flags_inv_def jobs_inv_def)
    from flights_inv_machine [OF inv this] show ?thesis by (simp add: s state_lookup_def)
  qed
  from op api_server_parts(1) show ?thesis
  proof (cases rule: serve_cases)
    case unserved
    with inv show ?thesis by simp
  next
    case (listed c)
    from read [OF read_frame [OF ok disjI1 [OF listed(4)]]] show ?thesis .
  next
    case (got c i)
    from read [OF read_frame [OF ok disjI2 [OF got(4)]]] show ?thesis .
  next
    case (invocation c n r0)
    from api_server_parts(2) ok invocation(4) show ?thesis
    proof (cases rule: api.invoke_action_result)
      case refused
      with inv show ?thesis by simp
    next
      case (called j p res)
      from invoke_steps [OF called(7), of "store_ops now" "map fl_thread fs"]
      have "(exec_step (store_ops now) reg)\<^sup>*\<^sup>* (machine_of (map fl_thread fs) x)
          (machine_of (map fl_thread fs) x')"
        by simp
      from exec_steps_invariant [OF this inv reg] show ?thesis .
    qed
  qed
qed

lemma bootstrap_wired:
  assumes boot: "bootstrap h c b = (Inr a, n)" and loaded: "load rf yd path = Inr c"
    and db: "\<And>q. opened_path (ah_sqlite h) (sc_path (cf_storage c)) = Some q \<Longrightarrow>
      store_inv (sq_database (ah_sqlite h) q)"
  shows "system_inv (a, []) \<and> ap_config a = c"
proof -
  from boot have w: "auth_new (cf_auth c) = Inr (ap_auth a)"
    "ap_http a = api_server (Some (ap_logger a)) (ah_now h) (config_action_registry c) (ap_auth a)"
    "ap_config a = c"
    "ap_executor a = Some (new_service (Some (store_ops (ah_now h))) (config_action_registry c))"
    by (rule bootstrap_Inr, simp)+
  from bootstrap_started [OF boot db loaded]
  have "state_ok (config_action_registry c) (ap_state a)" "xs_jobs (ap_state a) = []"
    "xs_reject_running (ap_state a) = {}"
    by blast+
  then have "flights_inv (config_action_registry c) (ap_auth a) (ap_state a, [])"
    "registry_wf (config_action_registry c)"
    by (simp_all add: flights_inv_def machine_inv_def machine_of_def flags_inv_def jobs_inv_def
        state_ok_def)
  with w show ?thesis by (auto simp: system_inv_def app_wired_def Let_def)
qed

lemma store_inv_faults [simp]: "store_inv (s\<lparr>st_faults := fs\<rparr>) = store_inv s"
  by (simp add: store_inv_def)

text \<open>Within the life of one process, a step keeps the configuration and lets runs progress only.\<close>

definition same_session :: "app \<Rightarrow> app \<Rightarrow> bool" where
  "same_session a a' \<longleftrightarrow> ap_config a' = ap_config a \<and> ap_auth a' = ap_auth a
     \<and> (\<forall>k. run_progress (state_lookup (ap_state a) k) (state_lookup (ap_state a') k))"

lemma same_session_trans: "same_session a b \<Longrightarrow> same_session b c \<Longrightarrow> same_session a c"
  unfolding same_session_def using run_progress_trans by metis

lemma flight_keeps_system:
  assumes "system_inv (a, fs)" "ap_executor a = Some v" "flight_step (ap_http a) v (ap_state a, fs) ev (x, fs')"
  shows "system_inv (a\<lparr>ap_state := x\<rparr>, fs') \<and> same_session a (a\<lparr>ap_state := x\<rparr>)"
  using assms(1)
proof (cases rule: system_invE)
  case (1 now)
  with assms(2,3) have st: "flight_step (api_server (Some (ap_logger a)) now
      (config_action_registry (ap_config a)) (ap_auth a))
      (program_service now (config_action_registry (ap_config a))) (ap_state a, fs) ev (x, fs')" by simp
  from flight_step_invariant [OF st 1(5,2)] system_invI [OF 1(1), of x fs']
  show ?thesis by (simp add: same_session_def)
qed

lemma system_step_invariant:
  assumes "system_step m e m'" "system_inv m"
  shows "system_inv m' \<and> (e \<noteq> Restarted \<longrightarrow> same_session (fst m) (fst m'))"
  using assms
proof (induction rule: system_step.induct)
  case (request a h route rq resp x fs)
  from request.prems show ?case
  proof (cases rule: system_invE)
    case (1 now)
    from serve_keeps_flights [OF 1(5,2) request.hyps [unfolded 1(3)]] system_invI [OF 1(1)]
    show ?thesis by (simp add: same_session_def)
  qed
next
  case (flight a v fs x fs')
  then show ?case using flight_keeps_system by simp
next
  case (flight_answer a v fs n rq resp x fs')
  then show ?case using flight_keeps_system by simp
next
  case (job a v ops us j vs fs h)
  from job.prems show ?case
  proof (cases rule: system_invE)
    case (1 now)
    have ops: "ops = store_ops now" using 1(4) job.hyps(1,2) by simp
    from exec_steps_invariant [OF run_job_steps [OF job.hyps(3)] 1(5,2)] system_invI [OF 1(1)]
    show ?thesis by (simp add: same_session_def ops)
  qed
next
  case (restart rf yd path c h faults a b a' n fs)
  have "store_inv (xs_store (ap_state a))"
    using restart.prems by (auto simp: system_inv_def intro: flights_inv_store)
  with restart.hyps(2) bootstrap_wired [OF restart.hyps(3,1)] show ?case by simp
qed

lemma system_run_invariant: "system_run m es m' \<Longrightarrow> system_inv m \<Longrightarrow> system_inv m'"
  by (induction rule: system_run.induct) (auto dest: system_step_invariant)

lemma session_invariant:
  "system_run m es m' \<Longrightarrow> system_inv m \<Longrightarrow> Restarted \<notin> set es \<Longrightarrow> same_session (fst m) (fst m')"
proof (induction rule: system_run.induct)
  case (start m)
  then show ?case by (simp add: same_session_def)
next
  case (step m es b e c)
  then have "system_inv b" using system_run_invariant by blast
  with step system_step_invariant [OF step.hyps(2)] show ?case
    by (auto intro: same_session_trans)
qed

text \<open>What a response shows was stored when it was sent.\<close>

lemma served_shown:
  assumes st: "system_step m (Served cfg route rq resp) m'" and inv: "system_inv m"
    and plain: "route_plain route" and w: "w \<in> set (shown_runs (re_body resp))"
  shows "\<exists>i q. caller_of (ap_auth (fst m)) rq = Some i \<and> identity_allows_action i (wr_action w)
    \<and> stored_runs m' (wr_id w) = Some q \<and> w = new_run_response q"
proof -
  obtain a fs where m: "m = (a, fs)" by fastforce
  from inv obtain now where n: "registry_wf (config_action_registry (ap_config a))"
    "ap_http a = api_server (Some (ap_logger a)) now (config_action_registry (ap_config a)) (ap_auth a)"
    "ap_executor a = Some (program_service now (config_action_registry (ap_config a)))"
    "flights_inv (config_action_registry (ap_config a)) (ap_auth a) (ap_state a, fs)"
    unfolding m by (rule system_invE)
  have "shows_allowed (stored_runs m') (caller_of (ap_auth a) rq) resp"
    using st unfolding m
  proof (cases rule: system_step.cases)
    case (request h x)
    then have "serve (api_server (Some (ap_logger a)) now (config_action_registry (ap_config a)) (ap_auth a))
        h route rq (ap_state a) = (resp, x)" by (simp add: n(2))
    from serve_effect [OF flights_inv_state_ok [OF n(4,1)] plain this] request show ?thesis by simp
  next
    case (flight_answer v k x fs')
    then have "flight_step (api_server (Some (ap_logger a)) now (config_action_registry (ap_config a)) (ap_auth a))
        (program_service now (config_action_registry (ap_config a))) (ap_state a, fs)
        (Some (k, rq, resp)) (x, fs')" using n(2,3) by simp
    from flight_answer_allowed [OF this n(4,1)] flight_answer show ?thesis by simp
  qed
  with w show ?thesis by (simp add: shows_allowed_def m)
qed

text \<open>A request in flight can be driven to its answer, whatever else is in flight.\<close>

lemma flight_answered:
  "system_inv (a, us @ fl # vs) \<Longrightarrow>
     \<exists>es resp a'. system_run (a, us @ fl # vs)
         (es @ [Served (ap_config a) (Route_V1 (V1_Invoke_Action (fl_name fl))) (fl_request fl) resp])
         (a', us @ vs)
       \<and> set es \<subseteq> {Advanced} \<and> length es < thread_work (fl_thread fl)"
proof (induction "thread_work (fl_thread fl)" arbitrary: a fl rule: less_induct)
  case less
  from less.prems obtain now where ex: "ap_executor a =
      Some (program_service now (config_action_registry (ap_config a)))" (is "_ = Some ?v")
    and ok: "flight_ok (ap_auth a) (state_lookup (ap_state a)) fl"
    by (elim system_invE) (simp add: flights_inv_def)
  have "se_store ?v = Some (store_ops now)" by simp
  from this ok show ?case
  proof (cases rule: flight_moves [where sv = "ap_http a" and x = "ap_state a" and us = us and vs = vs])
    case (answers resp y)
    from flight_answer [OF ex answers] have "system_run (a, us @ fl # vs) ([] @ [Served (ap_config a)
        (Route_V1 (V1_Invoke_Action (fl_name fl))) (fl_request fl) resp]) (a\<lparr>ap_state := y\<rparr>, us @ vs)"
      by simp
    moreover have "0 < thread_work (fl_thread fl)" by (cases "fl_thread fl") simp_all
    ultimately show ?thesis by (intro exI [of _ "[]"] exI [of _ resp] exI conjI) auto
  next
    case (advances fl' y)
    let ?a = "a\<lparr>ap_state := y\<rparr>"
    note st = flight [OF ex advances(1)]
    have "system_inv (?a, us @ fl' # vs)" using system_step_invariant [OF st less.prems] by simp
    from less.hyps [OF advances(4) this] obtain es resp a' where
      run: "system_run (?a, us @ fl' # vs)
        (es @ [Served (ap_config a) (Route_V1 (V1_Invoke_Action (fl_name fl))) (fl_request fl) resp])
        (a', us @ vs)"
      and es: "set es \<subseteq> {Advanced}" "length es < thread_work (fl_thread fl')"
      by (auto simp: advances(2,3))
    have "system_run (a, us @ fl # vs) ([Advanced] @ es @ [Served (ap_config a)
        (Route_V1 (V1_Invoke_Action (fl_name fl))) (fl_request fl) resp]) (a', us @ vs)"
      unfolding system_run_append [of _ "[Advanced]"] system_run_one using st run by blast
    with es advances(4) show ?thesis
      by (intro exI [of _ "Advanced # es"] exI [of _ resp] exI [of _ a']) simp
  qed
qed

text \<open>The token a response was shown for.\<close>

definition presents_token :: "http_request \<Rightarrow> token \<Rightarrow> bool" where
  "presents_token rq t \<longleftrightarrow>
     (\<exists>scheme v. strings_fields (header_get (rq_header rq) ''Authorization'') = [scheme, v]
        \<and> equal_fold scheme ''Bearer'' \<and> sha256 (tk_value t) = sha256 v)"

lemma caller_presents_token:
  assumes "auth_new cfg = Inr a" "caller_of a rq = Some i"
  shows "\<exists>t \<in> set (au_tokens cfg). presents_token rq t \<and> i = new_identity t"
proof -
  have "authenticate_header a (header_get (rq_header rq) ''Authorization'') = Inr i"
    using assms(2) by (auto simp: caller_of_def authenticate_request_def split: sum.splits)
  from authenticate_header_configured [OF assms(1) this] show ?thesis
    by (auto simp: presents_token_def)
qed

lemma system_event_served:
  assumes "system_run a es a'" "system_inv a" "Served cfg route rq resp \<in> set es"
  shows "\<exists>b b'. system_inv b \<and> system_step b (Served cfg route rq resp) b'"
proof -
  from assms(3) obtain us vs where "es = us @ [Served cfg route rq resp] @ vs"
    by (auto simp: in_set_conv_decomp)
  with assms(1) obtain b b' where "system_run a us b" "system_step b (Served cfg route rq resp) b'"
    by (auto simp: system_run_append simp del: append_Cons)
  then show ?thesis using system_run_invariant [OF _ assms(2)] by blast
qed

lemma served_config: "system_step m (Served cfg route rq resp) m' \<Longrightarrow> cfg = ap_config (fst m)"
  by (auto elim: system_step.cases)

lemma system_inv_auth:
  "system_inv m \<Longrightarrow> auth_new (cf_auth (ap_config (fst m))) = Inr (ap_auth (fst m))"
  by (auto simp: system_inv_def app_wired_def Let_def)

subsection \<open>A sample run\<close>

text \<open>The service restarts after a crash, and the client asks for the run that was interrupted.\<close>

lemma crashed_host_inv:
  "opened_path (ah_sqlite crashed_host) (sc_path (cf_storage sample_config)) = Some q \<Longrightarrow>
     store_inv (sq_database (ah_sqlite crashed_host) q)"
  by (simp add: crashed_host_facts sample_store_facts(1))

lemma crashed_run_shown:
  obtains a resp x q where "bootstrap crashed_host sample_config sample_build = (Inr a, 0)"
    "serve (ap_http a) sample_host (Route_V1 (V1_Get_Run ''run_1'')) sample_request (ap_state a) = (resp, x)"
    "shown_runs (re_body resp) = [new_run_response q]" "rn_id q = ''run_1''"
    "rn_status q = run_status_cancelled" "rn_action_name q = ''deploy''" "x = ap_state a"
proof -
  obtain a where boot: "bootstrap crashed_host sample_config sample_build = (Inr a, 0)"
    and faults: "st_faults (xs_store (ap_state a)) = []"
    using bootstrap_ok [OF sample_loads _ crashed_host_facts(1-3), of sample_build]
    by (auto simp: crashed_host_facts sample_store_facts(1) sample_store_created(2) sample_store_finishable)
  note st = bootstrap_started [OF boot crashed_host_inv sample_loads]
  have r0: "store_lookup sample_store ''run_1'' = Some (created_run 0 sample_create)"
    "rn_status (created_run 0 sample_create) = run_status_running"
    by (simp_all add: sample_store_facts) (simp add: sample_create_def)
  obtain q where q: "state_lookup (ap_state a) ''run_1'' = Some q" "rn_status q = run_status_cancelled"
    using st r0 unfolding crashed_host_facts(4) by blast
  note inv = bootstrap_wired [OF boot sample_loads crashed_host_inv]
  then obtain now where w: "app_wired now a" "ap_config a = sample_config"
    by (auto simp: system_inv_def)
  have "auth_new (cf_auth sample_config) = Inr sample_auth"
    using valid_config_auth [OF sample_valid] by (simp add: sample_auth_def)
  with w have http: "ap_http a = api_server (Some (ap_logger a)) now
      (config_action_registry sample_config) sample_auth"
    by (simp add: app_wired_def Let_def)
  from st have ok: "state_ok (config_action_registry sample_config) (ap_state a)" by blast
  have id: "rn_id q = ''run_1''"
    using ok q(1) store_reader.lookup_id by (auto simp: state_ok_def state_lookup_def)
  have name: "rn_action_name q = ''deploy''"
  proof -
    from st q(1) obtain r1 where "store_lookup sample_store ''run_1'' = Some r1"
      "q = r1 \<or> rn_action_name q = rn_action_name r1"
      unfolding crashed_host_facts(4) by blast
    then have "rn_action_name q = rn_action_name (created_run 0 sample_create)"
      by (auto simp: sample_store_facts)
    then show ?thesis by (simp add: created_run_def sample_create_def)
  qed
  have "identity_allows_action (new_identity sample_token) (rn_action_name q)"
    by (simp add: name sample_identity_allows)
  with get_run_served [OF ok faults sample_caller, of "Some (ap_logger a)" now sample_host "''run_1''"] q(1)
  have "serve (ap_http a) sample_host (Route_V1 (V1_Get_Run ''run_1'')) sample_request (ap_state a)
      = (log_request (ap_http a) sample_host sample_request
          (write_json (new_writer sample_request) 200 (Body_Run (new_run_response q))), ap_state a)"
    by (simp add: sample_trims http)
  from that [OF boot this _ id q(2) name refl] show thesis by simp
qed

lemma crashed_run_served:
  obtains a resp q where "bootstrap crashed_host sample_config sample_build = (Inr a, 0)"
    "system_step (a, []) (Served sample_config (Route_V1 (V1_Get_Run ''run_1'')) sample_request resp) (a, [])"
    "shown_runs (re_body resp) = [new_run_response q]" "rn_action_name q = ''deploy''"
proof -
  obtain a resp x q where boot: "bootstrap crashed_host sample_config sample_build = (Inr a, 0)"
    and op: "serve (ap_http a) sample_host (Route_V1 (V1_Get_Run ''run_1'')) sample_request (ap_state a)
      = (resp, x)"
    and q: "shown_runs (re_body resp) = [new_run_response q]" "rn_action_name q = ''deploy''"
    and x: "x = ap_state a"
    by (rule crashed_run_shown)
  have c: "ap_config a = sample_config"
    using bootstrap_wired [OF boot sample_loads crashed_host_inv] by simp
  from request [OF op, of "[]"] c x
  have "system_step (a, []) (Served sample_config (Route_V1 (V1_Get_Run ''run_1'')) sample_request resp) (a, [])"
    by simp
  from that [OF boot this q] show thesis .
qed

end
