(* ===== verification/Spec2Isabelle.thy ===== *)
theory Spec2Isabelle
  imports
    Sha256_Vectors Cli_Properties System
begin

text \<open>
  A verification development for Microhook, a service that runs configured actions (commands or
  shell lines) on authenticated HTTP requests and keeps a record of every run in SQLite.

  The program and its parts. \<open>internal/cli\<close> dispatches a command; \<open>serve\<close> loads the configuration
  (\<open>internal/config\<close>) and bootstraps the application (\<open>internal/app\<close>): the store is opened and its
  schema applied (\<open>internal/storage/sqlite.go\<close>), old runs are pruned and the runs a crash left
  running are cancelled, the tokens are digested (\<open>internal/auth\<close>), and the HTTP server
  (\<open>internal/httpapi\<close>) is built on the execution service (\<open>internal/execution\<close>) and on the store
  (\<open>internal/storage/repository.go\<close> over the generated queries of \<open>internal/storage/sqlc\<close>).
  A request to invoke an action goes through authentication, authorisation and the body decoder
  to \<open>Service.Invoke\<close>, which creates a run with a snapshot of the action, and executes it, in the
  request or in a goroutine of its own; the outcome of the process is recorded in the run.

  Which theory models what.
  \<^item> \<open>Prelude\<close>: error values with the sentinels \<open>errors.Is\<close> finds, 64-bit integers, times, maps as
    association lists, list lemmas. \<open>Go_Strings\<close>, \<open>Go_Format\<close>, \<open>Go_Duration\<close>, \<open>Json_Scan\<close>,
    \<open>Json\<close>, \<open>Json_Roundtrip\<close>, \<open>Sha256\<close>, \<open>Sha256_Vectors\<close>, \<open>Logging\<close>: the parts of Go's standard
    library the program computes with, written out (strings, \<open>%q\<close> and durations, \<open>ParseDuration\<close>
    with its rounding, the JSON scanner and encoder, SHA-256 with the standard test vectors, slog).
  \<^item> \<open>Config\<close>, \<open>Validate\<close>, \<open>Load\<close>: \<open>config.go\<close>, \<open>registry.go\<close>, \<open>validate.go\<close>, \<open>load.go\<close>.
    \<open>Token_Format\<close>, \<open>Auth\<close>: \<open>internal/auth\<close>. \<open>Samples\<close> is one configuration the other theories
    instantiate their results on, \<open>Config_Properties\<close> has the results.
  \<^item> \<open>Sql_Tables\<close>: the rows and the queries. \<open>Repository\<close>: \<open>types.go\<close> and \<open>repository.go\<close>; the state is
    the committed tables and the script of driver failures. \<open>Store_Spec\<close> and \<open>Store_Queries\<close>: the
    abstract view, a finite map from ids to runs, and what each operation does to it.
    \<open>Run_Store\<close>: the Go interfaces \<open>runReader\<close> and \<open>runStore\<close> as locales, interpreted on the store.
    \<open>Sqlite\<close>: opening and closing. \<open>Store_Properties\<close>: the results.
  \<^item> \<open>Tail_Buffer\<close>: the bounded capture of output. \<open>Exec\<close>: \<open>runner.go\<close>, \<open>service.go\<close>, \<open>scheduler.go\<close>;
    the state is the store, the reject flags and the goroutines in flight. \<open>Exec_Spec\<close>: what holds
    for every store that keeps the contract. \<open>Exec_Machine\<close>: concurrent invocations, crashes and
    restarts as a step relation, with its invariant. \<open>Exec_Properties\<close>: the results.
  \<^item> \<open>Http_Api\<close>: \<open>server.go\<close>, over the interfaces \<open>actionInvoker\<close> and \<open>runReader\<close>; \<open>Http_Spec\<close> has these
    as locales and interprets them on the execution service and the store. \<open>Http_Decode\<close>,
    \<open>Http_Properties\<close>, \<open>Http_Log\<close>: the results on bodies, answers and the log.
  \<^item> \<open>App\<close>, \<open>App_Properties\<close>, \<open>Buildinfo\<close>, \<open>Cli\<close>, \<open>Cli_Properties\<close>: \<open>internal/app\<close>,
    \<open>internal/buildinfo\<close>, \<open>internal/cli\<close>. \<open>Flights\<close>: requests to invoke an action, cut at their effects
    on the shared state, so that they interleave. \<open>System\<close>: the whole service over its life, as a relation
    whose events are requests, steps of flights, ends of goroutines and restarts; this theory states the
    results about it.

  What the lemmas show. The configuration: validation accepts exactly the valid configurations,
  the registry finds exactly the configured actions, timeouts are read exactly. Authentication:
  exactly the configured tokens are accepted. The store: creating, updating and pruning are atomic
  and exact on the abstract map under every driver failure, listing is exact and ordered, and what is
  written is read back. Execution: what is recorded of a process, and that a run only goes from running to
  one terminal status; one process at a time for the policy reject; invocations end, after at
  most three steps each, and leave no flag behind. The API: what each request answers, that it shows
  and changes only what the caller may access, and what it logs. The application: what a bootstrap
  leaves, when it succeeds, and that every opened database handle is closed once.

  Bounds. Recursion is structural or has a measure; no definition needs fuel. The JSON scanner
  stops at 10000 nested values, as the library's does, and request bodies at 1 MiB.

  What is a parameter: the operating system (files, clock, random bytes, the outcome of a process
  as a script of what the calls of the runner see, contexts), the SQL driver (a script of failures), the YAML
  decoder, the HTTP router (a request comes with the route it was matched to), the argument
  parser, and what the network does. The hypotheses about them are named where they are used
  (\<open>context_laws\<close> is the documentation of the package \<open>context\<close>).

  Not modelled: \<open>cmd/microhook\<close>, which calls \<open>cli.Execute\<close> and exits with its result; \<open>sqlc/db.go\<close>,
  which holds the connection and the statement text; the listener and the timeouts of \<open>net/http\<close>, and with
  them \<open>Serve\<close> of the server, which only logs and calls it; the functions that put an identity or a
  log state into a context and take it out, which are arguments of the handlers here.
\<close>

section \<open>The service over its life\<close>

text \<open>
  C1: end to end: from a bootstrap with a loaded configuration on, whatever is requested, in whatever
  order concurrent invocations take their steps, whatever the driver and the processes do, and however often the service is killed and started with
  other configurations, a response shows a run only if its request presented a bearer token whose
  digest is that of a token of the configuration then in force, and the scope of this token has the run's action or is global.
\<close>

theorem runs_shown_to_token_holders:
  assumes boot: "bootstrap h c b = (Inr a, n)" and loaded: "load rf yd path = Inr c"
    and db: "\<forall>q. opened_path (ah_sqlite h) (sc_path (cf_storage c)) = Some q \<longrightarrow>
      store_inv (sq_database (ah_sqlite h) q)"
    and run: "system_run (a, []) es m" and ev: "Served cfg route rq resp \<in> set es"
    and plain: "route_plain route" and w: "w \<in> set (shown_runs (re_body resp))"
  shows "\<exists>t \<in> set (au_tokens (cf_auth cfg)). presents_token rq t
    \<and> (tk_actions t = [] \<or> wr_action w \<in> set (tk_actions t))"
proof -
  have "system_inv (a, [])" using bootstrap_wired [OF boot loaded db [rule_format]] by simp
  from system_event_served [OF run this ev] obtain d d' where
    inv: "system_inv d" and st: "system_step d (Served cfg route rq resp) d'" by blast
  from served_shown [OF st inv plain w] obtain i where
    i: "caller_of (ap_auth (fst d)) rq = Some i" "identity_allows_action i (wr_action w)" by blast
  from caller_presents_token [OF system_inv_auth [OF inv] i(1)] i(2) served_config [OF st]
  show ?thesis by (auto simp: new_identity_allows)
qed

theorem runs_shown_to_token_holders_witness:
  "\<exists>a m resp w. system_run (a, []) [Served sample_config (Route_V1 (V1_Get_Run ''run_1'')) sample_request resp] m
     \<and> w \<in> set (shown_runs (re_body resp)) \<and> presents_token sample_request sample_token
     \<and> wr_action w = ''deploy''"
proof -
  let ?r = "Route_V1 (V1_Get_Run ''run_1'')"
  obtain a resp q where boot: "bootstrap crashed_host sample_config sample_build = (Inr a, 0)"
    and st: "system_step (a, []) (Served sample_config ?r sample_request resp) (a, [])"
    and q: "shown_runs (re_body resp) = [new_run_response q]" "rn_action_name q = ''deploy''"
    by (rule crashed_run_served)
  have run: "system_run (a, []) [Served sample_config ?r sample_request resp] (a, [])" using st by simp
  have w: "new_run_response q \<in> set (shown_runs (re_body resp))" by (simp add: q)
  have "presents_token sample_request sample_token"
    using runs_shown_to_token_holders [OF boot sample_loads _ run _ _ w] crashed_host_inv by auto
  with run w q(2) show ?thesis
    by (intro exI [of _ a] exI [of _ "(a, [])"] exI [of _ resp] exI [of _ "new_run_response q"]) simp
qed



end
